(* ===== verification/Prelude.thy ===== *)
theory Prelude
  imports
    "HOL-Library.Word"
    "HOL-Library.Finite_Map"
    "HOL-Library.Multiset"
    "HOL-Library.List_Lexorder"
    "HOL-Library.Char_ord"
    "HOL-Library.Sublist"
    "HOL-Library.State_Monad"
begin

unbundle bit_operations_syntax

section \<open>Prelude: types, errors and generic lemmas shared by every component\<close>

text \<open>
  The conventions of the whole development.

  \<^item> A Go \<open>string\<close> is a byte sequence: an Isabelle \<^typ>\<open>string\<close>, whose characters are the
    256 byte values. A Go \<open>[]byte\<close> buffer is a list of \<open>8 word\<close>s.
  \<^item> A Go \<open>int\<close> (64 bits on every supported platform) is an \<^typ>\<open>int\<close> on which every
    operation that can overflow is followed by \<open>wrap64\<close>. Unsigned hashes, checksums and
    length fields keep their width as words.
  \<^item> A Go \<open>map\<close> is a finite map; \<open>range\<close> over it visits the keys in an order the runtime
    picks, which is an argument (\<open>go_order\<close>).
  \<^item> A result \<open>(T, error)\<close> is a sum \<open>go_error + 'a\<close>; a call that may also panic returns an
    \<open>outcome\<close>.
  \<^item> Code that reads the clock, picks an iteration order or calls the operating system is a
    state-monad value over the world it runs in.
\<close>

subsection \<open>Collections of rewrite rules\<close>

named_theorems go_defs \<open>definitions of library models that proofs unfold together\<close>
named_theorems view_simps \<open>effect of the store operations on the per-key view\<close>
named_theorems wf_intros \<open>preservation of the representation invariant of the store\<close>
named_theorems engine_defs \<open>definitions of the storage-engine methods\<close>

subsection \<open>Errors, outcomes, buffers\<close>

datatype go_error =
    ErrMsg string
  | ErrEOF
  | ErrUnexpectedEOF
  | ErrChecksumMismatch
  | ErrShortEntry
  | ErrNotExist
  | ErrOS
  | ErrJSON

datatype 'a outcome = Ok 'a | Err go_error | Panic

type_synonym bytes = "8 word list"

definition string_bytes :: "string \<Rightarrow> bytes" where
  "string_bytes s = map of_char s"

definition bytes_string :: "bytes \<Rightarrow> string" where
  "bytes_string bs = map (\<lambda>b. char_of (unat b)) bs"

lemma char_of_of_char_word [simp]: "char_of (unat (of_char c :: 8 word)) = c"
proof -
  have "of_char c < (256 :: nat)" by simp
  then have "unat (of_nat (of_char c) :: 8 word) = of_char c"
    by (simp add: unat_of_nat)
  moreover have "(of_char c :: 8 word) = of_nat (of_char c)"
    by (simp only: of_nat_of_char)
  ultimately have "unat (of_char c :: 8 word) = of_char c" by metis
  then show ?thesis by simp
qed

lemma bytes_string_inverse [simp]: "bytes_string (string_bytes s) = s"
  by (simp add: bytes_string_def string_bytes_def comp_def)

lemma length_string_bytes [simp]: "length (string_bytes s) = length s"
  by (simp add: string_bytes_def)

lemma length_bytes_string [simp]: "length (bytes_string bs) = length bs"
  by (simp add: bytes_string_def)

subsection \<open>64-bit signed arithmetic\<close>

definition min_int64 :: int where
  "min_int64 = - (2 ^ 63)"

definition max_int64 :: int where
  "max_int64 = 2 ^ 63 - 1"

definition in_int64 :: "int \<Rightarrow> bool" where
  "in_int64 x \<longleftrightarrow> min_int64 \<le> x \<and> x \<le> max_int64"

definition wrap64 :: "int \<Rightarrow> int" where
  "wrap64 x = (x + 2 ^ 63) mod 2 ^ 64 - 2 ^ 63"

lemmas int64_defs = min_int64_def max_int64_def in_int64_def

lemma wrap64_id [simp]: "in_int64 x \<Longrightarrow> wrap64 x = x"
  by (simp add: wrap64_def int64_defs)

lemma in_int64_wrap64 [simp]: "in_int64 (wrap64 x)"
proof -
  have "0 \<le> (x + 2 ^ 63) mod 2 ^ 64" and "(x + 2 ^ 63) mod 2 ^ 64 < (2 ^ 64 :: int)"
    by simp_all
  then show ?thesis by (simp add: wrap64_def int64_defs)
qed

lemma wrap64_max: "wrap64 (max_int64 + 1) = min_int64"
  by (simp add: wrap64_def int64_defs)

lemma wrap64_min: "wrap64 (min_int64 - 1) = max_int64"
  by (simp add: wrap64_def int64_defs)

lemma wrap64_add_wrap64: "wrap64 (wrap64 x + y) = wrap64 (x + y)"
proof -
  have "wrap64 (wrap64 x + y) = ((x + 2 ^ 63) mod 2 ^ 64 + y) mod 2 ^ 64 - 2 ^ 63"
    by (simp add: wrap64_def)
  also have "\<dots> = (x + 2 ^ 63 + y) mod 2 ^ 64 - 2 ^ 63"
    by (simp add: mod_add_left_eq)
  finally show ?thesis by (simp add: wrap64_def algebra_simps)
qed

subsection \<open>State-monad evaluation\<close>

abbreviation "ret \<equiv> State_Monad.return"

abbreviation runs :: "('s, 'a) state \<Rightarrow> 's \<Rightarrow> 'a" where
  "runs m s \<equiv> fst (run_state m s)"

abbreviation after :: "('s, 'a) state \<Rightarrow> 's \<Rightarrow> 's" where
  "after m s \<equiv> snd (run_state m s)"

text \<open>Running a computation on one component of the state.\<close>

definition on_part :: "('t \<Rightarrow> 's) \<Rightarrow> ('s \<Rightarrow> 't \<Rightarrow> 't) \<Rightarrow> ('s, 'a) state \<Rightarrow> ('t, 'a) state" where
  "on_part get put m = State (\<lambda>t. case run_state m (get t) of (a, s') \<Rightarrow> (a, put s' t))"

lemma run_on_part [simp]:
  "run_state (on_part get put m) t = (case run_state m (get t) of (a, s') \<Rightarrow> (a, put s' t))"
  by (simp add: on_part_def)

text \<open>The state of a component is a pair: the component and the world it runs in.\<close>

definition on_world :: "('w, 'a) state \<Rightarrow> ('s \<times> 'w, 'a) state" where
  "on_world m = on_part snd (\<lambda>w s. (fst s, w)) m"

lemma run_on_world [simp]:
  "run_state (on_world m) s = (case run_state m (snd s) of (a, w) \<Rightarrow> (a, (fst s, w)))"
  by (simp add: on_world_def)

definition modify :: "('s \<Rightarrow> 's) \<Rightarrow> ('s, unit) state" where
  "modify f = State (\<lambda>s. ((), f s))"

lemma run_modify [simp]: "run_state (modify f) s = ((), f s)"
  by (simp add: modify_def)

text \<open>A \<open>for\<close> loop whose body is run for its effect.\<close>

fun for_each :: "'a list \<Rightarrow> ('a \<Rightarrow> ('s, unit) state) \<Rightarrow> ('s, unit) state" where
  "for_each [] f = ret ()"
| "for_each (x # xs) f = do { f x; for_each xs f }"

lemma after_for_each_Nil [simp]: "after (for_each [] f) s = s"
  by simp

lemma after_for_each_Cons [simp]:
  "after (for_each (x # xs) f) s = after (for_each xs f) (after (f x) s)"
  by (simp split: prod.split)

lemma for_each_invariant:
  assumes "P s" and "\<And>x t. x \<in> set xs \<Longrightarrow> P t \<Longrightarrow> P (after (f x) t)"
  shows "P (after (for_each xs f) s)"
  using assms
proof (induction xs arbitrary: s)
  case Nil
  then show ?case by simp
next
  case (Cons x xs)
  then show ?case by (simp del: for_each.simps)
qed

subsection \<open>Go maps: length and iteration order\<close>

definition map_len :: "('k, 'v) fmap \<Rightarrow> nat" where
  "map_len m = fcard (fmdom m)"

definition map_keys :: "('k::linorder, 'v) fmap \<Rightarrow> 'k list" where
  "map_keys m = sorted_list_of_fset (fmdom m)"

lemma set_map_keys [simp]: "set (map_keys m) = fmdom' m"
  by (simp add: map_keys_def fmdom'_alt_def)

lemma distinct_map_keys [simp]: "distinct (map_keys m)"
  by (simp add: map_keys_def sorted_list_of_fset.rep_eq)

lemma length_map_keys [simp]: "length (map_keys m) = map_len m"
  by (simp add: map_keys_def map_len_def sorted_list_of_fset.rep_eq fcard.rep_eq)

lemma map_len_empty [simp]: "map_len fmempty = 0"
  by (simp add: map_len_def)

lemma map_len_0_iff [simp]: "map_len m = 0 \<longleftrightarrow> m = fmempty"
  by (auto simp: map_len_def intro!: fmap_ext fmdom_notD)

text \<open>
  \<open>range\<close> over a Go map may visit the entries in any order. \<open>go_order ps xs\<close> is the
  order picked by the choices \<open>ps\<close>: at each step the choice, modulo the number of entries
  left, is the index of the entry visited next.
\<close>

fun go_order :: "nat list \<Rightarrow> 'a list \<Rightarrow> 'a list" where
  "go_order ps [] = []"
| "go_order [] (x # xs) = x # xs"
| "go_order (p # ps) (x # xs) =
     (let ys = x # xs; i = p mod length ys
      in ys ! i # go_order ps (take i ys @ drop (Suc i) ys))"

lemma mset_remove_nth:
  "i < length ys \<Longrightarrow> add_mset (ys ! i) (mset (take i ys @ drop (Suc i) ys)) = mset ys"
  by (metis id_take_nth_drop mset.simps(2) mset_append union_mset_add_mset_right)

lemma mset_go_order [simp]: "mset (go_order ps xs) = mset xs"
proof (induction ps xs rule: go_order.induct)
  case (3 p ps x xs)
  let ?ys = "x # xs" and ?i = "p mod length (x # xs)"
  have "?i < length ?ys" by simp
  then have "add_mset (?ys ! ?i) (mset (take ?i ?ys @ drop (Suc ?i) ?ys)) = mset ?ys"
    by (rule mset_remove_nth)
  with "3.IH" [OF refl refl] show ?case
    by (simp only: go_order.simps Let_def mset.simps(2) [of "?ys ! ?i"])
qed simp_all

lemma set_go_order [simp]: "set (go_order ps xs) = set xs"
  by (metis mset_go_order set_mset_mset)

lemma length_go_order [simp]: "length (go_order ps xs) = length xs"
  by (metis mset_go_order size_mset)

lemma distinct_go_order [simp]: "distinct (go_order ps xs) = distinct xs"
  by (metis mset_go_order mset_eq_imp_distinct_iff)

lemma go_order_eq_Nil [simp]: "go_order ps xs = [] \<longleftrightarrow> xs = []"
  by (metis length_0_conv length_go_order)

text \<open>Every order is possible: the choices range over all permutations.\<close>

lemma go_order_complete:
  "mset ys = mset xs \<Longrightarrow> \<exists>ps. go_order ps xs = ys"
proof (induction ys arbitrary: xs)
  case Nil
  then show ?case by simp
next
  case (Cons y ys)
  from Cons.prems have "y \<in> set xs" by (metis list.set_intros(1) set_mset_mset)
  then obtain i where i: "i < length xs" "xs ! i = y" by (auto simp: in_set_conv_nth)
  have "add_mset y (mset (take i xs @ drop (Suc i) xs)) = add_mset y (mset ys)"
    using mset_remove_nth [OF i(1)] i(2) Cons.prems by simp
  then obtain ps where ps: "go_order ps (take i xs @ drop (Suc i) xs) = ys"
    using Cons.IH [of "take i xs @ drop (Suc i) xs"] by auto
  from i obtain z zs where "xs = z # zs" by (cases xs) auto
  with i ps have "go_order (i # ps) xs = y # ys"
    by (simp add: Let_def del: take_append drop_append drop_Suc_Cons)
  then show ?case by blast
qed

subsection \<open>Finite sets and maps\<close>

lemma distinct_sorted_list_of_fset [simp]: "distinct (sorted_list_of_fset A)"
  by (simp add: sorted_list_of_fset.rep_eq)

lemma fcard_finsert_notin [simp]: "x |\<notin>| A \<Longrightarrow> fcard (finsert x A) = Suc (fcard A)"
  by (simp add: fcard_finsert_if)

lemma map_len_fmupd:
  "map_len (fmupd k v m) = (if fmlookup m k = None then Suc (map_len m) else map_len m)"
  by (auto simp: map_len_def fcard_finsert_if fmlookup_dom_iff)

lemma fmupd_neq_fmempty [simp]: "fmupd k v m \<noteq> fmempty"
  by (metis fmempty_lookup fmupd_lookup option.distinct(1))

lemma fmdrop_fset_of_empty [simp]: "fmdrop_fset A fmempty = fmempty"
  by (rule fmap_ext) simp

lemma fmlookup_fmdrop_if: "fmlookup (fmdrop a m) b = (if a = b then None else fmlookup m b)"
  by simp

end
