(* ===== verification/Glob.thy ===== *)
theory Glob
  imports Prelude
begin

section \<open>Glob patterns of the KEYS command (core/store/store.go)\<close>

text \<open>
  \<open>globMatch\<close> is the matcher of the source, branch by branch: a star tries every suffix of
  the text, a question mark takes one byte, a bracket takes one byte of a class (and an
  unclosed bracket compares the rest of the pattern literally), any other byte stands for
  itself. Below it a pattern is given a meaning independent of the matcher: it is split
  into tokens, and the language of the pattern is the concatenation of the languages of
  its tokens. \<open>globMatch_language\<close> says the matcher decides exactly that language.
\<close>

subsection \<open>The matcher\<close>

text \<open>The loop over a bracket class: ranges \<open>a-b\<close> consume three bytes, single bytes one.\<close>

fun classMatch :: "char \<Rightarrow> string \<Rightarrow> bool \<Rightarrow> bool" where
  "classMatch ch [] matched = matched"
| "classMatch ch (a # d # b # cs) matched =
     (if d = CHR ''-''
      then classMatch ch cs (if a \<le> ch \<and> ch \<le> b then True else matched)
      else classMatch ch (d # b # cs) (if a = ch then True else matched))"
| "classMatch ch (a # cs) matched = classMatch ch cs (if a = ch then True else matched)"

fun globMatch :: "string \<Rightarrow> string \<Rightarrow> bool" where
  "globMatch [] str = (str = [])"
| "globMatch (c # pattern) str =
     (if c = CHR ''*'' then
        (if pattern = [] then True
         else list_ex (\<lambda>i. globMatch pattern (drop i str)) [0..<Suc (length str)])
      else if c = CHR ''?'' then
        (if str = [] then False else globMatch pattern (tl str))
      else if c = CHR ''['' then
        (if CHR '']'' \<notin> set pattern then c # pattern = str
         else if str = [] then False
         else let cls = takeWhile (\<lambda>x. x \<noteq> CHR '']'') pattern
              in if \<not> classMatch (hd str) cls False then False
                 else globMatch (drop (Suc (length cls)) pattern) (tl str))
      else
        (if str = [] \<or> c \<noteq> hd str then False else globMatch pattern (tl str)))"

declare globMatch.simps(2) [simp del]

definition matchPattern :: "string \<Rightarrow> string \<Rightarrow> bool" where
  "matchPattern pattern key = (if pattern = ''*'' then True else globMatch pattern key)"

subsection \<open>The language of a pattern\<close>

datatype token =
    AnyText
  | AnyByte
  | ClassByte string
  | LitByte char
  | LitRest string

fun class_set :: "string \<Rightarrow> char set" where
  "class_set [] = {}"
| "class_set (a # d # b # cs) =
     (if d = CHR ''-'' then {a..b} \<union> class_set cs else insert a (class_set (d # b # cs)))"
| "class_set (a # cs) = insert a (class_set cs)"

fun tokens :: "string \<Rightarrow> token list" where
  "tokens [] = []"
| "tokens (c # p) =
     (if c = CHR ''*'' then AnyText # tokens p
      else if c = CHR ''?'' then AnyByte # tokens p
      else if c = CHR ''['' then
        (if CHR '']'' \<in> set p
         then let cls = takeWhile (\<lambda>x. x \<noteq> CHR '']'') p
              in ClassByte cls # tokens (drop (Suc (length cls)) p)
         else [LitRest (c # p)])
      else LitByte c # tokens p)"

declare tokens.simps(2) [simp del]

fun token_lang :: "token \<Rightarrow> string set" where
  "token_lang AnyText = UNIV"
| "token_lang AnyByte = {[c] | c. True}"
| "token_lang (ClassByte cls) = {[c] | c. c \<in> class_set cls}"
| "token_lang (LitByte c) = {[c]}"
| "token_lang (LitRest s) = {s}"

definition conc :: "string set \<Rightarrow> string set \<Rightarrow> string set" where
  "conc A B = {u @ v | u v. u \<in> A \<and> v \<in> B}"

definition glob_lang :: "token list \<Rightarrow> string set" where
  "glob_lang ts = foldr (\<lambda>t. conc (token_lang t)) ts {[]}"

lemma glob_lang_Nil [simp]: "glob_lang [] = {[]}"
  by (simp add: glob_lang_def)

lemma glob_lang_Cons [simp]: "glob_lang (t # ts) = conc (token_lang t) (glob_lang ts)"
  by (simp add: glob_lang_def)

lemma conc_UNIV_iff: "s \<in> conc UNIV B \<longleftrightarrow> (\<exists>i \<le> length s. drop i s \<in> B)"
proof
  assume "s \<in> conc UNIV B"
  then obtain u v where "s = u @ v" "v \<in> B" by (auto simp: conc_def)
  then have "drop (length u) s \<in> B" and "length u \<le> length s" by simp_all
  then show "\<exists>i \<le> length s. drop i s \<in> B" by blast
next
  assume "\<exists>i \<le> length s. drop i s \<in> B"
  then obtain i where "drop i s \<in> B" by blast
  then have "take i s @ drop i s \<in> conc UNIV B" unfolding conc_def by blast
  then show "s \<in> conc UNIV B" by simp
qed

lemma conc_byte_iff:
  "s \<in> conc {u. \<exists>c. u = [c] \<and> P c} B \<longleftrightarrow> s \<noteq> [] \<and> P (hd s) \<and> tl s \<in> B"
proof (cases s)
  case Nil
  then show ?thesis by (auto simp: conc_def)
next
  case (Cons a t)
  have "[a] @ t \<in> conc {u. \<exists>c. u = [c] \<and> P c} B" if "P a" "t \<in> B"
    unfolding conc_def using that by blast
  with Cons show ?thesis by (auto simp: conc_def)
qed

lemma conc_any_iff: "s \<in> conc {u. \<exists>c. u = [c]} B \<longleftrightarrow> s \<noteq> [] \<and> tl s \<in> B"
  using conc_byte_iff [of s "\<lambda>_. True" B] by simp

lemma conc_lit_iff: "s \<in> conc {[c]} B \<longleftrightarrow> s \<noteq> [] \<and> hd s = c \<and> tl s \<in> B"
  by (cases s) (auto simp: conc_def)

lemma conc_single_Nil [simp]: "conc A {[]} = A"
  by (auto simp: conc_def)

subsection \<open>The matcher decides the language\<close>

lemma classMatch_iff: "classMatch ch cls m \<longleftrightarrow> m \<or> ch \<in> class_set cls"
  by (induction ch cls m rule: classMatch.induct) auto

lemma globMatch_star: "globMatch (CHR ''*'' # p) s \<longleftrightarrow> (\<exists>i \<le> length s. globMatch p (drop i s))"
proof (cases "p = []")
  case True
  have "globMatch [] (drop (length s) s)" by simp
  with True show ?thesis by (auto simp: globMatch.simps(2))
next
  case False
  then have "globMatch (CHR ''*'' # p) s \<longleftrightarrow>
      (\<exists>i \<in> set [0..<Suc (length s)]. globMatch p (drop i s))"
    by (simp only: globMatch.simps(2) list_ex_iff simp_thms if_True if_False)
  then show ?thesis by (auto simp: less_Suc_eq_le simp del: upt_Suc)
qed

theorem globMatch_language: "globMatch p s \<longleftrightarrow> s \<in> glob_lang (tokens p)"
proof (induction p arbitrary: s rule: tokens.induct)
  case 1
  show ?case by simp
next
  case (2 c p)
  consider (star) "c = CHR ''*''" | (any) "c = CHR ''?''"
    | (cls) "c = CHR ''[''" "CHR '']'' \<in> set p" | (rest) "c = CHR ''[''" "CHR '']'' \<notin> set p"
    | (lit) "c \<noteq> CHR ''*''" "c \<noteq> CHR ''?''" "c \<noteq> CHR ''[''" by blast
  then show ?case
  proof cases
    case star
    with "2.IH"(1) show ?thesis
      by (simp add: globMatch_star tokens.simps(2) conc_UNIV_iff)
  next
    case any
    with "2.IH"(2) show ?thesis
      by (simp add: globMatch.simps(2) tokens.simps(2) conc_any_iff)
  next
    case cls
    with "2.IH"(3) [OF _ _ _ _ refl] show ?thesis
      by (simp add: globMatch.simps(2) tokens.simps(2) conc_byte_iff classMatch_iff Let_def)
  next
    case rest
    then show ?thesis by (auto simp: globMatch.simps(2) tokens.simps(2))
  next
    case lit
    with "2.IH"(4) show ?thesis
      by (auto simp: globMatch.simps(2) tokens.simps(2) conc_lit_iff)
  qed
qed

lemma matchPattern_language: "matchPattern p s \<longleftrightarrow> s \<in> glob_lang (tokens p)"
proof (cases "p = ''*''")
  case True
  then show ?thesis by (simp add: matchPattern_def tokens.simps(2))
next
  case False
  then show ?thesis by (simp add: matchPattern_def globMatch_language)
qed

text \<open>A pattern without metacharacters matches exactly itself.\<close>

lemma tokens_literal:
  "set p \<inter> {CHR ''*'', CHR ''?'', CHR ''[''} = {} \<Longrightarrow> tokens p = map LitByte p"
  by (induction p) (auto simp: tokens.simps(2))

lemma glob_lang_literal: "glob_lang (map LitByte p) = {p}"
  by (induction p) (auto simp: conc_def)

subsection \<open>Property\<close>

text \<open>C14: Equivalence with a reference definition. The backtracking matcher behind KEYS accepts a
  key exactly when the key is in the language of the pattern, the concatenation of the languages
  of its tokens.\<close>

theorem pattern_language: "matchPattern p s \<longleftrightarrow> s \<in> glob_lang (tokens p)"
  by (rule matchPattern_language)

end
