(* ===== verification/Go_Strings.thy ===== *)
theory Go_Strings
  imports Prelude
begin

section \<open>The parts of the Go standard library that work on strings\<close>

text \<open>
  Executable models of what the program uses of \<open>strconv\<close>, \<open>strings\<close> and \<open>fmt\<close>: decimal
  printing and parsing, case conversion, trimming, splitting and suffix removal. Go works
  on UTF-8 where it looks at letters and spaces; the models do the same where the program
  can see the difference, that is, for the non-ASCII encodings that map to ASCII letters
  and for the multi-byte white-space encodings.
\<close>

subsection \<open>Decimal numbers: \<open>strconv.Itoa\<close>, \<open>strconv.Atoi\<close>, \<open>%d\<close>\<close>

definition digit_char :: "nat \<Rightarrow> char" where
  "digit_char d = char_of (48 + d)"

definition is_digit :: "char \<Rightarrow> bool" where
  "is_digit c \<longleftrightarrow> 48 \<le> (of_char c :: nat) \<and> (of_char c :: nat) \<le> 57"

definition digit_val :: "char \<Rightarrow> nat" where
  "digit_val c = of_char c - 48"

fun nat_digits :: "nat \<Rightarrow> string" where
  "nat_digits n =
     (if n < 10 then [digit_char n] else nat_digits (n div 10) @ [digit_char (n mod 10)])"

declare nat_digits.simps [simp del]

definition digits_val :: "string \<Rightarrow> nat" where
  "digits_val s = foldl (\<lambda>a c. 10 * a + digit_val c) 0 s"

definition Itoa :: "int \<Rightarrow> string" where
  "Itoa i = (if i < 0 then ''-'' @ nat_digits (nat (- i)) else nat_digits (nat i))"

text \<open>The value of a signed decimal literal, when it is one and fits 64 bits.\<close>

definition signed_decimal :: "bool \<Rightarrow> string \<Rightarrow> int option" where
  "signed_decimal neg ds =
     (if ds = [] \<or> \<not> list_all is_digit ds then None
      else let v = (if neg then - int (digits_val ds) else int (digits_val ds))
           in if in_int64 v then Some v else None)"

fun Atoi :: "string \<Rightarrow> int option" where
  "Atoi [] = None"
| "Atoi (c # cs) =
     (if c = CHR ''-'' then signed_decimal True cs
      else if c = CHR ''+'' then signed_decimal False cs
      else signed_decimal False (c # cs))"

text \<open>\<open>fmt.Sprintf("%08d", n)\<close> for the non-negative segment numbers, zero padded to eight.\<close>

definition zero_pad8 :: "int \<Rightarrow> string" where
  "zero_pad8 n =
     (if n < 0
      then let ds = nat_digits (nat (- n)) in ''-'' @ replicate (7 - length ds) (CHR ''0'') @ ds
      else let ds = nat_digits (nat n) in replicate (8 - length ds) (CHR ''0'') @ ds)"

lemma of_char_digit_char: "d < 10 \<Longrightarrow> (of_char (digit_char d) :: nat) = 48 + d"
  by (simp add: digit_char_def)

lemma digit_val_digit_char [simp]: "d < 10 \<Longrightarrow> digit_val (digit_char d) = d"
  by (simp add: digit_val_def of_char_digit_char)

lemma is_digit_digit_char [simp]: "d < 10 \<Longrightarrow> is_digit (digit_char d)"
  by (simp add: is_digit_def of_char_digit_char)

lemma nat_digits_all_digits [simp]: "list_all is_digit (nat_digits n)"
proof (induction n rule: nat_digits.induct)
  case (1 n)
  then show ?case by (cases "n < 10") (simp_all add: nat_digits.simps [of n])
qed

lemma nat_digits_neq_Nil [simp]: "nat_digits n \<noteq> []"
  by (simp add: nat_digits.simps [of n])

lemma digits_val_append_one: "digits_val (s @ [c]) = 10 * digits_val s + digit_val c"
  by (simp add: digits_val_def)

lemma digits_val_nat_digits [simp]: "digits_val (nat_digits n) = n"
proof (induction n rule: nat_digits.induct)
  case (1 n)
  show ?case
  proof (cases "n < 10")
    case True
    then show ?thesis by (simp add: nat_digits.simps [of n] digits_val_def)
  next
    case False
    with "1.IH" show ?thesis
      by (simp add: nat_digits.simps [of n] digits_val_append_one)
  qed
qed

lemma digits_val_replicate_zero: "digits_val (replicate k (CHR ''0'') @ s) = digits_val s"
proof -
  have "foldl (\<lambda>a c. 10 * a + digit_val c) 0 (replicate k (CHR ''0'')) = 0"
    by (induction k) (simp_all add: digit_val_def)
  then show ?thesis by (simp add: digits_val_def)
qed

lemma digit_not_sign: "is_digit c \<Longrightarrow> c \<noteq> CHR ''-'' \<and> c \<noteq> CHR ''+''"
  by (auto simp: is_digit_def)

lemma Atoi_digits: "s \<noteq> [] \<Longrightarrow> list_all is_digit s \<Longrightarrow> Atoi s = signed_decimal False s"
  by (cases s) (auto dest: digit_not_sign)

lemma Atoi_in_int64: "Atoi s = Some v \<Longrightarrow> in_int64 v"
  by (cases s) (auto simp: signed_decimal_def Let_def split: if_splits)

theorem Atoi_Itoa: "in_int64 v \<Longrightarrow> Atoi (Itoa v) = Some v"
proof (cases "v < 0")
  case True
  assume "in_int64 v"
  with True show ?thesis by (simp add: Itoa_def signed_decimal_def)
next
  case False
  assume "in_int64 v"
  with False show ?thesis
    by (simp add: Itoa_def Atoi_digits signed_decimal_def)
qed

lemma list_all_is_digit_replicate [simp]: "list_all is_digit (replicate n (CHR ''0''))"
  by (simp add: list_all_iff is_digit_def)

lemma Atoi_zero_pad8:
  assumes "0 \<le> n" and "in_int64 n"
  shows "Atoi (zero_pad8 n) = Some n"
proof -
  let ?s = "zero_pad8 n"
  have s: "?s = replicate (8 - length (nat_digits (nat n))) (CHR ''0'') @ nat_digits (nat n)"
    using assms(1) by (simp add: zero_pad8_def Let_def)
  have "Atoi ?s = signed_decimal False ?s"
    by (rule Atoi_digits) (simp_all add: s)
  also have "\<dots> = Some n"
    using assms by (simp add: s signed_decimal_def digits_val_replicate_zero)
  finally show ?thesis .
qed

lemma zero_pad8_inject:
  assumes "0 \<le> m" "in_int64 m" "0 \<le> n" "in_int64 n" "zero_pad8 m = zero_pad8 n"
  shows "m = n"
  by (metis Atoi_zero_pad8 assms option.inject)

subsection \<open>White space: \<open>strings.TrimSpace\<close>, and the reader of \<open>fmt.Sscanf("%d")\<close>\<close>

text \<open>
  The encodings of Go's white-space code points: six ASCII bytes and the UTF-8 encodings of
  U+0085, U+00A0, U+1680, U+2000 to U+200A, U+2028, U+2029, U+202F, U+205F and U+3000.
\<close>

definition space_encodings :: "string list" where
  "space_encodings =
     [[CHR 0x09], [CHR 0x0A], [CHR 0x0B], [CHR 0x0C], [CHR 0x0D], [CHR 0x20],
      [CHR 0xC2, CHR 0x85], [CHR 0xC2, CHR 0xA0],
      [CHR 0xE1, CHR 0x9A, CHR 0x80],
      [CHR 0xE2, CHR 0x80, CHR 0x80], [CHR 0xE2, CHR 0x80, CHR 0x81],
      [CHR 0xE2, CHR 0x80, CHR 0x82], [CHR 0xE2, CHR 0x80, CHR 0x83],
      [CHR 0xE2, CHR 0x80, CHR 0x84], [CHR 0xE2, CHR 0x80, CHR 0x85],
      [CHR 0xE2, CHR 0x80, CHR 0x86], [CHR 0xE2, CHR 0x80, CHR 0x87],
      [CHR 0xE2, CHR 0x80, CHR 0x88], [CHR 0xE2, CHR 0x80, CHR 0x89],
      [CHR 0xE2, CHR 0x80, CHR 0x8A], [CHR 0xE2, CHR 0x80, CHR 0xA8],
      [CHR 0xE2, CHR 0x80, CHR 0xA9], [CHR 0xE2, CHR 0x80, CHR 0xAF],
      [CHR 0xE2, CHR 0x81, CHR 0x9F], [CHR 0xE3, CHR 0x80, CHR 0x80]]"

function trim_with :: "string list \<Rightarrow> string \<Rightarrow> string" where
  "trim_with encs s =
     (case find (\<lambda>e. e \<noteq> [] \<and> prefix e s) encs of
        None \<Rightarrow> s
      | Some e \<Rightarrow> trim_with encs (drop (length e) s))"
  by pat_completeness auto
termination
proof (relation "measure (length \<circ> snd)")
  fix encs :: "string list" and s e
  assume "find (\<lambda>e. e \<noteq> [] \<and> prefix e s) encs = Some e"
  then have "e \<noteq> []" and "prefix e s" by (auto simp: find_Some_iff)
  then show "((encs, drop (length e) s), encs, s) \<in> measure (length \<circ> snd)"
    by (auto simp: prefix_def)
qed simp

declare trim_with.simps [simp del]

definition TrimLeftSpace :: "string \<Rightarrow> string" where
  "TrimLeftSpace s = trim_with space_encodings s"

definition TrimSpace :: "string \<Rightarrow> string" where
  "TrimSpace s = rev (trim_with (map rev space_encodings) (rev (TrimLeftSpace s)))"

lemma trim_with_stop:
  "(\<And>e. e \<in> set encs \<Longrightarrow> e \<noteq> [] \<Longrightarrow> hd e \<noteq> c) \<Longrightarrow> trim_with encs (c # s) = c # s"
proof -
  assume a: "\<And>e. e \<in> set encs \<Longrightarrow> e \<noteq> [] \<Longrightarrow> hd e \<noteq> c"
  have "find (\<lambda>e. e \<noteq> [] \<and> prefix e (c # s)) encs = None"
    using a by (fastforce simp: find_None_iff prefix_Cons)
  then show ?thesis by (simp add: trim_with.simps)
qed

lemma space_encodings_heads:
  "e \<in> set space_encodings \<Longrightarrow> (of_char (hd e) :: nat) \<notin> {33..126}"
  by (auto simp: space_encodings_def)

lemma space_encodings_lasts:
  "e \<in> set (map rev space_encodings) \<Longrightarrow> (of_char (hd e) :: nat) \<notin> {33..126}"
  by (auto simp: space_encodings_def hd_rev)

text \<open>A text that starts and ends with a printable ASCII character is left alone, and a
  trailing carriage return and line feed are removed from it.\<close>

lemma TrimLeftSpace_printable:
  assumes "(of_char c :: nat) \<in> {33..126}"
  shows "TrimLeftSpace (c # s) = c # s"
  unfolding TrimLeftSpace_def
  by (rule trim_with_stop) (use assms space_encodings_heads in blast)

lemma trim_right_crlf:
  assumes "(of_char c :: nat) \<in> {33..126}"
  shows "trim_with (map rev space_encodings) (CHR 0x0A # CHR 0x0D # c # s) = c # s"
proof -
  have stop: "trim_with (map rev space_encodings) (c # s) = c # s"
    by (rule trim_with_stop) (use assms space_encodings_lasts in blast)
  have nl: "find (\<lambda>e. e \<noteq> [] \<and> prefix e (CHR 0x0A # t)) (map rev space_encodings)
      = Some [CHR 0x0A]" for t
    by (simp add: space_encodings_def)
  have cr: "find (\<lambda>e. e \<noteq> [] \<and> prefix e (CHR 0x0D # t)) (map rev space_encodings)
      = Some [CHR 0x0D]" for t
    by (simp add: space_encodings_def)
  have "trim_with (map rev space_encodings) (CHR 0x0A # CHR 0x0D # c # s)
      = trim_with (map rev space_encodings) (CHR 0x0D # c # s)"
    by (simp add: trim_with.simps [of _ "CHR 0x0A # _"] nl)
  also have "\<dots> = trim_with (map rev space_encodings) (c # s)"
    by (simp add: trim_with.simps [of _ "CHR 0x0D # _"] cr)
  finally show ?thesis by (simp add: stop)
qed

lemma TrimSpace_line:
  assumes "(of_char c :: nat) \<in> {33..126}" and "(of_char d :: nat) \<in> {33..126}"
  shows "TrimSpace (c # s @ [d, CHR 0x0D, CHR 0x0A]) = c # s @ [d]"
  using TrimLeftSpace_printable [OF assms(1)] trim_right_crlf [OF assms(2)]
  by (simp add: TrimSpace_def)

text \<open>Trimming cuts at the ends only, and takes at least the line end off a line.\<close>

lemma trim_with_suffix: "suffix (trim_with encs s) s"
proof (induction encs s rule: trim_with.induct)
  case (1 encs s)
  show ?case
  proof (cases "find (\<lambda>e. e \<noteq> [] \<and> prefix e s) encs")
    case None
    then show ?thesis by (simp add: trim_with.simps)
  next
    case (Some e)
    have "suffix (trim_with encs (drop (length e) s)) s"
      using "1.IH" [OF Some] suffix_drop suffix_order.trans by blast
    with Some show ?thesis by (simp add: trim_with.simps [of encs s])
  qed
qed

lemma TrimSpace_shortens_line: "length (TrimSpace (u @ [CHR 0x0A])) \<le> length u"
proof (cases "TrimLeftSpace (u @ [CHR 0x0A])" rule: rev_cases)
  case Nil
  have "trim_with encs [] = []" for encs using trim_with_suffix [of encs "[]"] by simp
  with Nil show ?thesis by (simp add: TrimSpace_def)
next
  case (snoc w c)
  have "suffix (w @ [c]) (u @ [CHR 0x0A])"
    using trim_with_suffix [of space_encodings "u @ [CHR 0x0A]"] snoc by (simp add: TrimLeftSpace_def)
  then have c: "c = CHR 0x0A" and w: "length w \<le> length u" by (auto simp: suffix_def)
  have "find (\<lambda>e. e \<noteq> [] \<and> prefix e (CHR 0x0A # rev w)) (map rev space_encodings) = Some [CHR 0x0A]"
    by (simp add: space_encodings_def)
  then have "trim_with (map rev space_encodings) (rev (w @ [c])) = trim_with (map rev space_encodings) (rev w)"
    by (simp add: c trim_with.simps [of _ "CHR 0x0A # _"])
  moreover have "length (trim_with (map rev space_encodings) (rev w)) \<le> length (rev w)"
    using trim_with_suffix suffix_length_le by blast
  ultimately show ?thesis using w by (simp add: TrimSpace_def snoc)
qed

fun scan_sign :: "string \<Rightarrow> bool \<times> string" where
  "scan_sign [] = (False, [])"
| "scan_sign (c # cs) =
     (if c = CHR ''-'' then (True, cs) else if c = CHR ''+'' then (False, cs)
      else (False, c # cs))"

definition Sscanf_d :: "string \<Rightarrow> int option" where
  "Sscanf_d s =
     (case scan_sign (TrimLeftSpace s) of
        (neg, r) \<Rightarrow> signed_decimal neg (takeWhile is_digit r))"

lemma digit_printable: "is_digit c \<Longrightarrow> (of_char c :: nat) \<in> {33..126}"
  by (simp add: is_digit_def)

lemma takeWhile_all: "list_all P s \<Longrightarrow> takeWhile P s = s"
  by (induction s) simp_all

lemma Sscanf_d_nat_digits:
  assumes "in_int64 (int n)"
  shows "Sscanf_d (nat_digits n) = Some (int n)"
proof -
  obtain c cs where c: "nat_digits n = c # cs" by (cases "nat_digits n") simp_all
  then have d: "is_digit c" using nat_digits_all_digits [of n] by simp
  have "TrimLeftSpace (nat_digits n) = nat_digits n"
    unfolding c by (rule TrimLeftSpace_printable) (rule digit_printable [OF d])
  moreover have "scan_sign (nat_digits n) = (False, nat_digits n)"
    using c digit_not_sign [OF d] by simp
  ultimately show ?thesis
    using assms by (simp add: Sscanf_d_def takeWhile_all signed_decimal_def)
qed

lemma Sscanf_d_nonempty: "Sscanf_d s = Some v \<Longrightarrow> s \<noteq> []"
proof
  assume "Sscanf_d s = Some v" "s = []"
  moreover have "TrimLeftSpace [] = []"
    using trim_with_suffix [of space_encodings "[]"] by (simp add: TrimLeftSpace_def)
  ultimately show False by (simp add: Sscanf_d_def signed_decimal_def)
qed

lemma Sscanf_d_in_int64: "Sscanf_d s = Some v \<Longrightarrow> in_int64 v"
  by (auto simp: Sscanf_d_def signed_decimal_def Let_def split: prod.splits if_splits)

subsection \<open>Letter case: \<open>strings.ToUpper\<close>, \<open>strings.ToLower\<close>, \<open>strings.EqualFold\<close>\<close>

text \<open>
  The program compares the results with ASCII literals only. Beside the ASCII letters,
  Unicode maps to ASCII upper case the letters U+0131 (dotless i) and U+017F (long s), to
  ASCII lower case U+0130 (dotted I) and U+212A (Kelvin sign), and folds U+017F with s and
  U+212A with k. Other bytes are kept: what Go makes of them is not ASCII either, so no
  comparison with an ASCII literal sees a difference.
\<close>

definition ascii_upper :: "char \<Rightarrow> char" where
  "ascii_upper c = (let n = (of_char c :: nat) in if 97 \<le> n \<and> n \<le> 122 then char_of (n - 32) else c)"

definition ascii_lower :: "char \<Rightarrow> char" where
  "ascii_lower c = (let n = (of_char c :: nat) in if 65 \<le> n \<and> n \<le> 90 then char_of (n + 32) else c)"

fun ToUpper :: "string \<Rightarrow> string" where
  "ToUpper [] = []"
| "ToUpper [c] = [ascii_upper c]"
| "ToUpper (c # d # s) =
     (if c = CHR 0xC4 \<and> d = CHR 0xB1 then CHR ''I'' # ToUpper s
      else if c = CHR 0xC5 \<and> d = CHR 0xBF then CHR ''S'' # ToUpper s
      else ascii_upper c # ToUpper (d # s))"

fun ToLower :: "string \<Rightarrow> string" where
  "ToLower [] = []"
| "ToLower [c] = [ascii_lower c]"
| "ToLower [c, d] =
     (if c = CHR 0xC4 \<and> d = CHR 0xB0 then ''i'' else ascii_lower c # ToLower [d])"
| "ToLower (c # d # e # s) =
     (if c = CHR 0xC4 \<and> d = CHR 0xB0 then CHR ''i'' # ToLower (e # s)
      else if c = CHR 0xE2 \<and> d = CHR 0x84 \<and> e = CHR 0xAA then CHR ''k'' # ToLower s
      else ascii_lower c # ToLower (d # e # s))"

fun fold_case :: "string \<Rightarrow> string" where
  "fold_case [] = []"
| "fold_case [c] = [ascii_lower c]"
| "fold_case [c, d] =
     (if c = CHR 0xC5 \<and> d = CHR 0xBF then ''s'' else ascii_lower c # fold_case [d])"
| "fold_case (c # d # e # s) =
     (if c = CHR 0xC5 \<and> d = CHR 0xBF then CHR ''s'' # fold_case (e # s)
      else if c = CHR 0xE2 \<and> d = CHR 0x84 \<and> e = CHR 0xAA then CHR ''k'' # fold_case s
      else ascii_lower c # fold_case (d # e # s))"

definition EqualFold :: "string \<Rightarrow> string \<Rightarrow> bool" where
  "EqualFold s t \<longleftrightarrow> fold_case s = fold_case t"

subsection \<open>\<open>strings.TrimSuffix\<close> and \<open>strings.SplitN\<close>\<close>

definition TrimSuffix :: "string \<Rightarrow> string \<Rightarrow> string" where
  "TrimSuffix s t = (if suffix t s then take (length s - length t) s else s)"

lemma TrimSuffix_append [simp]: "TrimSuffix (s @ t) t = s"
  by (simp add: TrimSuffix_def suffix_def)

text \<open>\<open>strings.SplitN(s, sep, n)\<close> for a one-byte separator and \<open>n > 0\<close>: at most \<open>n\<close> parts,
  the last of which is the unsplit rest.\<close>

fun SplitN :: "string \<Rightarrow> char \<Rightarrow> nat \<Rightarrow> string list" where
  "SplitN s c 0 = []"
| "SplitN s c (Suc 0) = [s]"
| "SplitN s c (Suc (Suc n)) =
     (if c \<in> set s
      then takeWhile (\<lambda>x. x \<noteq> c) s # SplitN (tl (dropWhile (\<lambda>x. x \<noteq> c) s)) c (Suc n)
      else [s])"

lemma takeWhile_neq_append: "c \<notin> set s \<Longrightarrow> takeWhile (\<lambda>x. x \<noteq> c) (s @ c # t) = s"
  by (induction s) auto

lemma dropWhile_neq_append: "c \<notin> set s \<Longrightarrow> dropWhile (\<lambda>x. x \<noteq> c) (s @ c # t) = c # t"
  by (induction s) auto

lemma SplitN_hit:
  "c \<notin> set s \<Longrightarrow> SplitN (s @ c # t) c (Suc (Suc n)) = s # SplitN t c (Suc n)"
  by (simp add: takeWhile_neq_append dropWhile_neq_append)

end
