(* ===== verification/Go_World.thy ===== *)
theory Go_World
  imports Prelude
begin

section \<open>The world a Go program runs in: clock and scheduler choices\<close>

text \<open>
  What \<open>time.Now\<close>, the \<open>range\<close> statement over a map and \<open>rand.Intn\<close> return is not
  determined by the program. The world record holds the source of these values: the current
  instant in nanoseconds, how far the clock moves after each reading, and the choices that
  fix iteration orders and random numbers. Every behaviour of the program is a run from
  some world; a finite list that runs out stands for a clock that stands still and for the
  first choice. The clock never runs backwards, as Go's monotonic reading guarantees.
\<close>

record world =
  clock :: int
  ticks :: "nat list"
  picks :: "nat list list"

definition time_Now :: "('a world_scheme, int) state" where
  "time_Now = State (\<lambda>w.
     (clock w,
      w\<lparr>clock := clock w + (case ticks w of [] \<Rightarrow> 0 | t # _ \<Rightarrow> int t), ticks := tl (ticks w)\<rparr>))"

text \<open>The order in which the next \<open>range\<close> statement visits a map.\<close>

definition range_order :: "('a world_scheme, nat list) state" where
  "range_order = State (\<lambda>w.
     (case picks w of [] \<Rightarrow> [] | p # _ \<Rightarrow> p, w\<lparr>picks := tl (picks w)\<rparr>))"

text \<open>The orders of the \<open>n\<close> \<open>range\<close> statements a call executes one after the other.\<close>

definition range_orders :: "nat \<Rightarrow> ('a world_scheme, nat \<Rightarrow> nat list) state" where
  "range_orders n = State (\<lambda>w.
     ((\<lambda>i. if i < length (picks w) then picks w ! i else []), w\<lparr>picks := drop n (picks w)\<rparr>))"

text \<open>The random source: \<open>rand.Intn(n)\<close> is the raw number drawn, modulo \<open>n\<close>.\<close>

definition rand_draw :: "('a world_scheme, nat) state" where
  "rand_draw = State (\<lambda>w.
     ((case picks w of [] \<Rightarrow> 0 | p # _ \<Rightarrow> (case p of [] \<Rightarrow> 0 | i # _ \<Rightarrow> i)),
      w\<lparr>picks := tl (picks w)\<rparr>))"

definition rand_Intn :: "nat \<Rightarrow> nat \<Rightarrow> nat" where
  "rand_Intn r n = r mod n"

lemma rand_Intn_less: "0 < n \<Longrightarrow> rand_Intn r n < n"
  by (simp add: rand_Intn_def)

lemma runs_time_Now [simp]: "runs time_Now w = clock w"
  by (simp add: time_Now_def)

lemma time_Now_mono: "clock w \<le> clock (after time_Now w)"
  by (simp add: time_Now_def split: list.split)

lemma now_after_range_order [simp]: "clock (after range_order w) = clock w"
  by (simp add: range_order_def)

lemma now_after_range_orders [simp]: "clock (after (range_orders n) w) = clock w"
  by (simp add: range_orders_def)

lemma now_after_rand_draw [simp]: "clock (after rand_draw w) = clock w"
  by (simp add: rand_draw_def)

end
