(* ===== verification/Store.thy ===== *)
theory Store
  imports Glob Go_Strings Go_World
begin

section \<open>The sharded store (core/store/store.go)\<close>

text \<open>
  The state: 256 shards, each with five maps (strings, expiry instants, lists, sets and
  hashes). A key lives in the shard its FNV-1a hash selects. Every method of the source is
  a function here, in the order and with the guards of the source. A method that holds the
  shard lock for its whole body is one atomic function; \<open>Get\<close> and \<open>Exists\<close> release the
  lock between reading and evicting, so their two critical sections are separate functions,
  which the method composes. Clock readings (\<open>time.Now\<close>), iteration orders (\<open>range\<close>) and
  random numbers are arguments; the engine draws them from the world.
\<close>

subsection \<open>Shards\<close>

definition numShards :: nat where
  "numShards = 256"

record shard =
  data :: "(string, string) fmap"
  expires :: "(string, int) fmap"
  lists :: "(string, string list) fmap"
  sets :: "(string, string fset) fmap"
  hashes :: "(string, (string, string) fmap) fmap"

record Store =
  shards :: "shard list"

definition empty_shard :: shard where
  "empty_shard =
     \<lparr>data = fmempty, expires = fmempty, lists = fmempty, sets = fmempty, hashes = fmempty\<rparr>"

definition NewStore :: Store where
  "NewStore = \<lparr>shards = replicate numShards empty_shard\<rparr>"

text \<open>\<open>hash/fnv\<close>: the 32-bit FNV-1a hash.\<close>

definition fnv32a :: "string \<Rightarrow> 32 word" where
  "fnv32a key = foldl (\<lambda>h c. (h XOR of_char c) * 16777619) 2166136261 key"

definition shard_index :: "string \<Rightarrow> nat" where
  "shard_index key = unat (fnv32a key AND of_nat (numShards - 1))"

definition getShard :: "Store \<Rightarrow> string \<Rightarrow> shard" where
  "getShard s key = shards s ! shard_index key"

text \<open>The effect of a critical section on the shard of a key.\<close>

definition with_shard :: "string \<Rightarrow> (shard \<Rightarrow> shard) \<Rightarrow> Store \<Rightarrow> Store" where
  "with_shard key f s =
     s\<lparr>shards := (shards s)[shard_index key := f (shards s ! shard_index key)]\<rparr>"

text \<open>Four lookups decide whether a key is present; five deletions remove it.\<close>

definition hasKey :: "shard \<Rightarrow> string \<Rightarrow> bool" where
  "hasKey sh key \<longleftrightarrow>
     fmlookup (data sh) key \<noteq> None \<or> fmlookup (lists sh) key \<noteq> None \<or>
     fmlookup (sets sh) key \<noteq> None \<or> fmlookup (hashes sh) key \<noteq> None"

definition drop_key :: "string \<Rightarrow> shard \<Rightarrow> shard" where
  "drop_key key sh =
     sh\<lparr>data := fmdrop key (data sh), expires := fmdrop key (expires sh),
        lists := fmdrop key (lists sh), sets := fmdrop key (sets sh),
        hashes := fmdrop key (hashes sh)\<rparr>"

subsection \<open>Strings and expiry\<close>

definition Store_Set :: "string \<Rightarrow> string \<Rightarrow> Store \<Rightarrow> Store" where
  "Store_Set key value s =
     with_shard key
       (\<lambda>sh. sh\<lparr>data := fmupd key value (data sh), expires := fmdrop key (expires sh)\<rparr>) s"

definition isExpired :: "int \<Rightarrow> shard \<Rightarrow> string \<Rightarrow> bool" where
  "isExpired now sh key =
     (case fmlookup (expires sh) key of None \<Rightarrow> False | Some exp \<Rightarrow> exp < now)"

definition expireDataIfNeeded :: "int \<Rightarrow> string \<Rightarrow> shard \<Rightarrow> shard" where
  "expireDataIfNeeded now key sh = (if isExpired now sh key then drop_key key sh else sh)"

definition Store_Expire :: "int \<Rightarrow> string \<Rightarrow> int \<Rightarrow> Store \<Rightarrow> go_error option \<times> Store" where
  "Store_Expire now key ttl s =
     (if \<not> hasKey (getShard s key) key then (Some (ErrMsg ''Key not found''), s)
      else (None, with_shard key (\<lambda>sh. sh\<lparr>expires := fmupd key (now + ttl) (expires sh)\<rparr>) s))"

text \<open>\<open>Exists\<close>: the answer is fixed in the first critical section; the second one evicts
  after checking the expiry again.\<close>

definition Store_Exists_evict :: "int \<Rightarrow> string \<Rightarrow> Store \<Rightarrow> Store" where
  "Store_Exists_evict now2 key s =
     with_shard key (\<lambda>sh. if isExpired now2 sh key then drop_key key sh else sh) s"

definition Store_Exists_read :: "int \<Rightarrow> string \<Rightarrow> Store \<Rightarrow> bool \<times> bool" where
  \<comment> \<open>(the answer, whether the second critical section runs)\<close>
  "Store_Exists_read now key s =
     (let sh = getShard s key
      in if \<not> hasKey sh key then (False, False)
         else if isExpired now sh key then (False, True)
         else (True, False))"

definition Store_Exists :: "int \<Rightarrow> int \<Rightarrow> string \<Rightarrow> Store \<Rightarrow> bool \<times> Store" where
  "Store_Exists now now2 key s =
     (case Store_Exists_read now key s of
        (ans, evict) \<Rightarrow> (ans, if evict then Store_Exists_evict now2 key s else s))"

text \<open>\<open>time.Until\<close>: a saturating difference of instants.\<close>

definition time_Until :: "int \<Rightarrow> int \<Rightarrow> int" where
  "time_Until exp now = max min_int64 (min max_int64 (exp - now))"

definition Store_TTL :: "int \<Rightarrow> string \<Rightarrow> Store \<Rightarrow> int" where
  "Store_TTL now key s =
     (let sh = getShard s key
      in if \<not> hasKey sh key then -2
         else case fmlookup (expires sh) key of
                None \<Rightarrow> -1
              | Some exp \<Rightarrow>
                  let remaining = time_Until exp now
                  in if remaining \<le> 0 then -2 else remaining)"

definition Store_Persist :: "string \<Rightarrow> Store \<Rightarrow> go_error option \<times> Store" where
  "Store_Persist key s =
     (if \<not> hasKey (getShard s key) key then (Some (ErrMsg ''Key not found''), s)
      else (None, with_shard key (\<lambda>sh. sh\<lparr>expires := fmdrop key (expires sh)\<rparr>) s))"

text \<open>\<open>Get\<close>: the second critical section deletes without looking again.\<close>

definition Store_Get_evict :: "string \<Rightarrow> Store \<Rightarrow> Store" where
  "Store_Get_evict key s =
     with_shard key
       (\<lambda>sh. sh\<lparr>data := fmdrop key (data sh), expires := fmdrop key (expires sh)\<rparr>) s"

definition Store_Get_read :: "int \<Rightarrow> string \<Rightarrow> Store \<Rightarrow> (go_error + string) \<times> bool" where
  \<comment> \<open>(the result, whether the second critical section runs)\<close>
  "Store_Get_read now key s =
     (let sh = getShard s key
      in case fmlookup (data sh) key of
           None \<Rightarrow> (Inl (ErrMsg ''key not found''), False)
         | Some value \<Rightarrow>
             if isExpired now sh key then (Inl (ErrMsg ''key not found''), True)
             else (Inr value, False))"

definition Store_Get :: "int \<Rightarrow> string \<Rightarrow> Store \<Rightarrow> (go_error + string) \<times> Store" where
  "Store_Get now key s =
     (case Store_Get_read now key s of
        (r, evict) \<Rightarrow> (r, if evict then Store_Get_evict key s else s))"

definition Store_Del :: "string \<Rightarrow> Store \<Rightarrow> go_error option \<times> Store" where
  "Store_Del key s =
     (if \<not> hasKey (getShard s key) key then (Some (ErrMsg ''key not found''), s)
      else (None, with_shard key (drop_key key) s))"

definition Store_Incr :: "string \<Rightarrow> Store \<Rightarrow> (go_error + int) \<times> Store" where
  "Store_Incr key s =
     (let value = (case fmlookup (data (getShard s key)) key of None \<Rightarrow> ''0'' | Some v \<Rightarrow> v)
      in case Atoi value of
           None \<Rightarrow> (Inl (ErrMsg ''value is not an integer''), s)
         | Some num \<Rightarrow>
             let num' = wrap64 (num + 1)
             in (Inr num', with_shard key (\<lambda>sh. sh\<lparr>data := fmupd key (Itoa num') (data sh)\<rparr>) s))"

definition Store_Decr :: "string \<Rightarrow> Store \<Rightarrow> (go_error + int) \<times> Store" where
  "Store_Decr key s =
     (let value = (case fmlookup (data (getShard s key)) key of None \<Rightarrow> ''0'' | Some v \<Rightarrow> v)
      in case Atoi value of
           None \<Rightarrow> (Inl (ErrMsg ''value is not an integer''), s)
         | Some num \<Rightarrow>
             let num' = wrap64 (num - 1)
             in (Inr num', with_shard key (\<lambda>sh. sh\<lparr>data := fmupd key (Itoa num') (data sh)\<rparr>) s))"

text \<open>One tick of the background sweep: every shard, every key with an expiry instant, each
  compared with its own clock reading.\<close>

definition sweep_key :: "int \<Rightarrow> string \<Rightarrow> shard \<Rightarrow> shard" where
  "sweep_key now key sh =
     (case fmlookup (expires sh) key of
        None \<Rightarrow> sh
      | Some exp \<Rightarrow> if exp < now then drop_key key sh else sh)"

definition sweep_shard :: "nat list \<Rightarrow> (string \<Rightarrow> int) \<Rightarrow> shard \<Rightarrow> shard" where
  "sweep_shard ord clk sh =
     fold (\<lambda>key. sweep_key (clk key) key) (go_order ord (map_keys (expires sh))) sh"

definition activeExpiry_tick :: "(nat \<Rightarrow> nat list) \<Rightarrow> (string \<Rightarrow> int) \<Rightarrow> Store \<Rightarrow> Store" where
  "activeExpiry_tick ord clk s =
     s\<lparr>shards := map (\<lambda>i. sweep_shard (ord i) clk (shards s ! i)) [0..<numShards]\<rparr>"

text \<open>\<open>Keys\<close>: four \<open>range\<close> loops per shard; the last three skip keys that hold a string.\<close>

definition range_live ::
    "nat list \<Rightarrow> int \<Rightarrow> string \<Rightarrow> shard \<Rightarrow> bool \<Rightarrow> string list \<Rightarrow> string list" where
  "range_live ord now pattern sh skip_strings keys =
     filter (\<lambda>key. \<not> (skip_strings \<and> fmlookup (data sh) key \<noteq> None) \<and>
                   \<not> isExpired now sh key \<and> matchPattern pattern key)
       (go_order ord keys)"

definition shard_Keys :: "(nat \<Rightarrow> nat list) \<Rightarrow> int \<Rightarrow> string \<Rightarrow> shard \<Rightarrow> string list" where
  "shard_Keys ord now pattern sh =
     range_live (ord 0) now pattern sh False (map_keys (data sh)) @
     range_live (ord 1) now pattern sh True (map_keys (lists sh)) @
     range_live (ord 2) now pattern sh True (map_keys (sets sh)) @
     range_live (ord 3) now pattern sh True (map_keys (hashes sh))"

definition Store_Keys :: "(nat \<Rightarrow> nat list) \<Rightarrow> int \<Rightarrow> string \<Rightarrow> Store \<Rightarrow> string list" where
  "Store_Keys ord now pattern s =
     concat (map (\<lambda>i. shard_Keys (\<lambda>j. ord (4 * i + j)) now pattern (shards s ! i)) [0..<numShards])"

subsection \<open>Lists\<close>

text \<open>Reading a Go map of slices or maps at an absent key gives the nil value.\<close>

definition list_at :: "shard \<Rightarrow> string \<Rightarrow> string list" where
  "list_at sh key = (case fmlookup (lists sh) key of None \<Rightarrow> [] | Some l \<Rightarrow> l)"

definition set_at :: "shard \<Rightarrow> string \<Rightarrow> string fset" where
  "set_at sh key = (case fmlookup (sets sh) key of None \<Rightarrow> {||} | Some m \<Rightarrow> m)"

definition hash_at :: "shard \<Rightarrow> string \<Rightarrow> (string, string) fmap" where
  "hash_at sh key = (case fmlookup (hashes sh) key of None \<Rightarrow> fmempty | Some h \<Rightarrow> h)"

definition put_list :: "string \<Rightarrow> string list \<Rightarrow> Store \<Rightarrow> Store" where
  "put_list key l s = with_shard key (\<lambda>sh. sh\<lparr>lists := fmupd key l (lists sh)\<rparr>) s"

definition Store_LPush :: "string \<Rightarrow> string list \<Rightarrow> Store \<Rightarrow> nat \<times> Store" where
  "Store_LPush key values s =
     (let n = values @ list_at (getShard s key) key in (length n, put_list key n s))"

definition Store_RPush :: "string \<Rightarrow> string list \<Rightarrow> Store \<Rightarrow> nat \<times> Store" where
  "Store_RPush key values s =
     (let n = list_at (getShard s key) key @ values in (length n, put_list key n s))"

definition pop_list :: "string \<Rightarrow> string list \<Rightarrow> Store \<Rightarrow> Store" where
  \<comment> \<open>store the shortened list, and delete the key when nothing is left\<close>
  "pop_list key l s =
     with_shard key
       (\<lambda>sh. let ls = fmupd key l (lists sh)
             in sh\<lparr>lists := if l = [] then fmdrop key ls else ls\<rparr>) s"

definition Store_LPop :: "string \<Rightarrow> Store \<Rightarrow> (go_error + string) \<times> Store" where
  "Store_LPop key s =
     (case fmlookup (lists (getShard s key)) key of
        None \<Rightarrow> (Inl (ErrMsg ''empty list''), s)
      | Some l \<Rightarrow>
          if l = [] then (Inl (ErrMsg ''empty list''), s)
          else (Inr (hd l), pop_list key (tl l) s))"

definition Store_RPop :: "string \<Rightarrow> Store \<Rightarrow> (go_error + string) \<times> Store" where
  "Store_RPop key s =
     (case fmlookup (lists (getShard s key)) key of
        None \<Rightarrow> (Inl (ErrMsg ''empty list''), s)
      | Some l \<Rightarrow>
          if l = [] then (Inl (ErrMsg ''empty list''), s)
          else (Inr (last l), pop_list key (butlast l) s))"

definition Store_LLen :: "string \<Rightarrow> Store \<Rightarrow> nat" where
  "Store_LLen key s = length (list_at (getShard s key) key)"

text \<open>The bounds \<open>LRange\<close> computes before it slices: \<open>None\<close> where it returns the empty
  slice early.\<close>

definition lrange_bounds :: "int \<Rightarrow> int \<Rightarrow> int \<Rightarrow> (int \<times> int) option" where
  "lrange_bounds llen start stop =
     (let start1 = (if start < 0 then wrap64 (llen + start) else start);
          stop1 = (if stop < 0 then wrap64 (llen + stop) else stop);
          start2 = (if start1 < 0 then 0 else start1);
          stop2 = (if stop1 \<ge> llen then llen - 1 else stop1)
      in if start2 > stop2 then None else Some (start2, stop2))"

definition Store_LRange :: "string \<Rightarrow> int \<Rightarrow> int \<Rightarrow> Store \<Rightarrow> string list" where
  "Store_LRange key start stop s =
     (let l = list_at (getShard s key) key
      in if l = [] then []
         else case lrange_bounds (int (length l)) start stop of
                None \<Rightarrow> []
              | Some (a, b) \<Rightarrow> take (nat (b - a + 1)) (drop (nat a) l))"

definition Store_LIndex :: "string \<Rightarrow> int \<Rightarrow> Store \<Rightarrow> go_error + string" where
  "Store_LIndex key index s =
     (let l = list_at (getShard s key) key
      in if l = [] then Inl (ErrMsg ''empty list'')
         else let i = (if index < 0 then wrap64 (int (length l) + index) else index)
              in if i < 0 \<or> i \<ge> int (length l) then Inl (ErrMsg ''index out of range'')
                 else Inr (l ! nat i))"

subsection \<open>Sets\<close>

fun sadd_loop :: "string list \<Rightarrow> string fset \<Rightarrow> nat \<Rightarrow> string fset \<times> nat" where
  "sadd_loop [] st added = (st, added)"
| "sadd_loop (m # members) st added =
     (if m |\<in>| st then sadd_loop members st added
      else sadd_loop members (finsert m st) (added + 1))"

definition put_set :: "string \<Rightarrow> string fset \<Rightarrow> Store \<Rightarrow> Store" where
  "put_set key m s = with_shard key (\<lambda>sh. sh\<lparr>sets := fmupd key m (sets sh)\<rparr>) s"

definition shrink_set :: "string \<Rightarrow> string fset \<Rightarrow> Store \<Rightarrow> Store" where
  \<comment> \<open>the map shared with the shard shrinks in place; an empty one is deleted\<close>
  "shrink_set key m s =
     with_shard key
       (\<lambda>sh. let ss = fmupd key m (sets sh)
             in sh\<lparr>sets := if m = {||} then fmdrop key ss else ss\<rparr>) s"

definition Store_SAdd :: "string \<Rightarrow> string list \<Rightarrow> Store \<Rightarrow> nat \<times> Store" where
  "Store_SAdd key members s =
     (case sadd_loop members (set_at (getShard s key) key) 0 of
        (st, added) \<Rightarrow> (added, put_set key st s))"

fun srem_loop :: "string list \<Rightarrow> string fset \<Rightarrow> nat \<Rightarrow> string fset \<times> nat" where
  "srem_loop [] st removed = (st, removed)"
| "srem_loop (m # members) st removed =
     (if m |\<in>| st then srem_loop members (st |-| {|m|}) (removed + 1)
      else srem_loop members st removed)"

definition Store_SRem :: "string \<Rightarrow> string list \<Rightarrow> Store \<Rightarrow> nat \<times> Store" where
  "Store_SRem key members s =
     (case fmlookup (sets (getShard s key)) key of
        None \<Rightarrow> (0, s)
      | Some st \<Rightarrow>
          (case srem_loop members st 0 of
             (st', removed) \<Rightarrow> (removed, shrink_set key st' s)))"

definition Store_SMembers :: "nat list \<Rightarrow> string \<Rightarrow> Store \<Rightarrow> string list" where
  "Store_SMembers ord key s = go_order ord (sorted_list_of_fset (set_at (getShard s key) key))"

definition Store_SIsMember :: "string \<Rightarrow> string \<Rightarrow> Store \<Rightarrow> bool" where
  "Store_SIsMember key member s \<longleftrightarrow> member |\<in>| set_at (getShard s key) key"

definition Store_SCard :: "string \<Rightarrow> Store \<Rightarrow> nat" where
  "Store_SCard key s = fcard (set_at (getShard s key) key)"

definition Store_SPop :: "nat list \<Rightarrow> string \<Rightarrow> Store \<Rightarrow> (go_error + string) \<times> Store" where
  "Store_SPop ord key s =
     (let st = set_at (getShard s key) key
      in case go_order ord (sorted_list_of_fset st) of
           [] \<Rightarrow> (Inl (ErrMsg ''empty set''), s)
         | m # _ \<Rightarrow> (Inr m, shrink_set key (st |-| {|m|}) s))"

definition Store_SRandMember :: "nat \<Rightarrow> nat list \<Rightarrow> string \<Rightarrow> Store \<Rightarrow> go_error + string" where
  "Store_SRandMember r ord key s =
     (let st = set_at (getShard s key) key
      in if fcard st = 0 then Inl (ErrMsg ''empty set'')
         else let n = rand_Intn r (fcard st);
                  ms = go_order ord (sorted_list_of_fset st)
              in if n < length ms then Inr (ms ! n) else Inl (ErrMsg ''empty set''))"

subsection \<open>Hashes\<close>

definition put_hash :: "string \<Rightarrow> (string, string) fmap \<Rightarrow> Store \<Rightarrow> Store" where
  "put_hash key h s = with_shard key (\<lambda>sh. sh\<lparr>hashes := fmupd key h (hashes sh)\<rparr>) s"

definition shrink_hash :: "string \<Rightarrow> (string, string) fmap \<Rightarrow> Store \<Rightarrow> Store" where
  "shrink_hash key h s =
     with_shard key
       (\<lambda>sh. let hs = fmupd key h (hashes sh)
             in sh\<lparr>hashes := if h = fmempty then fmdrop key hs else hs\<rparr>) s"

definition Store_HSet :: "string \<Rightarrow> string \<Rightarrow> string \<Rightarrow> Store \<Rightarrow> nat \<times> Store" where
  "Store_HSet key field value s =
     (let h = hash_at (getShard s key) key
      in (if fmlookup h field = None then 1 else 0, put_hash key (fmupd field value h) s))"

definition Store_HGet :: "string \<Rightarrow> string \<Rightarrow> Store \<Rightarrow> go_error + string" where
  "Store_HGet key field s =
     (case fmlookup (hashes (getShard s key)) key of
        None \<Rightarrow> Inl (ErrMsg ''field not found'')
      | Some h \<Rightarrow> (case fmlookup h field of
                     None \<Rightarrow> Inl (ErrMsg ''field not found'')
                   | Some val \<Rightarrow> Inr val))"

fun hdel_loop :: "string list \<Rightarrow> (string, string) fmap \<Rightarrow> nat \<Rightarrow> (string, string) fmap \<times> nat" where
  "hdel_loop [] h removed = (h, removed)"
| "hdel_loop (f # fs) h removed =
     (if fmlookup h f \<noteq> None then hdel_loop fs (fmdrop f h) (removed + 1)
      else hdel_loop fs h removed)"

definition Store_HDel :: "string \<Rightarrow> string list \<Rightarrow> Store \<Rightarrow> nat \<times> Store" where
  "Store_HDel key fs s =
     (case fmlookup (hashes (getShard s key)) key of
        None \<Rightarrow> (0, s)
      | Some h \<Rightarrow>
          (case hdel_loop fs h 0 of
             (h', removed) \<Rightarrow> (removed, shrink_hash key h' s)))"

definition Store_HGetAll :: "nat list \<Rightarrow> string \<Rightarrow> Store \<Rightarrow> string list" where
  "Store_HGetAll ord key s =
     (let h = hash_at (getShard s key) key
      in concat (map (\<lambda>k. [k, the (fmlookup h k)]) (go_order ord (map_keys h))))"

definition Store_HKeys :: "nat list \<Rightarrow> string \<Rightarrow> Store \<Rightarrow> string list" where
  "Store_HKeys ord key s = go_order ord (map_keys (hash_at (getShard s key) key))"

definition Store_HVals :: "nat list \<Rightarrow> string \<Rightarrow> Store \<Rightarrow> string list" where
  "Store_HVals ord key s =
     (let h = hash_at (getShard s key) key
      in map (\<lambda>k. the (fmlookup h k)) (go_order ord (map_keys h)))"

definition Store_HExists :: "string \<Rightarrow> string \<Rightarrow> Store \<Rightarrow> bool" where
  "Store_HExists key field s =
     (case fmlookup (hashes (getShard s key)) key of
        None \<Rightarrow> False
      | Some h \<Rightarrow> fmlookup h field \<noteq> None)"

definition Store_HLen :: "string \<Rightarrow> Store \<Rightarrow> nat" where
  "Store_HLen key s = map_len (hash_at (getShard s key) key)"

definition Store_HMSet :: "nat list \<Rightarrow> string \<Rightarrow> (string, string) fmap \<Rightarrow> Store \<Rightarrow> Store" where
  "Store_HMSet ord key fs s =
     (let h = hash_at (getShard s key) key
      in put_hash key
           (fold (\<lambda>k h. fmupd k (the (fmlookup fs k)) h) (go_order ord (map_keys fs)) h) s)"

definition Store_HMGet :: "string \<Rightarrow> string list \<Rightarrow> Store \<Rightarrow> string list" where
  "Store_HMGet key fs s =
     (let h = hash_at (getShard s key) key
      in map (\<lambda>f. case fmlookup h f of None \<Rightarrow> '''' | Some v \<Rightarrow> v) fs)"

subsection \<open>Whole-store operations\<close>

definition Store_FlushAll :: "Store \<Rightarrow> Store" where
  "Store_FlushAll s = s\<lparr>shards := map (\<lambda>_. empty_shard) [0..<numShards]\<rparr>"

definition Store_Size :: "Store \<Rightarrow> nat" where
  "Store_Size s =
     foldl (\<lambda>total i. let sh = shards s ! i
                       in total + map_len (data sh) + map_len (lists sh) + map_len (sets sh)
                          + map_len (hashes sh))
       0 [0..<numShards]"

end
