(* ===== verification/Store_Spec.thy ===== *)
theory Store_Spec
  imports Store
begin

section \<open>What the store promises: a database of entries, one per key\<close>

text \<open>
  The abstract database is a function from keys to entries; an entry holds what the five
  maps say about one key. \<open>view\<close> maps a sharded store to its database, and every method is
  shown to act on the database as a function of the entry of its key, whatever the shard
  layout. \<open>wf_store\<close> is the representation invariant: 256 shards, each with keys of its own
  hash class only. Two well-formed stores with the same view are equal, so a statement
  about views is a statement about stores.
\<close>

subsection \<open>Entries and views\<close>

record entry =
  str :: "string option"
  expiry :: "int option"
  lst :: "string list option"
  mems :: "string fset option"
  flds :: "(string, string) fmap option"

definition no_entry :: entry where
  "no_entry = \<lparr>str = None, expiry = None, lst = None, mems = None, flds = None\<rparr>"

definition shard_view :: "shard \<Rightarrow> string \<Rightarrow> entry" where
  "shard_view sh k =
     \<lparr>str = fmlookup (data sh) k, expiry = fmlookup (expires sh) k, lst = fmlookup (lists sh) k,
      mems = fmlookup (sets sh) k, flds = fmlookup (hashes sh) k\<rparr>"

definition view :: "Store \<Rightarrow> string \<Rightarrow> entry" where
  "view s k = shard_view (getShard s k) k"

definition wf_store :: "Store \<Rightarrow> bool" where
  "wf_store s \<longleftrightarrow>
     length (shards s) = numShards \<and>
     (\<forall>i < numShards. \<forall>k. shard_view (shards s ! i) k \<noteq> no_entry \<longrightarrow> shard_index k = i)"

text \<open>An update of a shard that concerns one key only.\<close>

definition local_to :: "string \<Rightarrow> (shard \<Rightarrow> shard) \<Rightarrow> bool" where
  "local_to key f \<longleftrightarrow> (\<forall>sh k. k \<noteq> key \<longrightarrow> shard_view (f sh) k = shard_view sh k)"

definition present :: "entry \<Rightarrow> bool" where
  "present e \<longleftrightarrow> str e \<noteq> None \<or> lst e \<noteq> None \<or> mems e \<noteq> None \<or> flds e \<noteq> None"

definition expired :: "int \<Rightarrow> entry \<Rightarrow> bool" where
  "expired t e = (case expiry e of None \<Rightarrow> False | Some x \<Rightarrow> x < t)"

definition live :: "int \<Rightarrow> entry \<Rightarrow> bool" where
  "live t e \<longleftrightarrow> present e \<and> \<not> expired t e"

definition the_list :: "entry \<Rightarrow> string list" where
  "the_list e = (case lst e of None \<Rightarrow> [] | Some l \<Rightarrow> l)"

definition the_mems :: "entry \<Rightarrow> string fset" where
  "the_mems e = (case mems e of None \<Rightarrow> {||} | Some m \<Rightarrow> m)"

definition the_flds :: "entry \<Rightarrow> (string, string) fmap" where
  "the_flds e = (case flds e of None \<Rightarrow> fmempty | Some h \<Rightarrow> h)"

definition some_list :: "string list \<Rightarrow> string list option" where
  "some_list l = (if l = [] then None else Some l)"

definition some_mems :: "string fset \<Rightarrow> string fset option" where
  "some_mems m = (if m = {||} then None else Some m)"

definition some_flds :: "(string, string) fmap \<Rightarrow> (string, string) fmap option" where
  "some_flds h = (if h = fmempty then None else Some h)"

lemma shard_index_less [simp]: "shard_index k < numShards"
proof -
  have "fnv32a k AND 255 \<le> 255" by (rule word_and_le1)
  then have "unat (fnv32a k AND 255) \<le> unat (255 :: 32 word)" by (simp add: word_le_nat_alt)
  then show ?thesis by (simp add: shard_index_def numShards_def)
qed

lemma wf_length: "wf_store s \<Longrightarrow> length (shards s) = numShards"
  by (simp add: wf_store_def)

subsection \<open>Lookups read the view\<close>

lemma lookup_view [simp]:
  "fmlookup (data (getShard s k)) k = str (view s k)"
  "fmlookup (expires (getShard s k)) k = expiry (view s k)"
  "fmlookup (lists (getShard s k)) k = lst (view s k)"
  "fmlookup (sets (getShard s k)) k = mems (view s k)"
  "fmlookup (hashes (getShard s k)) k = flds (view s k)"
  by (simp_all add: view_def shard_view_def)

lemma hasKey_view [simp]: "hasKey (getShard s k) k \<longleftrightarrow> present (view s k)"
  by (simp add: hasKey_def present_def)

lemma isExpired_view [simp]: "isExpired t (getShard s k) k \<longleftrightarrow> expired t (view s k)"
  by (simp add: isExpired_def expired_def)

lemma list_at_view [simp]: "list_at (getShard s k) k = the_list (view s k)"
  by (simp add: list_at_def the_list_def)

lemma set_at_view [simp]: "set_at (getShard s k) k = the_mems (view s k)"
  by (simp add: set_at_def the_mems_def)

lemma hash_at_view [simp]: "hash_at (getShard s k) k = the_flds (view s k)"
  by (simp add: hash_at_def the_flds_def)

subsection \<open>Updates of one shard\<close>

lemma getShard_with_shard:
  assumes "wf_store s"
  shows "getShard (with_shard key f s) k =
    (if shard_index k = shard_index key then f (getShard s key) else getShard s k)"
  using assms by (simp add: getShard_def with_shard_def wf_length nth_list_update)

lemma view_with_shard:
  assumes "wf_store s" and "local_to key f"
  shows "view (with_shard key f s) = (view s)(key := shard_view (f (getShard s key)) key)"
proof
  fix k
  show "view (with_shard key f s) k
      = ((view s)(key := shard_view (f (getShard s key)) key)) k"
  proof (cases "shard_index k = shard_index key")
    case True
    then have "getShard s k = getShard s key" by (simp add: getShard_def)
    with True assms show ?thesis
      by (simp add: view_def getShard_with_shard local_to_def)
  next
    case False
    then have "k \<noteq> key" by auto
    with False assms(1) show ?thesis by (simp add: view_def getShard_with_shard)
  qed
qed

lemma wf_with_shard [wf_intros]:
  assumes "wf_store s" and "local_to key f"
  shows "wf_store (with_shard key f s)"
proof -
  let ?i = "shard_index key"
  have other: "shard_index k = i"
    if "i < numShards" "i \<noteq> ?i" "shard_view (shards (with_shard key f s) ! i) k \<noteq> no_entry" for i k
    using that assms(1) by (auto simp: wf_store_def with_shard_def)
  have same: "shard_index k = ?i"
    if "shard_view (shards (with_shard key f s) ! ?i) k \<noteq> no_entry" for k
  proof (cases "k = key")
    case False
    have "shard_view (f (shards s ! ?i)) k \<noteq> no_entry"
      using that assms(1) by (simp add: with_shard_def wf_length)
    then have "shard_view (shards s ! ?i) k \<noteq> no_entry"
      using False assms(2) by (simp add: local_to_def)
    then show ?thesis using assms(1) by (auto simp: wf_store_def)
  qed simp
  have "length (shards (with_shard key f s)) = numShards"
    using assms(1) by (simp add: with_shard_def wf_length)
  with other same show ?thesis unfolding wf_store_def by metis
qed

lemma view_NewStore [view_simps]: "view NewStore = (\<lambda>_. no_entry)"
  by (auto simp: view_def getShard_def NewStore_def shard_view_def empty_shard_def no_entry_def)

lemma wf_NewStore [simp, wf_intros]: "wf_store NewStore"
  by (auto simp: wf_store_def NewStore_def shard_view_def empty_shard_def no_entry_def)

theorem store_eqI:
  assumes "wf_store s" and "wf_store t" and "view s = view t"
  shows "s = t"
proof -
  have shard: "shard_view (shards s ! i) k = shard_view (shards t ! i) k" if "i < numShards" for i k
  proof (cases "shard_index k = i")
    case True
    then show ?thesis using fun_cong [OF assms(3), of k] by (simp add: view_def getShard_def)
  next
    case False
    then show ?thesis using that assms(1,2) unfolding wf_store_def by metis
  qed
  have "shards s ! i = shards t ! i" if "i < numShards" for i
    by (rule shard.equality) (use shard [OF that] in \<open>auto simp: shard_view_def intro!: fmap_ext\<close>)
  then have "shards s = shards t"
    using assms(1,2) by (intro nth_equalityI) (simp_all add: wf_length)
  then show ?thesis by simp
qed

subsection \<open>Every method on the database\<close>

named_theorems local_simps \<open>locality of the shard updates\<close>

lemma shard_view_update [simp]:
  "shard_view (sh\<lparr>data := m\<rparr>) k = (shard_view sh k)\<lparr>str := fmlookup m k\<rparr>"
  "shard_view (sh\<lparr>expires := x\<rparr>) k = (shard_view sh k)\<lparr>expiry := fmlookup x k\<rparr>"
  "shard_view (sh\<lparr>lists := l\<rparr>) k = (shard_view sh k)\<lparr>lst := fmlookup l k\<rparr>"
  "shard_view (sh\<lparr>sets := t\<rparr>) k = (shard_view sh k)\<lparr>mems := fmlookup t k\<rparr>"
  "shard_view (sh\<lparr>hashes := h\<rparr>) k = (shard_view sh k)\<lparr>flds := fmlookup h k\<rparr>"
  by (simp_all add: shard_view_def)

lemma shard_view_select:
  "fmlookup (data sh) k = str (shard_view sh k)"
  "fmlookup (expires sh) k = expiry (shard_view sh k)"
  "fmlookup (lists sh) k = lst (shard_view sh k)"
  "fmlookup (sets sh) k = mems (shard_view sh k)"
  "fmlookup (hashes sh) k = flds (shard_view sh k)"
  by (simp_all add: shard_view_def)

lemma shard_view_getShard [simp]: "shard_view (getShard s key) key = view s key"
  by (simp only: view_def)

lemmas local_unfold = local_to_def shard_view_select Let_def

lemma shard_view_drop_key [simp]:
  "shard_view (drop_key key sh) k = (if k = key then no_entry else shard_view sh k)"
  by (simp add: drop_key_def shard_view_def no_entry_def)

lemma local_drop_key [local_simps]: "local_to key (drop_key key)"
  by (simp add: local_to_def)

lemma local_if [local_simps]:
  "local_to key f \<Longrightarrow> local_to key g \<Longrightarrow> local_to key (\<lambda>sh. if P sh then f sh else g sh)"
  by (simp add: local_to_def)

lemma local_id [local_simps]: "local_to key (\<lambda>sh. sh)"
  by (simp add: local_to_def)

text \<open>The two steps of every proof below: the update is local, and this is the new entry.\<close>

lemma view_with_shardI:
  assumes "wf_store s" and "local_to key f" and "shard_view (f (getShard s key)) key = e"
  shows "view (with_shard key f s) = (view s)(key := e)"
  using assms by (simp add: view_with_shard)

text \<open>Strings and expiry.\<close>

lemma wf_Store_Set [wf_intros]: "wf_store s \<Longrightarrow> wf_store (Store_Set key v s)"
  unfolding Store_Set_def by (erule wf_with_shard) (simp add: local_unfold)

lemma view_Store_Set [view_simps]:
  "wf_store s \<Longrightarrow>
   view (Store_Set key v s) = (view s)(key := (view s key)\<lparr>str := Some v, expiry := None\<rparr>)"
  unfolding Store_Set_def by (erule view_with_shardI) (simp_all add: local_unfold)

lemma wf_Store_Get_evict [wf_intros]: "wf_store s \<Longrightarrow> wf_store (Store_Get_evict key s)"
  unfolding Store_Get_evict_def by (erule wf_with_shard) (simp add: local_unfold)

lemma view_Store_Get_evict [view_simps]:
  "wf_store s \<Longrightarrow>
   view (Store_Get_evict key s) = (view s)(key := (view s key)\<lparr>str := None, expiry := None\<rparr>)"
  unfolding Store_Get_evict_def by (erule view_with_shardI) (simp_all add: local_unfold)

lemma wf_Store_Exists_evict [wf_intros]: "wf_store s \<Longrightarrow> wf_store (Store_Exists_evict t key s)"
  unfolding Store_Exists_evict_def by (erule wf_with_shard) (intro local_simps)

lemma view_Store_Exists_evict [view_simps]:
  "wf_store s \<Longrightarrow>
   view (Store_Exists_evict t key s) =
     (view s)(key := if expired t (view s key) then no_entry else view s key)"
  unfolding Store_Exists_evict_def
  by (erule view_with_shardI) (intro local_simps, simp)

lemma Store_Exists_result: "fst (Store_Exists t t2 key s) = live t (view s key)"
  by (simp add: Store_Exists_def Store_Exists_read_def live_def Let_def)

lemma wf_Store_Exists [wf_intros]: "wf_store s \<Longrightarrow> wf_store (snd (Store_Exists t t2 key s))"
  by (simp add: Store_Exists_def wf_intros split: prod.split)

lemma view_Store_Exists [view_simps]:
  "wf_store s \<Longrightarrow>
   view (snd (Store_Exists t t2 key s)) =
     (view s)(key := if present (view s key) \<and> expired t (view s key) \<and> expired t2 (view s key)
                     then no_entry else view s key)"
  by (auto simp: Store_Exists_def Store_Exists_read_def Let_def view_simps)

lemma Store_Get_result:
  "fst (Store_Get t key s) =
     (case str (view s key) of
        None \<Rightarrow> Inl (ErrMsg ''key not found'')
      | Some v \<Rightarrow> if expired t (view s key) then Inl (ErrMsg ''key not found'') else Inr v)"
  by (simp add: Store_Get_def Store_Get_read_def Let_def split: option.split)

lemma wf_Store_Get [wf_intros]: "wf_store s \<Longrightarrow> wf_store (snd (Store_Get t key s))"
  by (simp add: Store_Get_def wf_intros split: prod.split)

lemma view_Store_Get [view_simps]:
  "wf_store s \<Longrightarrow>
   view (snd (Store_Get t key s)) =
     (view s)(key := if str (view s key) \<noteq> None \<and> expired t (view s key)
                     then (view s key)\<lparr>str := None, expiry := None\<rparr> else view s key)"
  by (auto simp: Store_Get_def Store_Get_read_def Let_def view_simps split: option.split)

lemma Store_Expire_result:
  "fst (Store_Expire t key ttl s) =
     (if present (view s key) then None else Some (ErrMsg ''Key not found''))"
  by (simp add: Store_Expire_def)

lemma wf_Store_Expire [wf_intros]: "wf_store s \<Longrightarrow> wf_store (snd (Store_Expire t key ttl s))"
  by (auto simp: Store_Expire_def local_unfold intro: wf_with_shard)

lemma view_Store_Expire [view_simps]:
  "wf_store s \<Longrightarrow>
   view (snd (Store_Expire t key ttl s)) =
     (view s)(key := if present (view s key) then (view s key)\<lparr>expiry := Some (t + ttl)\<rparr>
                     else view s key)"
  by (simp add: Store_Expire_def view_with_shard local_unfold)

lemma Store_TTL_view:
  "Store_TTL t key s =
     (if \<not> present (view s key) then -2
      else case expiry (view s key) of
             None \<Rightarrow> -1
           | Some x \<Rightarrow> (let r = time_Until x t in if r \<le> 0 then -2 else r))"
  by (simp add: Store_TTL_def Let_def)

lemma Store_Persist_result:
  "fst (Store_Persist key s) =
     (if present (view s key) then None else Some (ErrMsg ''Key not found''))"
  by (simp add: Store_Persist_def)

lemma wf_Store_Persist [wf_intros]: "wf_store s \<Longrightarrow> wf_store (snd (Store_Persist key s))"
  by (auto simp: Store_Persist_def local_unfold intro: wf_with_shard)

lemma view_Store_Persist [view_simps]:
  "wf_store s \<Longrightarrow>
   view (snd (Store_Persist key s)) =
     (view s)(key := if present (view s key) then (view s key)\<lparr>expiry := None\<rparr>
                     else view s key)"
  by (simp add: Store_Persist_def view_with_shard local_unfold)

lemma Store_Del_result:
  "fst (Store_Del key s) =
     (if present (view s key) then None else Some (ErrMsg ''key not found''))"
  by (simp add: Store_Del_def)

lemma wf_Store_Del [wf_intros]: "wf_store s \<Longrightarrow> wf_store (snd (Store_Del key s))"
  by (simp add: Store_Del_def wf_with_shard local_simps)

lemma view_Store_Del [view_simps]:
  "wf_store s \<Longrightarrow>
   view (snd (Store_Del key s)) =
     (view s)(key := if present (view s key) then no_entry else view s key)"
  by (simp add: Store_Del_def view_with_shard local_simps)

text \<open>Counters: the number a string value stands for, and one step up or down.\<close>

definition counter_value :: "entry \<Rightarrow> int option" where
  "counter_value e = Atoi (case str e of None \<Rightarrow> ''0'' | Some v \<Rightarrow> v)"

definition bump :: "int \<Rightarrow> entry \<Rightarrow> entry" where
  "bump d e =
     (case counter_value e of
        None \<Rightarrow> e
      | Some n \<Rightarrow> e\<lparr>str := Some (Itoa (wrap64 (n + d)))\<rparr>)"

definition bump_result :: "int \<Rightarrow> entry \<Rightarrow> go_error + int" where
  "bump_result d e =
     (case counter_value e of
        None \<Rightarrow> Inl (ErrMsg ''value is not an integer'')
      | Some n \<Rightarrow> Inr (wrap64 (n + d)))"

lemma Store_Incr_result: "fst (Store_Incr key s) = bump_result 1 (view s key)"
  by (simp add: Store_Incr_def bump_result_def counter_value_def Let_def split: option.split)

lemma Store_Decr_result: "fst (Store_Decr key s) = bump_result (-1) (view s key)"
  by (simp add: Store_Decr_def bump_result_def counter_value_def Let_def split: option.split)

lemma wf_Store_Incr [wf_intros]: "wf_store s \<Longrightarrow> wf_store (snd (Store_Incr key s))"
  by (auto simp: Store_Incr_def local_unfold intro: wf_with_shard split: option.split)

lemma wf_Store_Decr [wf_intros]: "wf_store s \<Longrightarrow> wf_store (snd (Store_Decr key s))"
  by (auto simp: Store_Decr_def local_unfold intro: wf_with_shard split: option.split)

lemma view_Store_Incr [view_simps]:
  "wf_store s \<Longrightarrow> view (snd (Store_Incr key s)) = (view s)(key := bump 1 (view s key))"
  by (auto simp: Store_Incr_def bump_def counter_value_def Let_def view_with_shard local_unfold
      split: option.split)

lemma view_Store_Decr [view_simps]:
  "wf_store s \<Longrightarrow> view (snd (Store_Decr key s)) = (view s)(key := bump (-1) (view s key))"
  by (auto simp: Store_Decr_def bump_def counter_value_def Let_def view_with_shard local_unfold
      split: option.split)

text \<open>Lists.\<close>

lemma wf_put_list [wf_intros]: "wf_store s \<Longrightarrow> wf_store (put_list key l s)"
  unfolding put_list_def by (erule wf_with_shard) (simp add: local_unfold)

lemma view_put_list [view_simps]:
  "wf_store s \<Longrightarrow> view (put_list key l s) = (view s)(key := (view s key)\<lparr>lst := Some l\<rparr>)"
  unfolding put_list_def by (erule view_with_shardI) (simp_all add: local_unfold)

lemma wf_pop_list [wf_intros]: "wf_store s \<Longrightarrow> wf_store (pop_list key l s)"
  unfolding pop_list_def by (erule wf_with_shard) (simp add: local_unfold)

lemma view_pop_list [view_simps]:
  "wf_store s \<Longrightarrow> view (pop_list key l s) = (view s)(key := (view s key)\<lparr>lst := some_list l\<rparr>)"
  unfolding pop_list_def
  by (erule view_with_shardI) (simp_all add: local_unfold some_list_def)

lemma Store_LPush_result:
  "fst (Store_LPush key vs s) = length vs + length (the_list (view s key))"
  by (simp add: Store_LPush_def Let_def)

lemma wf_Store_LPush [wf_intros]: "wf_store s \<Longrightarrow> wf_store (snd (Store_LPush key vs s))"
  by (simp add: Store_LPush_def Let_def wf_intros)

lemma view_Store_LPush [view_simps]:
  "wf_store s \<Longrightarrow>
   view (snd (Store_LPush key vs s)) =
     (view s)(key := (view s key)\<lparr>lst := Some (vs @ the_list (view s key))\<rparr>)"
  by (simp add: Store_LPush_def Let_def view_simps)

lemma Store_RPush_result:
  "fst (Store_RPush key vs s) = length (the_list (view s key)) + length vs"
  by (simp add: Store_RPush_def Let_def)

lemma wf_Store_RPush [wf_intros]: "wf_store s \<Longrightarrow> wf_store (snd (Store_RPush key vs s))"
  by (simp add: Store_RPush_def Let_def wf_intros)

lemma view_Store_RPush [view_simps]:
  "wf_store s \<Longrightarrow>
   view (snd (Store_RPush key vs s)) =
     (view s)(key := (view s key)\<lparr>lst := Some (the_list (view s key) @ vs)\<rparr>)"
  by (simp add: Store_RPush_def Let_def view_simps)

lemma the_list_Some: "lst e = Some l \<Longrightarrow> the_list e = l"
  by (simp add: the_list_def)

lemma Store_LPop_result:
  "fst (Store_LPop key s) =
     (case the_list (view s key) of [] \<Rightarrow> Inl (ErrMsg ''empty list'') | v # _ \<Rightarrow> Inr v)"
  by (simp add: Store_LPop_def the_list_def split: option.split list.split)

lemma wf_Store_LPop [wf_intros]: "wf_store s \<Longrightarrow> wf_store (snd (Store_LPop key s))"
  by (simp add: Store_LPop_def wf_intros split: option.split)

lemma view_Store_LPop [view_simps]:
  "wf_store s \<Longrightarrow>
   view (snd (Store_LPop key s)) =
     (view s)(key := if the_list (view s key) = [] then view s key
                     else (view s key)\<lparr>lst := some_list (tl (the_list (view s key)))\<rparr>)"
  by (auto simp: Store_LPop_def view_simps the_list_def split: option.split)

lemma Store_RPop_result:
  "fst (Store_RPop key s) =
     (if the_list (view s key) = [] then Inl (ErrMsg ''empty list'')
      else Inr (last (the_list (view s key))))"
  by (simp add: Store_RPop_def the_list_def split: option.split)

lemma wf_Store_RPop [wf_intros]: "wf_store s \<Longrightarrow> wf_store (snd (Store_RPop key s))"
  by (simp add: Store_RPop_def wf_intros split: option.split)

lemma view_Store_RPop [view_simps]:
  "wf_store s \<Longrightarrow>
   view (snd (Store_RPop key s)) =
     (view s)(key := if the_list (view s key) = [] then view s key
                     else (view s key)\<lparr>lst := some_list (butlast (the_list (view s key)))\<rparr>)"
  by (auto simp: Store_RPop_def view_simps the_list_def split: option.split)

text \<open>Sets.\<close>

lemma sadd_loop_eq:
  "sadd_loop ms st n = (st |\<union>| fset_of_list ms, n + fcard (fset_of_list ms |-| st))"
proof (induction ms st n rule: sadd_loop.induct)
  case (2 m ms st n)
  show ?case
  proof (cases "m |\<in>| st")
    case True
    with 2 show ?thesis by (auto simp: finsert_fminus_if finsert_absorb)
  next
    case False
    have eq: "finsert m (fset_of_list ms) |-| st
        = finsert m (fset_of_list ms |-| finsert m st)"
      using False by auto
    have "fcard (finsert m (fset_of_list ms) |-| st)
        = Suc (fcard (fset_of_list ms |-| finsert m st))"
      unfolding eq by (rule fcard_finsert_disjoint) auto
    with 2 False show ?thesis by auto
  qed
qed simp

lemma srem_loop_eq:
  "srem_loop ms st n = (st |-| fset_of_list ms, n + fcard (st |\<inter>| fset_of_list ms))"
proof (induction ms st n rule: srem_loop.induct)
  case (2 m ms st n)
  show ?case
  proof (cases "m |\<in>| st")
    case True
    have eq: "st |\<inter>| finsert m (fset_of_list ms)
        = finsert m ((st |-| {|m|}) |\<inter>| fset_of_list ms)"
      using True by auto
    have "fcard (st |\<inter>| finsert m (fset_of_list ms))
        = Suc (fcard ((st |-| {|m|}) |\<inter>| fset_of_list ms))"
      unfolding eq by (rule fcard_finsert_disjoint) auto
    moreover have "st |-| {|m|} |-| fset_of_list ms = st |-| finsert m (fset_of_list ms)"
      by auto
    ultimately show ?thesis using 2 True by simp
  next
    case False
    have "st |-| finsert m (fset_of_list ms) = st |-| fset_of_list ms"
      and "st |\<inter>| finsert m (fset_of_list ms) = st |\<inter>| fset_of_list ms"
      using False by auto
    with 2 False show ?thesis by simp
  qed
qed simp

lemma wf_put_set [wf_intros]: "wf_store s \<Longrightarrow> wf_store (put_set key m s)"
  unfolding put_set_def by (erule wf_with_shard) (simp add: local_unfold)

lemma view_put_set [view_simps]:
  "wf_store s \<Longrightarrow> view (put_set key m s) = (view s)(key := (view s key)\<lparr>mems := Some m\<rparr>)"
  unfolding put_set_def by (erule view_with_shardI) (simp_all add: local_unfold)

lemma wf_shrink_set [wf_intros]: "wf_store s \<Longrightarrow> wf_store (shrink_set key m s)"
  unfolding shrink_set_def by (erule wf_with_shard) (simp add: local_unfold)

lemma view_shrink_set [view_simps]:
  "wf_store s \<Longrightarrow> view (shrink_set key m s) = (view s)(key := (view s key)\<lparr>mems := some_mems m\<rparr>)"
  unfolding shrink_set_def
  by (erule view_with_shardI) (simp_all add: local_unfold some_mems_def)

lemma Store_SAdd_result:
  "fst (Store_SAdd key ms s) = fcard (fset_of_list ms |-| the_mems (view s key))"
  by (simp add: Store_SAdd_def sadd_loop_eq)

lemma wf_Store_SAdd [wf_intros]: "wf_store s \<Longrightarrow> wf_store (snd (Store_SAdd key ms s))"
  by (simp add: Store_SAdd_def wf_intros split: prod.split)

lemma view_Store_SAdd [view_simps]:
  "wf_store s \<Longrightarrow>
   view (snd (Store_SAdd key ms s)) =
     (view s)(key := (view s key)\<lparr>mems := Some (the_mems (view s key) |\<union>| fset_of_list ms)\<rparr>)"
  by (simp add: Store_SAdd_def sadd_loop_eq view_simps)

lemma Store_SRem_result:
  "fst (Store_SRem key ms s) = fcard (the_mems (view s key) |\<inter>| fset_of_list ms)"
  by (simp add: Store_SRem_def srem_loop_eq the_mems_def split: option.split)

lemma wf_Store_SRem [wf_intros]: "wf_store s \<Longrightarrow> wf_store (snd (Store_SRem key ms s))"
  by (simp add: Store_SRem_def wf_intros split: option.split prod.split)

lemma view_Store_SRem [view_simps]:
  "wf_store s \<Longrightarrow>
   view (snd (Store_SRem key ms s)) =
     (view s)(key := if mems (view s key) = None then view s key
                     else (view s key)\<lparr>mems := some_mems (the_mems (view s key) |-| fset_of_list ms)\<rparr>)"
  by (cases "mems (view s key)") (simp_all add: Store_SRem_def srem_loop_eq view_simps the_mems_def)

lemma wf_Store_SPop [wf_intros]: "wf_store s \<Longrightarrow> wf_store (snd (Store_SPop ord key s))"
  by (simp add: Store_SPop_def Let_def wf_intros split: list.split)

text \<open>\<open>SPop\<close> removes the member it returns; which member is up to the iteration order.\<close>

lemma Store_SPop_cases:
  assumes "wf_store s"
  obtains (empty) "the_mems (view s key) = {||}"
      "Store_SPop ord key s = (Inl (ErrMsg ''empty set''), s)"
    | (popped) m where "m |\<in>| the_mems (view s key)" "fst (Store_SPop ord key s) = Inr m"
      "view (snd (Store_SPop ord key s)) =
        (view s)(key := (view s key)\<lparr>mems := some_mems (the_mems (view s key) |-| {|m|})\<rparr>)"
proof (cases "go_order ord (sorted_list_of_fset (the_mems (view s key)))")
  case Nil
  then have "set (sorted_list_of_fset (the_mems (view s key))) = {}" by simp
  then have "the_mems (view s key) = {||}"
    by (metis bot_fset.rep_eq fset_inverse sorted_list_of_fset_simps(1))
  with Nil empty show ?thesis by (simp add: Store_SPop_def)
next
  case (Cons m ms)
  then have "m \<in> set (sorted_list_of_fset (the_mems (view s key)))"
    by (metis list.set_intros(1) set_go_order)
  with Cons assms popped show ?thesis by (simp add: Store_SPop_def view_simps)
qed

text \<open>Hashes.\<close>

lemma hdel_loop_eq:
  "hdel_loop fs h n = (fmdrop_fset (fset_of_list fs) h, n + fcard (fmdom h |\<inter>| fset_of_list fs))"
proof (induction fs h n rule: hdel_loop.induct)
  case (2 f fs h n)
  show ?case
  proof (cases "fmlookup h f")
    case None
    then have "fmdom h |\<inter>| finsert f (fset_of_list fs) = fmdom h |\<inter>| fset_of_list fs"
      by (auto simp: fmlookup_dom_iff)
    moreover have "fmdrop_fset (finsert f (fset_of_list fs)) h = fmdrop_fset (fset_of_list fs) h"
      using None by (auto intro!: fmap_ext)
    ultimately show ?thesis using 2 None by simp
  next
    case (Some v)
    then have eq: "fmdom h |\<inter>| finsert f (fset_of_list fs)
        = finsert f ((fmdom h |-| {|f|}) |\<inter>| fset_of_list fs)"
      by (auto simp: fmlookup_dom_iff)
    have "fcard (fmdom h |\<inter>| finsert f (fset_of_list fs))
        = Suc (fcard ((fmdom h |-| {|f|}) |\<inter>| fset_of_list fs))"
      unfolding eq by (rule fcard_finsert_disjoint) auto
    moreover have "fmdrop_fset (finsert f (fset_of_list fs)) h
        = fmdrop_fset (fset_of_list fs) (fmdrop f h)"
      by (auto intro!: fmap_ext)
    ultimately show ?thesis using 2 Some by simp
  qed
qed (simp add: fmap_ext)

lemma fold_fmupd_lookup:
  "fmlookup (fold (\<lambda>k h. fmupd k (the (fmlookup m k)) h) ks h) x =
     (if x \<in> set ks then Some (the (fmlookup m x)) else fmlookup h x)"
  by (induction ks arbitrary: h) auto

lemma fold_fmupd_eq_fmadd:
  assumes "set ks = fmdom' m"
  shows "fold (\<lambda>k h. fmupd k (the (fmlookup m k)) h) ks h = h ++\<^sub>f m"
  by (rule fmap_ext)
    (use assms in \<open>auto simp: fold_fmupd_lookup fmlookup_dom'_iff fmlookup_dom_iff
       split: option.split\<close>)

lemma wf_put_hash [wf_intros]: "wf_store s \<Longrightarrow> wf_store (put_hash key h s)"
  unfolding put_hash_def by (erule wf_with_shard) (simp add: local_unfold)

lemma view_put_hash [view_simps]:
  "wf_store s \<Longrightarrow> view (put_hash key h s) = (view s)(key := (view s key)\<lparr>flds := Some h\<rparr>)"
  unfolding put_hash_def by (erule view_with_shardI) (simp_all add: local_unfold)

lemma wf_shrink_hash [wf_intros]: "wf_store s \<Longrightarrow> wf_store (shrink_hash key h s)"
  unfolding shrink_hash_def by (erule wf_with_shard) (simp add: local_unfold)

lemma view_shrink_hash [view_simps]:
  "wf_store s \<Longrightarrow> view (shrink_hash key h s) = (view s)(key := (view s key)\<lparr>flds := some_flds h\<rparr>)"
  unfolding shrink_hash_def
  by (erule view_with_shardI) (simp_all add: local_unfold some_flds_def)

lemma Store_HSet_result:
  "fst (Store_HSet key f v s) = (if fmlookup (the_flds (view s key)) f = None then 1 else 0)"
  by (simp add: Store_HSet_def Let_def)

lemma wf_Store_HSet [wf_intros]: "wf_store s \<Longrightarrow> wf_store (snd (Store_HSet key f v s))"
  by (simp add: Store_HSet_def Let_def wf_intros)

lemma view_Store_HSet [view_simps]:
  "wf_store s \<Longrightarrow>
   view (snd (Store_HSet key f v s)) =
     (view s)(key := (view s key)\<lparr>flds := Some (fmupd f v (the_flds (view s key)))\<rparr>)"
  by (simp add: Store_HSet_def Let_def view_simps)

lemma Store_HGet_view:
  "Store_HGet key f s =
     (case fmlookup (the_flds (view s key)) f of
        None \<Rightarrow> Inl (ErrMsg ''field not found'')
      | Some v \<Rightarrow> Inr v)"
  by (simp add: Store_HGet_def the_flds_def split: option.split)

lemma Store_HDel_result:
  "fst (Store_HDel key fs s) = fcard (fmdom (the_flds (view s key)) |\<inter>| fset_of_list fs)"
  by (simp add: Store_HDel_def hdel_loop_eq the_flds_def split: option.split)

lemma wf_Store_HDel [wf_intros]: "wf_store s \<Longrightarrow> wf_store (snd (Store_HDel key fs s))"
  by (simp add: Store_HDel_def wf_intros split: option.split prod.split)

lemma view_Store_HDel [view_simps]:
  "wf_store s \<Longrightarrow>
   view (snd (Store_HDel key fs s)) =
     (view s)(key := if flds (view s key) = None then view s key
                     else (view s key)\<lparr>flds := some_flds (fmdrop_fset (fset_of_list fs) (the_flds (view s key)))\<rparr>)"
  by (cases "flds (view s key)") (simp_all add: Store_HDel_def hdel_loop_eq view_simps the_flds_def)

lemma wf_Store_HMSet [wf_intros]: "wf_store s \<Longrightarrow> wf_store (Store_HMSet ord key fs s)"
  by (simp add: Store_HMSet_def Let_def wf_intros)

lemma view_Store_HMSet [view_simps]:
  "wf_store s \<Longrightarrow>
   view (Store_HMSet ord key fs s) =
     (view s)(key := (view s key)\<lparr>flds := Some (the_flds (view s key) ++\<^sub>f fs)\<rparr>)"
  by (simp add: Store_HMSet_def Let_def view_simps fold_fmupd_eq_fmadd)

text \<open>Whole-store operations.\<close>

lemma wf_Store_FlushAll [simp, wf_intros]: "wf_store (Store_FlushAll s)"
  by (auto simp: wf_store_def Store_FlushAll_def shard_view_def empty_shard_def no_entry_def)

lemma view_Store_FlushAll [view_simps]: "view (Store_FlushAll s) = (\<lambda>_. no_entry)"
  by (auto simp: view_def getShard_def Store_FlushAll_def shard_view_def empty_shard_def
      no_entry_def)

lemma sweep_key_view:
  "shard_view (sweep_key t key sh) k =
     (if k = key \<and> expired t (shard_view sh k) then no_entry else shard_view sh k)"
  by (auto simp: sweep_key_def expired_def shard_view_select split: option.split)

lemma fold_sweep_view:
  "distinct ks \<Longrightarrow>
   shard_view (fold (\<lambda>key. sweep_key (clk key) key) ks sh) k =
     (if k \<in> set ks \<and> expired (clk k) (shard_view sh k) then no_entry else shard_view sh k)"
  by (induction ks arbitrary: sh) (auto simp: sweep_key_view)

lemma sweep_shard_view:
  "shard_view (sweep_shard ord clk sh) k =
     (if expired (clk k) (shard_view sh k) then no_entry else shard_view sh k)"
proof -
  have "k \<in> fmdom' (expires sh)" if "expired (clk k) (shard_view sh k)"
    using that by (auto simp: expired_def shard_view_def fmlookup_dom'_iff split: option.splits)
  then show ?thesis by (auto simp: sweep_shard_def fold_sweep_view)
qed

lemma view_activeExpiry_tick [view_simps]:
  "view (activeExpiry_tick ord clk s) =
     (\<lambda>k. if expired (clk k) (view s k) then no_entry else view s k)"
  by (auto simp: view_def getShard_def activeExpiry_tick_def sweep_shard_view)

lemma wf_activeExpiry_tick [wf_intros]: "wf_store s \<Longrightarrow> wf_store (activeExpiry_tick ord clk s)"
  by (auto simp: wf_store_def activeExpiry_tick_def sweep_shard_view split: if_splits)

subsection \<open>Listing the keys\<close>

lemma in_shard_Keys_iff:
  "k \<in> set (shard_Keys ord t p sh) \<longleftrightarrow> live t (shard_view sh k) \<and> matchPattern p k"
  by (auto simp: shard_Keys_def range_live_def live_def present_def expired_def isExpired_def
      shard_view_def fmlookup_dom'_iff)

lemma live_home:
  assumes "wf_store s" and "i < numShards" and "live t (shard_view (shards s ! i) k)"
  shows "i = shard_index k"
proof -
  from assms(3) have "shard_view (shards s ! i) k \<noteq> no_entry"
    by (auto simp: live_def present_def no_entry_def)
  with assms(1,2) show ?thesis by (auto simp: wf_store_def)
qed

lemma set_Store_Keys:
  assumes "wf_store s"
  shows "set (Store_Keys ord t p s) = {k. live t (view s k) \<and> matchPattern p k}"
proof -
  have "k \<in> set (Store_Keys ord t p s) \<longleftrightarrow>
      (\<exists>i < numShards. live t (shard_view (shards s ! i) k) \<and> matchPattern p k)" for k
    by (auto simp: Store_Keys_def in_shard_Keys_iff Bex_def)
  moreover have "(\<exists>i < numShards. live t (shard_view (shards s ! i) k) \<and> matchPattern p k)
      \<longleftrightarrow> live t (view s k) \<and> matchPattern p k" for k
    unfolding view_def getShard_def by (metis live_home [OF assms] shard_index_less)
  ultimately show ?thesis by blast
qed

text \<open>How often a key is listed.\<close>

lemma count_range_live:
  "count (mset (range_live ord t p sh skip (map_keys m))) k =
     of_bool (fmlookup m k \<noteq> None \<and> \<not> (skip \<and> fmlookup (data sh) k \<noteq> None) \<and>
       \<not> isExpired t sh k \<and> matchPattern p k)"
proof -
  have "count (mset xs) x = of_bool (x \<in> set xs)" if "distinct xs" for xs and x :: string
    using that by (simp add: distinct_count_atmost_1)
  then show ?thesis by (auto simp: range_live_def fmlookup_dom'_iff)
qed

lemma count_shard_Keys:
  assumes "live t (shard_view sh k)" and "matchPattern p k"
  shows "count (mset (shard_Keys ord t p sh)) k =
    (if str (shard_view sh k) \<noteq> None then 1
     else of_bool (lst (shard_view sh k) \<noteq> None) + of_bool (mems (shard_view sh k) \<noteq> None) +
       of_bool (flds (shard_view sh k) \<noteq> None))"
  using assms
  by (auto simp: shard_Keys_def count_range_live shard_view_def live_def isExpired_def expired_def
      split: option.splits)

lemma count_concat_one:
  assumes "i < n" and "\<And>j. j < n \<Longrightarrow> j \<noteq> i \<Longrightarrow> x \<notin> set (f j)"
  shows "count (mset (concat (map f [0..<n]))) x = count (mset (f i)) x"
proof -
  have "count (mset (concat (map f [0..<n]))) x = (\<Sum>j \<in> {0..<n}. count (mset (f j)) x)"
    by (induction n) simp_all
  also have "\<dots> = (\<Sum>j \<in> {0..<n}. if j = i then count (mset (f i)) x else 0)"
    by (rule sum.cong) (use assms(2) in \<open>auto simp: count_eq_zero_iff\<close>)
  also have "\<dots> = count (mset (f i)) x" using assms(1) by simp
  finally show ?thesis .
qed

lemma count_Store_Keys:
  assumes "wf_store s" and "live t (view s k)" and "matchPattern p k"
  shows "count (mset (Store_Keys ord t p s)) k =
    (if str (view s k) \<noteq> None then 1
     else of_bool (lst (view s k) \<noteq> None) + of_bool (mems (view s k) \<noteq> None) +
       of_bool (flds (view s k) \<noteq> None))"
proof -
  have "k \<notin> set (shard_Keys (\<lambda>j. ord (4 * i + j)) t p (shards s ! i))"
    if "i < numShards" "i \<noteq> shard_index k" for i
    using live_home [OF assms(1) that(1)] that(2) by (auto simp: in_shard_Keys_iff)
  then have "count (mset (Store_Keys ord t p s)) k =
      count (mset (shard_Keys (\<lambda>j. ord (4 * shard_index k + j)) t p (shards s ! shard_index k))) k"
    unfolding Store_Keys_def by (intro count_concat_one) simp_all
  then show ?thesis
    using count_shard_Keys [of t "shards s ! shard_index k" k p] assms(2,3)
    by (simp add: view_def getShard_def)
qed

subsection \<open>Counting the keys\<close>

text \<open>Summing the sizes of one map over the shards counts the keys that have it.\<close>

lemma sum_shards_card:
  assumes "wf_store s"
    and sel: "\<And>i k. i < numShards \<Longrightarrow>
      (fmlookup (f (shards s ! i)) k \<noteq> None) = g (shard_view (shards s ! i) k)"
    and none: "\<not> g no_entry"
  shows "(\<Sum>i < numShards. map_len (f (shards s ! i))) = card {k. g (view s k)}"
proof -
  let ?A = "\<lambda>i. fmdom' (f (shards s ! i))"
  have mem: "k \<in> ?A i \<longleftrightarrow> shard_index k = i \<and> g (view s k)" if "i < numShards" for i k
  proof -
    have "k \<in> ?A i \<longleftrightarrow> g (shard_view (shards s ! i) k)"
      using sel [OF that, of k] by (simp add: fmlookup_dom'_iff)
    moreover have "shard_index k = i" if "g (shard_view (shards s ! i) k)"
      using that none \<open>i < numShards\<close> assms(1) unfolding wf_store_def by metis
    ultimately show ?thesis by (auto simp: view_def getShard_def)
  qed
  have "(\<Sum>i < numShards. map_len (f (shards s ! i))) = (\<Sum>i < numShards. card (?A i))"
    by (simp add: map_len_def fmdom'_alt_def fcard.rep_eq)
  also have "\<dots> = card (\<Union>i < numShards. ?A i)"
  proof (rule card_UN_disjoint [symmetric])
    show "\<forall>i \<in> {..<numShards}. \<forall>j \<in> {..<numShards}. i \<noteq> j \<longrightarrow> ?A i \<inter> ?A j = {}"
    proof (intro ballI impI)
      fix i j
      assume "i \<in> {..<numShards}" "j \<in> {..<numShards}" "i \<noteq> j"
      then show "?A i \<inter> ?A j = {}" using mem [of i] mem [of j] by auto
    qed
  qed (simp_all add: fmdom'_alt_def)
  also have "(\<Union>i < numShards. ?A i) = {k. g (view s k)}"
    using mem by auto
  finally show ?thesis .
qed

lemma foldl_sum_upt: "foldl (\<lambda>n i. n + h i) (a::nat) [0..<m] = a + (\<Sum>i < m. h i)"
  by (induction m) simp_all

lemma Store_Size_view:
  assumes "wf_store s"
  shows "Store_Size s =
    card {k. str (view s k) \<noteq> None} + card {k. lst (view s k) \<noteq> None} +
    card {k. mems (view s k) \<noteq> None} + card {k. flds (view s k) \<noteq> None}"
proof -
  let ?sh = "\<lambda>i. shards s ! i"
  have "Store_Size s = (\<Sum>i < numShards. map_len (data (?sh i)) + map_len (lists (?sh i)) +
      map_len (sets (?sh i)) + map_len (hashes (?sh i)))"
    using foldl_sum_upt [of "\<lambda>i. map_len (data (?sh i)) + map_len (lists (?sh i)) +
      map_len (sets (?sh i)) + map_len (hashes (?sh i))" 0 numShards]
    by (simp add: Store_Size_def Let_def add.assoc)
  also have "\<dots> = (\<Sum>i < numShards. map_len (data (?sh i))) + (\<Sum>i < numShards. map_len (lists (?sh i)))
      + (\<Sum>i < numShards. map_len (sets (?sh i))) + (\<Sum>i < numShards. map_len (hashes (?sh i)))"
    by (simp add: sum.distrib)
  also have "(\<Sum>i < numShards. map_len (data (?sh i))) = card {k. str (view s k) \<noteq> None}"
    by (rule sum_shards_card [OF assms]) (simp_all add: shard_view_def no_entry_def)
  also have "(\<Sum>i < numShards. map_len (lists (?sh i))) = card {k. lst (view s k) \<noteq> None}"
    by (rule sum_shards_card [OF assms]) (simp_all add: shard_view_def no_entry_def)
  also have "(\<Sum>i < numShards. map_len (sets (?sh i))) = card {k. mems (view s k) \<noteq> None}"
    by (rule sum_shards_card [OF assms]) (simp_all add: shard_view_def no_entry_def)
  also have "(\<Sum>i < numShards. map_len (hashes (?sh i))) = card {k. flds (view s k) \<noteq> None}"
    by (rule sum_shards_card [OF assms]) (simp_all add: shard_view_def no_entry_def)
  finally show ?thesis .
qed

subsection \<open>Ranges of lists\<close>

text \<open>The elements a range denotes: indices count from the end when negative, and are cut
  to the list.\<close>

definition abs_index :: "int \<Rightarrow> int \<Rightarrow> int" where
  "abs_index n i = (if i < 0 then n + i else i)"

definition list_slice :: "'a list \<Rightarrow> int \<Rightarrow> int \<Rightarrow> 'a list" where
  "list_slice l start stop =
     map (\<lambda>i. l ! nat i)
       (filter (\<lambda>i. abs_index (int (length l)) start \<le> i \<and> i \<le> abs_index (int (length l)) stop)
          [0..int (length l) - 1])"

lemma wrap64_abs_index:
  assumes "length l < 2 ^ 63" and "in_int64 i"
  shows "(if i < 0 then wrap64 (int (length l) + i) else i) = abs_index (int (length l)) i"
proof -
  have "int (length l) < 2 ^ 63" using assms(1) by (metis of_nat_less_iff of_nat_numeral of_nat_power)
  with assms(2) have "i < 0 \<Longrightarrow> in_int64 (int (length l) + i)" by (simp add: int64_defs)
  then show ?thesis by (simp add: abs_index_def)
qed

lemma filter_upto_interval:
  "filter (\<lambda>i. a \<le> i \<and> i \<le> b) [0..n - 1] = [max 0 a..min b (n - 1)]"
  for n :: int
  by (rule sorted_distinct_set_unique) (auto simp: sorted_wrt_filter)

lemma take_drop_nth_upto:
  assumes "0 \<le> a" and "b < int (length l)"
  shows "take (nat (b - a + 1)) (drop (nat a) l) = map (\<lambda>i. l ! nat i) [a..b]"
  by (rule nth_equalityI) (use assms in \<open>auto simp: nat_add_distrib\<close>)

lemma Store_LRange_slice:
  assumes "length (the_list (view s key)) < 2 ^ 63" and "in_int64 start" and "in_int64 stop"
  shows "Store_LRange key start stop s = list_slice (the_list (view s key)) start stop"
proof -
  define l where "l = the_list (view s key)"
  define a b where "a = abs_index (int (length l)) start" and "b = abs_index (int (length l)) stop"
  have ab: "(if start < 0 then wrap64 (int (length l) + start) else start) = a"
    "(if stop < 0 then wrap64 (int (length l) + stop) else stop) = b"
    using assms wrap64_abs_index unfolding a_def b_def l_def by blast+
  have lr: "lrange_bounds (int (length l)) start stop =
      (if max 0 a > min b (int (length l) - 1) then None
       else Some (max 0 a, min b (int (length l) - 1)))"
    unfolding lrange_bounds_def ab Let_def by (auto simp: max_def min_def)
  have "list_slice l start stop = map (\<lambda>i. l ! nat i) [max 0 a..min b (int (length l) - 1)]"
    unfolding list_slice_def a_def [symmetric] b_def [symmetric] filter_upto_interval ..
  moreover have "Store_LRange key start stop s =
      map (\<lambda>i. l ! nat i) [max 0 a..min b (int (length l) - 1)]"
    using lr by (simp add: Store_LRange_def l_def [symmetric] take_drop_nth_upto)
  ultimately show ?thesis by (simp add: l_def)
qed

lemma Store_LIndex_nth:
  assumes "length (the_list (view s key)) < 2 ^ 63" and "in_int64 i"
  shows "Store_LIndex key i s =
    (let l = the_list (view s key); j = abs_index (int (length l)) i
     in if l = [] then Inl (ErrMsg ''empty list'')
        else if 0 \<le> j \<and> j < int (length l) then Inr (l ! nat j)
        else Inl (ErrMsg ''index out of range''))"
  unfolding Store_LIndex_def Let_def list_at_view wrap64_abs_index [OF assms]
  by auto

subsection \<open>Properties\<close>

text \<open>C19: KEYS is exact. The keys listed are the live keys of the database that are in the
  language of the pattern, whatever order the maps are visited in. A key with a string is listed
  once; one without is listed once for each of a list, a set and a hash it holds.\<close>

theorem keys_exact:
  assumes "wf_store s"
  shows "set (Store_Keys ord t p s) = {k. live t (view s k) \<and> k \<in> glob_lang (tokens p)} \<and>
    (\<forall>k \<in> set (Store_Keys ord t p s). count (mset (Store_Keys ord t p s)) k =
       (if str (view s k) \<noteq> None then 1
        else of_bool (lst (view s k) \<noteq> None) + of_bool (mems (view s k) \<noteq> None) +
          of_bool (flds (view s k) \<noteq> None)))"
  using set_Store_Keys [OF assms] count_Store_Keys [OF assms] by (simp add: matchPattern_language)

theorem keys_exact_witness:
  "''ab'' \<in> set (Store_Keys (\<lambda>_. []) 0 ''a?'' (Store_Set ''ab'' ''1'' NewStore)) \<and>
   ''b'' \<notin> set (Store_Keys (\<lambda>_. []) 0 ''a?'' (Store_Set ''ab'' ''1'' NewStore)) \<and>
   count (mset (Store_Keys (\<lambda>_. []) 0 ''a?'' (Store_Set ''ab'' ''1'' NewStore))) ''ab'' = 1"
proof -
  have "''ab'' \<in> glob_lang (tokens ''a?'')" "''b'' \<notin> glob_lang (tokens ''a?'')"
    by (simp_all add: globMatch_language [symmetric] globMatch.simps(2))
  then show ?thesis
    using keys_exact [OF wf_Store_Set [OF wf_NewStore], of "\<lambda>_. []" 0 "''a?''" "''ab''" "''1''"]
    by (simp add: view_simps live_def present_def expired_def no_entry_def)
qed

text \<open>C20: Background expiry. One tick of the sweep removes every value of the keys whose deadline has
  passed when it looks at them, in whatever order, and leaves all other keys as they are.\<close>

theorem sweep_removes_exactly_expired:
  "view (activeExpiry_tick ord clk s) k =
     (if expired (clk k) (view s k) then no_entry else view s k)"
  by (simp add: view_simps)

text \<open>C21: Interleaving. EXISTS decides under the read lock and evicts under the write lock; whatever
  ran in between, the second critical section changes nothing for a key that is not expired
  then.\<close>

theorem exists_never_evicts_live:
  assumes "wf_store s" and "\<not> expired now2 (view s k)"
  shows "Store_Exists_evict now2 k s = s"
  by (rule store_eqI) (use assms in \<open>simp_all add: wf_intros view_simps fun_upd_idem\<close>)

theorem exists_never_evicts_live_witness:
  "Store_Exists_evict 9 ''k'' (Store_Set ''k'' ''v'' NewStore) = Store_Set ''k'' ''v'' NewStore"
  using exists_never_evicts_live [of "Store_Set ''k'' ''v'' NewStore" 9 "''k''"]
  by (simp add: wf_intros view_simps expired_def)

text \<open>C33: Interleaving. GET does not look again under the write lock: a value written between its two
  critical sections, acknowledged and without deadline, is deleted.\<close>

theorem get_evicts_fresh_write:
  "\<exists>s. wf_store s \<and> snd (Store_Get_read t k s) \<and>
     live t (view (Store_Set k v s) k) \<and>
     str (view (Store_Set k v s) k) = Some v \<and>
     \<not> live t (view (Store_Get_evict k (Store_Set k v s)) k)"
proof -
  let ?s = "snd (Store_Expire t k (-1) (Store_Set k v NewStore))"
  have wf: "wf_store ?s" by (simp add: wf_intros)
  have "str (view ?s k) = Some v" "expiry (view ?s k) = Some (t - 1)"
    "lst (view ?s k) = None" "mems (view ?s k) = None" "flds (view ?s k) = None"
    by (simp_all add: view_simps wf_intros present_def no_entry_def)
  with wf show ?thesis
    by (intro exI [of _ ?s])
      (simp add: Store_Get_read_def Let_def view_simps wf_intros live_def present_def expired_def)
qed

text \<open>Counters. INCR on a counter that holds \<open>n\<close> answers and stores \<open>n + 1\<close>, wrapped around at
  64 bits, keeps the deadline, and touches no other key.\<close>

theorem incr_exact:
  assumes "wf_store s" and "in_int64 n" and "str (view s k) = Some (Itoa n)"
  shows "fst (Store_Incr k s) = Inr (wrap64 (n + 1)) \<and>
    view (snd (Store_Incr k s)) = (view s)(k := (view s k)\<lparr>str := Some (Itoa (wrap64 (n + 1)))\<rparr>)"
  using assms
  by (simp add: Store_Incr_result bump_result_def view_simps bump_def counter_value_def Atoi_Itoa)

theorem incr_exact_witness:
  "fst (Store_Incr ''k'' (Store_Set ''k'' (Itoa max_int64) NewStore)) = Inr min_int64"
proof -
  have "in_int64 max_int64" by (simp add: int64_defs)
  with incr_exact [of "Store_Set ''k'' (Itoa max_int64) NewStore" max_int64 "''k''"]
  show ?thesis by (simp add: wf_intros view_simps wrap64_max)
qed

text \<open>C24: Ranges. LRANGE returns the elements between the two indices, negative indices counted
  from the end and both cut to the list, without overflow, for every list shorter than \<open>2 ^ 63\<close>
  and all 64-bit indices.\<close>

theorem lrange_exact:
  assumes "length (the_list (view s k)) < 2 ^ 63" and "in_int64 start" and "in_int64 stop"
  shows "Store_LRange k start stop s = list_slice (the_list (view s k)) start stop"
  by (rule Store_LRange_slice [OF assms])

theorem lrange_exact_witness:
  "Store_LRange ''l'' (-2) max_int64 (snd (Store_RPush ''l'' [''a'', ''b'', ''c''] NewStore)) = [''b'', ''c'']"
  using lrange_exact [of "snd (Store_RPush ''l'' [''a'', ''b'', ''c''] NewStore)" "''l''" "-2" max_int64]
  by (simp add: view_simps int64_defs list_slice_def abs_index_def the_list_def no_entry_def
      upto_rec1)

text \<open>Round trip. Popping from the end a value was pushed to returns it and gives back the
  list.\<close>

theorem push_pop:
  assumes "wf_store s"
  shows "fst (Store_LPop k (snd (Store_LPush k [v] s))) = Inr v \<and>
    the_list (view (snd (Store_LPop k (snd (Store_LPush k [v] s)))) k) = the_list (view s k) \<and>
    fst (Store_RPop k (snd (Store_RPush k [v] s))) = Inr v \<and>
    the_list (view (snd (Store_RPop k (snd (Store_RPush k [v] s)))) k) = the_list (view s k)"
  using assms
  by (simp add: Store_LPop_result Store_RPop_result view_simps wf_intros the_list_def some_list_def
      split: option.split)

theorem push_pop_witness: "fst (Store_LPop ''l'' (snd (Store_LPush ''l'' [''x''] NewStore))) = Inr ''x''"
  using push_pop [OF wf_NewStore, of "''l''" "''x''"] by simp

text \<open>C38: Stale deadlines. Popping the last element of a list deletes the list and keeps its
  deadline, which then applies to a list created later under the same key.\<close>

theorem stale_deadline:
  "\<exists>s1 s2. s1 = snd (Store_Expire t k 1 (snd (Store_RPush k [a] NewStore))) \<and>
     s2 = snd (Store_LPop k s1) \<and> \<not> present (view s2 k) \<and>
     live (t + 1) (view (snd (Store_RPush k [b] NewStore)) k) \<and>
     expired (t + 2) (view (snd (Store_RPush k [b] s2)) k)"
  by (simp add: view_simps wf_intros present_def live_def expired_def no_entry_def the_list_def
      some_list_def)

end
