(* ===== verification/Crc32.thy ===== *)
theory Crc32
  imports Prelude
begin

section \<open>The CRC-32 checksum of the write-ahead log (\<open>hash/crc32\<close>, IEEE polynomial)\<close>

text \<open>
  The checksum the log uses: register initialised to all ones, one byte at a time, least
  significant bit first, reflected polynomial \<open>0xEDB88320\<close>, result complemented. The
  facts the log relies on are proved from injectivity of the single-bit step: equal
  registers stay equal and different ones stay different, so a buffer in which exactly one
  byte differs has a different checksum.
\<close>

definition crc_poly :: "32 word" where
  "crc_poly = 0xEDB88320"

definition crc_bit :: "32 word \<Rightarrow> 32 word" where
  "crc_bit c = (if bit c 0 then drop_bit 1 c XOR crc_poly else drop_bit 1 c)"

definition crc_byte :: "8 word \<Rightarrow> 32 word \<Rightarrow> 32 word" where
  "crc_byte b c = (crc_bit ^^ 8) (c XOR ucast b)"

definition crc_update :: "bytes \<Rightarrow> 32 word \<Rightarrow> 32 word" where
  "crc_update bs c = fold crc_byte bs c"

definition crc32 :: "bytes \<Rightarrow> 32 word" where
  "crc32 bs = NOT (crc_update bs (NOT 0))"

text \<open>Evaluation of closed instances, bit by bit, and the check value of the polynomial: the
  checksum of the text 123456789.\<close>

lemma crc_byte_eval:
  "crc_byte b c =
     crc_bit (crc_bit (crc_bit (crc_bit (crc_bit (crc_bit (crc_bit (crc_bit (c XOR ucast b))))))))"
  by (simp add: crc_byte_def eval_nat_numeral)

lemma crc_bit_eval: "crc_bit c = (if bit c 0 then drop_bit 1 c XOR 0xEDB88320 else drop_bit 1 c)"
  by (simp add: crc_bit_def crc_poly_def)

lemmas crc_eval = crc32_def crc_update_def crc_byte_eval crc_bit_eval

lemma crc32_check_value: "crc32 (string_bytes ''123456789'') = 0xCBF43926"
  by (simp add: crc_eval string_bytes_def)

lemma bit_crc_bit_31: "bit (crc_bit c) 31 \<longleftrightarrow> bit c 0"
proof -
  have "bit crc_poly 31" by (simp add: crc_poly_def)
  moreover have "\<not> bit c LENGTH(32)" by (rule not_bit_length)
  then have "\<not> bit (drop_bit 1 c) 31" by (simp add: bit_drop_bit_eq)
  ultimately show ?thesis by (simp add: crc_bit_def bit_xor_iff)
qed

lemma xor_left_cancel: "(c::32 word) XOR a = c XOR b \<Longrightarrow> a = b"
  by (metis xor.assoc xor.left_neutral xor_self_eq)

lemma crc_bit_inj: "crc_bit c = crc_bit d \<Longrightarrow> c = d"
proof (rule bit_word_eqI)
  fix n
  assume eq: "crc_bit c = crc_bit d"
  then have low: "bit c 0 \<longleftrightarrow> bit d 0" using bit_crc_bit_31 by metis
  with eq have rest: "drop_bit 1 c = drop_bit 1 d"
    unfolding crc_bit_def by (metis xor.commute xor_left_cancel)
  show "bit c n \<longleftrightarrow> bit d n"
  proof (cases n)
    case 0
    with low show ?thesis by simp
  next
    case (Suc m)
    then show ?thesis using arg_cong [OF rest, of "\<lambda>w. bit w m"] by (simp add: bit_drop_bit_eq)
  qed
qed

lemma crc_bits_inj: "(crc_bit ^^ n) c = (crc_bit ^^ n) d \<Longrightarrow> c = d"
  by (induction n) (auto dest: crc_bit_inj)

lemma crc_byte_inj_register: "crc_byte b c = crc_byte b d \<Longrightarrow> c = d"
  unfolding crc_byte_def by (metis crc_bits_inj xor.commute xor_left_cancel)

lemma crc_byte_inj_byte: "crc_byte a c = crc_byte b c \<Longrightarrow> a = b"
proof -
  assume "crc_byte a c = crc_byte b c"
  then have "(ucast a :: 32 word) = ucast b"
    unfolding crc_byte_def by (metis crc_bits_inj xor_left_cancel)
  moreover have "unat (ucast x :: 32 word) = unat x" for x :: "8 word"
  proof -
    have "unat x < 2 ^ LENGTH(8)" by (rule unsigned_less)
    then show ?thesis by (simp add: unsigned_ucast_eq take_bit_nat_eq_self_iff)
  qed
  ultimately show ?thesis by (metis word_unat_eq_iff)
qed

lemma crc_update_append: "crc_update (xs @ ys) c = crc_update ys (crc_update xs c)"
  by (simp add: crc_update_def)

lemma crc_update_inj: "crc_update bs c = crc_update bs d \<Longrightarrow> c = d"
  by (induction bs arbitrary: c d) (auto simp: crc_update_def dest: crc_byte_inj_register)

lemma NOT_inj: "NOT (a::32 word) = NOT b \<Longrightarrow> a = b"
  by (metis bit.double_compl)

theorem crc32_detects_byte:
  assumes "i < length bs" and "b \<noteq> bs ! i"
  shows "crc32 (bs[i := b]) \<noteq> crc32 bs"
proof
  assume eq: "crc32 (bs[i := b]) = crc32 bs"
  let ?pre = "take i bs" and ?post = "drop (Suc i) bs"
  let ?c = "crc_update ?pre (NOT 0)"
  have bs: "bs = ?pre @ bs ! i # ?post" using assms(1) by (rule id_take_nth_drop)
  have upd: "bs[i := b] = ?pre @ b # ?post" using assms(1) by (rule upd_conv_take_nth_drop)
  from eq have "crc_update (bs[i := b]) (NOT 0) = crc_update bs (NOT 0)"
    unfolding crc32_def by (rule NOT_inj)
  then have "crc_update (?pre @ b # ?post) (NOT 0) = crc_update (?pre @ bs ! i # ?post) (NOT 0)"
    using bs upd by simp
  then have "crc_update ?post (crc_byte b ?c) = crc_update ?post (crc_byte (bs ! i) ?c)"
    by (simp add: crc_update_append) (simp add: crc_update_def)
  then have "crc_byte b ?c = crc_byte (bs ! i) ?c" by (rule crc_update_inj)
  then have "b = bs ! i" by (rule crc_byte_inj_byte)
  with assms(2) show False by simp
qed

end
