(* ===== verification/Format.thy ===== *)
theory Format
  imports Crc32 Go_Strings
begin

section \<open>The binary record format of the log (wal/format.go)\<close>

text \<open>
  A log entry is \<open>CRC(4) Op(1) KeyLen(2) Key ValLen(4) Value ExpireAt(8)\<close>, big endian, with
  the checksum taken over everything after it. \<open>EncodeRecord\<close> and \<open>DecodeRecord\<close> work on a
  whole entry, \<open>Decode\<close> takes the next entry off a byte stream as the \<open>RecordDecoder\<close> does:
  it reads a 19-byte header, looks up the value length inside that header, and reads the
  rest. The lookup slices the header at \<open>7 + keyLen\<close>, so it is in range for keys of at
  most eight bytes only; the panic of the slice expression is an outcome of the model.
\<close>

subsection \<open>Big-endian integers (\<open>encoding/binary\<close>)\<close>

text \<open>Most significant byte first: \<open>be_put n w\<close> is the last \<open>n\<close> bytes of \<open>w\<close>, \<open>be_get\<close> shifts
  the bytes in from the right.\<close>

fun be_put :: "nat \<Rightarrow> 'a::len word \<Rightarrow> bytes" where
  "be_put 0 w = []"
| "be_put (Suc n) w = be_put n (drop_bit 8 w) @ [ucast w]"

definition be_get :: "bytes \<Rightarrow> 'a::len word" where
  "be_get bs = foldl (\<lambda>a b. push_bit 8 a OR ucast b) 0 bs"

definition PutUint16 :: "16 word \<Rightarrow> bytes" where
  "PutUint16 w = be_put 2 w"

definition PutUint32 :: "32 word \<Rightarrow> bytes" where
  "PutUint32 w = be_put 4 w"

definition PutUint64 :: "64 word \<Rightarrow> bytes" where
  "PutUint64 w = be_put 8 w"

definition Uint16 :: "bytes \<Rightarrow> 16 word" where
  "Uint16 b = be_get (take 2 b)"

definition Uint32 :: "bytes \<Rightarrow> 32 word" where
  "Uint32 b = be_get (take 4 b)"

definition Uint64 :: "bytes \<Rightarrow> 64 word" where
  "Uint64 b = be_get (take 8 b)"

lemma length_be_put [simp]: "length (be_put n w) = n"
  by (induction n arbitrary: w) simp_all

lemma be_get_snoc: "be_get (bs @ [b]) = push_bit 8 (be_get bs) OR ucast b"
  by (simp add: be_get_def)

lemma be_get_be_put: "be_get (be_put n w) = take_bit (8 * n) w"
proof (induction n arbitrary: w)
  case 0
  show ?case by (simp add: be_get_def)
next
  case (Suc n)
  have "push_bit 8 (take_bit (8 * n) (drop_bit 8 w)) OR ucast (ucast w :: 8 word)
      = take_bit (8 * Suc n) w"
    by (rule bit_word_eqI) (auto simp: bit_simps)
  with Suc show ?case by (simp add: be_get_snoc)
qed

lemma be_get_bound: "take_bit (8 * length bs) (be_get bs) = be_get bs"
proof (induction bs rule: rev_induct)
  case Nil
  show ?case by (simp add: be_get_def)
next
  case (snoc b bs)
  have "bit (be_get bs :: 'a word) n \<Longrightarrow> n < 8 * length bs" for n
    by (metis bit_take_bit_iff snoc)
  moreover have "bit b n \<Longrightarrow> n < 8" for n
    by (metis bit_imp_le_length len_num0 len_bit0 len_num1 mult_2 numeral_Bit0 numeral_One)
  ultimately show ?case unfolding be_get_snoc
    by (intro bit_word_eqI) (force simp: bit_simps)
qed

lemma be_put_be_get:
  "8 * length bs \<le> LENGTH('a) \<Longrightarrow> be_put (length bs) (be_get bs :: 'a::len word) = bs"
proof (induction bs rule: rev_induct)
  case (snoc b bs)
  have small: "bit (be_get bs :: 'a word) n \<Longrightarrow> n < 8 * length bs" for n
    by (metis bit_take_bit_iff be_get_bound)
  have b8: "bit b n \<Longrightarrow> n < 8" for n
    by (metis bit_imp_le_length len_num0 len_bit0 len_num1 mult_2 numeral_Bit0 numeral_One)
  have "drop_bit 8 (push_bit 8 (be_get bs) OR ucast b) = (be_get bs :: 'a word)"
    by (rule bit_word_eqI) (use small b8 snoc.prems in \<open>force simp: bit_simps\<close>)
  moreover have "ucast (push_bit 8 (be_get bs :: 'a word) OR ucast b) = b"
    by (rule bit_word_eqI) (use snoc.prems in \<open>auto simp: bit_simps\<close>)
  ultimately show ?case using snoc by (simp add: be_get_snoc)
qed simp

lemma length_Put [simp]:
  "length (PutUint16 h) = 2" "length (PutUint32 w) = 4" "length (PutUint64 d) = 8"
  by (simp_all add: PutUint16_def PutUint32_def PutUint64_def)

lemma take_PutUint32:
  "take 2 (PutUint32 w) = [ucast (drop_bit 8 (drop_bit 8 (drop_bit 8 w))), ucast (drop_bit 8 (drop_bit 8 w))]"
  by (simp add: PutUint32_def numeral_eq_Suc)

lemma take_bit_full [simp]: "take_bit LENGTH('a) (w :: 'a::len word) = w"
  by (rule bit_word_eqI) (simp add: bit_simps)

lemma Uint_Put [simp]:
  "Uint16 (PutUint16 h @ r) = h" "Uint32 (PutUint32 w @ r) = w" "Uint64 (PutUint64 d @ r) = d"
  using take_bit_full [of h] take_bit_full [of w] take_bit_full [of d]
  by (simp_all add: Uint16_def PutUint16_def Uint32_def PutUint32_def Uint64_def PutUint64_def
      be_get_be_put del: take_bit_full)

lemma Uint32_inj: "length a = 4 \<Longrightarrow> length b = 4 \<Longrightarrow> Uint32 a = Uint32 b \<Longrightarrow> a = b"
  unfolding Uint32_def
  using be_put_be_get [of a, where 'a = 32] be_put_be_get [of b, where 'a = 32] by simp

subsection \<open>Records\<close>

definition OpSet :: "8 word" where "OpSet = 0x01"
definition OpDel :: "8 word" where "OpDel = 0x02"
definition OpIncr :: "8 word" where "OpIncr = 0x03"
definition OpDecr :: "8 word" where "OpDecr = 0x04"
definition OpFlush :: "8 word" where "OpFlush = 0x05"
definition OpLPush :: "8 word" where "OpLPush = 0x06"
definition OpRPush :: "8 word" where "OpRPush = 0x07"
definition OpLPop :: "8 word" where "OpLPop = 0x08"
definition OpRPop :: "8 word" where "OpRPop = 0x09"
definition OpSAdd :: "8 word" where "OpSAdd = 0x0A"
definition OpSRem :: "8 word" where "OpSRem = 0x0B"
definition OpSPop :: "8 word" where "OpSPop = 0x0C"
definition OpHSet :: "8 word" where "OpHSet = 0x0D"
definition OpHDel :: "8 word" where "OpHDel = 0x0E"

lemmas op_defs =
  OpSet_def OpDel_def OpIncr_def OpDecr_def OpFlush_def OpLPush_def OpRPush_def OpLPop_def
  OpRPop_def OpSAdd_def OpSRem_def OpSPop_def OpHSet_def OpHDel_def

definition entryHeaderSize :: nat where
  "entryHeaderSize = 4 + 1 + 2 + 4 + 8"

record Record =
  Op :: "8 word"
  Key :: string
  Value :: string
  ExpireAt :: "64 word"

definition NUL :: char where
  "NUL = CHR 0x00"

definition MakeRecord :: "8 word \<Rightarrow> string list \<Rightarrow> Record" where
  "MakeRecord op args =
     (let r = \<lparr>Op = op, Key = '''', Value = '''', ExpireAt = 0\<rparr>
      in if op = OpSet then
           (if length args \<ge> 2 then r\<lparr>Key := args ! 0, Value := args ! 1\<rparr> else r)
         else if op \<in> {OpDel, OpIncr, OpDecr, OpLPop, OpRPop, OpSPop} then
           (if length args \<ge> 1 then r\<lparr>Key := args ! 0\<rparr> else r)
         else if op \<in> {OpLPush, OpRPush} then
           (if length args \<ge> 2 then r\<lparr>Key := args ! 0, Value := args ! 1\<rparr> else r)
         else if op \<in> {OpSAdd, OpSRem} then
           (if length args \<ge> 2 then r\<lparr>Key := args ! 0, Value := args ! 1\<rparr> else r)
         else if op = OpHSet then
           (if length args \<ge> 3
            then r\<lparr>Key := args ! 0, Value := [NUL] @ args ! 1 @ [NUL] @ args ! 2\<rparr> else r)
         else if op = OpHDel then
           (if length args \<ge> 2 then r\<lparr>Key := args ! 0, Value := args ! 1\<rparr> else r)
         else r)"

definition HashFieldAndValue :: "Record \<Rightarrow> string \<times> string" where
  "HashFieldAndValue r =
     (if Op r \<noteq> OpHSet then ('''', '''')
      else let parts = SplitN (Value r) NUL 3
           in if length parts < 3 then ('''', '''') else (parts ! 1, parts ! 2))"

definition Record_Args :: "Record \<Rightarrow> string list" where
  "Record_Args r =
     (if Op r = OpSet then [Key r, Value r]
      else if Op r \<in> {OpDel, OpIncr, OpDecr} then [Key r]
      else if Op r = OpFlush then []
      else if Op r = OpHSet then (case HashFieldAndValue r of (field, val) \<Rightarrow> [Key r, field, val])
      else if Op r = OpHDel then [Key r, Value r]
      else [Key r, Value r])"

text \<open>A field without a zero byte survives the encoding of a hash entry; with one, the field
  is cut there.\<close>

lemma SplitN_hash:
  "NUL \<notin> set f \<Longrightarrow> SplitN ([NUL] @ f @ [NUL] @ v) NUL 3 = ['''', f, v]"
  using SplitN_hit [of NUL "[]" "f @ [NUL] @ v" 1] SplitN_hit [of NUL f v 0]
  by (simp add: eval_nat_numeral)

lemma HashFieldAndValue_MakeRecord:
  "NUL \<notin> set f \<Longrightarrow> HashFieldAndValue (MakeRecord OpHSet [k, f, v]) = (f, v)"
  using SplitN_hash [of f v] by (simp add: HashFieldAndValue_def MakeRecord_def op_defs)

subsection \<open>Whole entries\<close>

definition record_payload :: "Record \<Rightarrow> bytes" where
  "record_payload r =
     [Op r] @ PutUint16 (of_nat (length (Key r))) @ string_bytes (Key r) @
     PutUint32 (of_nat (length (Value r))) @ string_bytes (Value r) @ PutUint64 (ExpireAt r)"

definition EncodeRecord :: "Record \<Rightarrow> bytes" where
  "EncodeRecord r = PutUint32 (crc32 (record_payload r)) @ record_payload r"

definition DecodeRecord :: "bytes \<Rightarrow> go_error + Record" where
  "DecodeRecord data =
     (if length data < entryHeaderSize then Inl ErrShortEntry
      else if Uint32 data \<noteq> crc32 (drop 4 data) then Inl ErrChecksumMismatch
      else
        let op = data ! 4;
            keyLen = unat (Uint16 (drop 5 data));
            offset1 = 7
        in if offset1 + keyLen > length data then Inl ErrShortEntry
           else
             let key = bytes_string (take keyLen (drop offset1 data));
                 offset2 = offset1 + keyLen
             in if offset2 + 4 > length data then Inl ErrShortEntry
                else
                  let valLen = unat (Uint32 (drop offset2 data));
                      offset3 = offset2 + 4
                  in if offset3 + valLen > length data then Inl ErrShortEntry
                     else
                       let val = bytes_string (take valLen (drop offset3 data));
                           offset4 = offset3 + valLen
                       in if offset4 + 8 > length data then Inl ErrShortEntry
                          else Inr \<lparr>Op = op, Key = key, Value = val,
                                    ExpireAt = Uint64 (drop offset4 data)\<rparr>)"

lemma length_record_payload:
  "length (record_payload r) = 15 + length (Key r) + length (Value r)"
  by (simp add: record_payload_def)

lemma length_EncodeRecord [simp]:
  "length (EncodeRecord r) = entryHeaderSize + length (Key r) + length (Value r)"
  by (simp add: EncodeRecord_def length_record_payload entryHeaderSize_def)

definition encodable :: "Record \<Rightarrow> bool" where
  "encodable r \<longleftrightarrow> length (Key r) < 2 ^ 16 \<and> length (Value r) < 2 ^ 32"

lemma unat_of_nat_fits: "n < 2 ^ LENGTH('a) \<Longrightarrow> unat (of_nat n :: 'a::len word) = n"
  by (simp add: unat_of_nat take_bit_nat_eq_self_iff)

lemma DecodeRecord_Encode:
  assumes "encodable r"
  shows "DecodeRecord (EncodeRecord r) = Inr r"
proof -
  let ?k = "string_bytes (Key r)" and ?v = "string_bytes (Value r)"
  let ?kl = "PutUint16 (of_nat (length (Key r)))" and ?vl = "PutUint32 (of_nat (length (Value r)))"
  let ?crc = "PutUint32 (crc32 (record_payload r))" and ?ex = "PutUint64 (ExpireAt r)"
  have enc: "EncodeRecord r = ?crc @ [Op r] @ ?kl @ ?k @ ?vl @ ?v @ ?ex"
    by (simp add: EncodeRecord_def record_payload_def)
  have lens: "unat (of_nat (length (Key r)) :: 16 word) = length (Key r)"
    "unat (of_nat (length (Value r)) :: 32 word) = length (Value r)"
    using assms by (simp_all add: encodable_def unat_of_nat_fits)
  have d4: "drop 4 (EncodeRecord r) = record_payload r" by (simp add: EncodeRecord_def)
  have op: "EncodeRecord r ! 4 = Op r" by (simp add: enc nth_append)
  have d5: "drop 5 (EncodeRecord r) = ?kl @ ?k @ ?vl @ ?v @ ?ex" by (simp add: enc)
  have d7: "drop 7 (EncodeRecord r) = ?k @ ?vl @ ?v @ ?ex" by (simp add: enc)
  have dv: "drop (7 + length (Key r)) (EncodeRecord r) = ?vl @ ?v @ ?ex"
    unfolding add.commute [of 7] drop_drop [symmetric] d7 by simp
  have dw: "drop (7 + length (Key r) + 4) (EncodeRecord r) = ?v @ ?ex"
    by (metis add.commute append_eq_conv_conj drop_drop dv length_Put(2))
  have dx: "drop (7 + length (Key r) + 4 + length (Value r)) (EncodeRecord r) = ?ex @ []"
    by (metis add.commute append_Nil2 append_eq_conv_conj drop_drop dw length_string_bytes)
  have crc: "Uint32 (EncodeRecord r) = crc32 (record_payload r)" by (simp add: EncodeRecord_def)
  show ?thesis
    unfolding DecodeRecord_def d4 d5 d7 op crc Let_def Uint_Put lens dv dw dx
    by (simp add: entryHeaderSize_def)
qed

text \<open>Changing one byte of an entry is detected, whichever byte it is.\<close>

lemma DecodeRecord_one_byte:
  assumes "i < length (EncodeRecord r)" and "b \<noteq> EncodeRecord r ! i"
  shows "DecodeRecord ((EncodeRecord r)[i := b]) = Inl ErrChecksumMismatch"
proof -
  let ?d = "EncodeRecord r"
  let ?d' = "?d[i := b]"
  have crc: "Uint32 ?d = crc32 (drop 4 ?d)" by (simp add: EncodeRecord_def)
  have "Uint32 ?d' \<noteq> crc32 (drop 4 ?d')"
  proof (cases "i < 4")
    case True
    then have same: "drop 4 ?d' = drop 4 ?d" by simp
    have "take 4 ?d' \<noteq> take 4 ?d"
      using True assms by (metis nth_list_update_eq nth_take)
    then have "Uint32 (take 4 ?d') \<noteq> Uint32 (take 4 ?d)"
      using Uint32_inj [of "take 4 ?d'" "take 4 ?d"] by (auto simp: entryHeaderSize_def)
    then show ?thesis using crc by (simp add: same Uint32_def)
  next
    case False
    then have same: "Uint32 ?d' = Uint32 ?d" by (simp add: Uint32_def)
    have "drop 4 ?d' = (drop 4 ?d)[i - 4 := b]" using False by (simp add: drop_update_swap)
    moreover have "crc32 ((drop 4 ?d)[i - 4 := b]) \<noteq> crc32 (drop 4 ?d)"
      using False assms by (intro crc32_detects_byte) (auto simp: entryHeaderSize_def)
    ultimately show ?thesis using crc by (simp add: same)
  qed
  then show ?thesis by (simp add: DecodeRecord_def)
qed

subsection \<open>The stream decoder\<close>

text \<open>\<open>io.ReadFull\<close> on a reader that delivers \<open>input\<close> and then the error \<open>fin\<close>, \<open>io.EOF\<close> at the end of
  a file and another one when the disk fails: all of the bytes asked for, or an error, which for
  the end of the file says whether any bytes were there.\<close>

definition ReadFull :: "go_error \<Rightarrow> nat \<Rightarrow> bytes \<Rightarrow> (go_error + bytes) \<times> bytes" where
  "ReadFull fin n input =
     (if n \<le> length input then (Inr (take n input), drop n input)
      else if input \<noteq> [] \<and> fin = ErrEOF then (Inl ErrUnexpectedEOF, [])
      else (Inl fin, []))"

text \<open>A slice expression \<open>xs[lo:hi]\<close>: out of range it panics.\<close>

definition slice :: "'a list \<Rightarrow> nat \<Rightarrow> nat \<Rightarrow> 'a list option" where
  "slice xs lo hi = (if lo \<le> hi \<and> hi \<le> length xs then Some (take (hi - lo) (drop lo xs)) else None)"

definition Decode :: "go_error \<Rightarrow> bytes \<Rightarrow> Record outcome \<times> bytes" where
  "Decode fin input =
     (case ReadFull fin entryHeaderSize input of
        (Inl err, rest) \<Rightarrow> (Err err, rest)
      | (Inr header, rest) \<Rightarrow>
          (case slice header 5 7 of
             None \<Rightarrow> (Panic, rest)
           | Some kl \<Rightarrow>
               let keyLen = unat (Uint16 kl)
               in case slice header (7 + keyLen) (11 + keyLen) of
                    None \<Rightarrow> (Panic, rest)
                  | Some vl \<Rightarrow>
                      let valLen = unat (Uint32 vl)
                      in case ReadFull fin (keyLen + valLen) rest of
                           (Inl err, rest') \<Rightarrow> (Err err, rest')
                         | (Inr body, rest') \<Rightarrow>
                             (case DecodeRecord (header @ body) of
                                Inl err \<Rightarrow> (Err err, rest')
                              | Inr r \<Rightarrow> (Ok r, rest'))))"

lemma Decode_consumes: "fst (Decode fin input) = Ok r \<Longrightarrow> length (snd (Decode fin input)) < length input"
  by (auto simp: Decode_def ReadFull_def entryHeaderSize_def Let_def
      split: prod.splits sum.splits option.splits if_splits)

lemma Decode_empty [simp]: "Decode fin [] = (Err fin, [])"
  by (simp add: Decode_def ReadFull_def entryHeaderSize_def)

text \<open>A disk error is never taken for the end of the log.\<close>

lemma DecodeRecord_not_EOF: "DecodeRecord data \<noteq> Inl ErrEOF"
  by (simp add: DecodeRecord_def Let_def)

lemma Decode_not_EOF: "fin \<noteq> ErrEOF \<Longrightarrow> fst (Decode fin input) \<noteq> Err ErrEOF"
  by (auto simp: Decode_def ReadFull_def Let_def DecodeRecord_not_EOF
      split: prod.splits sum.splits option.splits if_splits)

text \<open>The key length of an entry, as the decoder reads it in the header.\<close>

lemma header_key_length:
  assumes "length (Key r) < 2 ^ 16"
  shows "slice (take entryHeaderSize (EncodeRecord r @ rest)) 5 7
      = Some (PutUint16 (of_nat (length (Key r))))"
    and "unat (Uint16 (PutUint16 (of_nat (length (Key r))))) = length (Key r)"
proof -
  let ?d = "EncodeRecord r @ rest"
  have "take 2 (drop 5 ?d) = PutUint16 (of_nat (length (Key r)))"
    by (simp add: EncodeRecord_def record_payload_def)
  then show "slice (take entryHeaderSize ?d) 5 7 = Some (PutUint16 (of_nat (length (Key r))))"
    by (simp add: slice_def entryHeaderSize_def drop_take)
  show "unat (Uint16 (PutUint16 (of_nat (length (Key r))))) = length (Key r)"
    using Uint_Put(1) [of _ "[]"] assms by (simp add: unat_of_nat_fits)
qed

lemma header_value_length:
  assumes "length (Key r) \<le> 8" and "length (Value r) < 2 ^ 32"
  shows "slice (take entryHeaderSize (EncodeRecord r)) (7 + length (Key r)) (11 + length (Key r))
      = Some (PutUint32 (of_nat (length (Value r))))"
    and "unat (Uint32 (PutUint32 (of_nat (length (Value r))))) = length (Value r)"
proof -
  let ?k = "length (Key r)" and ?v = "length (Value r)" and ?h = "take entryHeaderSize (EncodeRecord r)"
  have "take 4 (drop (7 + ?k) (EncodeRecord r)) = PutUint32 (of_nat ?v)"
  proof -
    have "drop 7 (EncodeRecord r) = string_bytes (Key r) @ PutUint32 (of_nat ?v) @
        string_bytes (Value r) @ PutUint64 (ExpireAt r)"
      by (simp add: EncodeRecord_def record_payload_def)
    then show ?thesis unfolding add.commute [of 7] drop_drop [symmetric] by simp
  qed
  moreover have "take 4 (drop (7 + ?k) ?h) = take 4 (drop (7 + ?k) (EncodeRecord r))"
    using assms(1) by (simp add: drop_take entryHeaderSize_def min_def)
  moreover have "length ?h = 19" by (simp add: entryHeaderSize_def)
  ultimately show "slice ?h (7 + ?k) (11 + ?k) = Some (PutUint32 (of_nat ?v))"
    using assms(1) by (simp only: slice_def) simp
  show "unat (Uint32 (PutUint32 (of_nat ?v))) = ?v"
    using Uint_Put(2) [of _ "[]"] assms(2) by (simp add: unat_of_nat_fits)
qed

lemma Decode_EncodeRecord:
  assumes "length (Key r) \<le> 8" and "length (Value r) < 2 ^ 32"
  shows "Decode fin (EncodeRecord r @ rest) = (Ok r, rest)"
proof -
  let ?k = "length (Key r)" and ?v = "length (Value r)"
  let ?d = "EncodeRecord r @ rest" and ?h = "take entryHeaderSize (EncodeRecord r)"
  have h: "take entryHeaderSize ?d = ?h" by simp
  have kl: "slice ?h 5 7 = Some (PutUint16 (of_nat ?k))"
    and ku: "unat (Uint16 (PutUint16 (of_nat ?k))) = ?k"
    using header_key_length(1) [of r rest] header_key_length(2) [of r] assms(1) h by simp_all
  note vl = header_value_length [OF assms]
  have rest: "drop entryHeaderSize ?d = drop entryHeaderSize (EncodeRecord r) @ rest" by simp
  have body: "length (drop entryHeaderSize (EncodeRecord r)) = ?k + ?v" by simp
  have "encodable r" using assms by (simp add: encodable_def)
  then have "DecodeRecord (?h @ drop entryHeaderSize (EncodeRecord r)) = Inr r"
    by (simp add: DecodeRecord_Encode)
  then show ?thesis
    by (simp add: Decode_def ReadFull_def h kl ku vl rest body)
qed

text \<open>An entry that was cut: the decoder reports an unexpected end of input, unless the cut is
  exactly behind the header, where the missing body looks like the end of the log.\<close>

lemma Decode_cut:
  assumes "length (Key r) \<le> 8" and "length (Value r) < 2 ^ 32"
    and "0 < n" and "n < length (EncodeRecord r)"
  shows "fst (Decode ErrEOF (take n (EncodeRecord r)))
    = Err (if n = entryHeaderSize then ErrEOF else ErrUnexpectedEOF)"
proof (cases "n < entryHeaderSize")
  case True
  have "length (take n (EncodeRecord r)) = n" using assms(4) by simp
  then have "take n (EncodeRecord r) \<noteq> []" using assms(3) by fastforce
  with True assms(4) show ?thesis by (simp add: Decode_def ReadFull_def)
next
  case False
  let ?d = "take n (EncodeRecord r)" and ?k = "length (Key r)" and ?v = "length (Value r)"
  have h: "take entryHeaderSize ?d = take entryHeaderSize (EncodeRecord r)" using False by simp
  have kl: "slice (take entryHeaderSize (EncodeRecord r)) 5 7 = Some (PutUint16 (of_nat ?k))"
    and ku: "unat (Uint16 (PutUint16 (of_nat ?k))) = ?k"
    using header_key_length(1) [of r "[]"] header_key_length(2) [of r] assms(1) by simp_all
  note vl = header_value_length [OF assms(1,2)]
  have "length (drop entryHeaderSize ?d) = n - entryHeaderSize" "n - entryHeaderSize < ?k + ?v"
    using assms(4) False by simp_all
  then show ?thesis
    using False assms(4) by (auto simp: Decode_def ReadFull_def h kl ku vl)
qed

text \<open>A key of more than eight bytes puts the value length outside the header: the slice
  expression of the decoder panics on an entry the encoder wrote.\<close>

lemma Decode_long_key:
  assumes "8 < length (Key r)" and "length (Key r) < 2 ^ 16"
  shows "fst (Decode fin (EncodeRecord r @ rest)) = Panic"
proof -
  let ?k = "length (Key r)" and ?h = "take entryHeaderSize (EncodeRecord r @ rest)"
  have kl: "slice ?h 5 7 = Some (PutUint16 (of_nat ?k))"
    and ku: "unat (Uint16 (PutUint16 (of_nat ?k))) = ?k"
    using header_key_length [OF assms(2)] by simp_all
  have "slice ?h (7 + ?k) (11 + ?k) = None"
    using assms(1) by (simp add: slice_def entryHeaderSize_def)
  then show ?thesis using kl ku by (simp add: Decode_def ReadFull_def)
qed

subsection \<open>Properties\<close>

text \<open>C16: Round trip. Decoding the encoding of a record whose key and value fit their length
  fields gives the record back.\<close>

theorem record_roundtrip:
  assumes "encodable r"
  shows "DecodeRecord (EncodeRecord r) = Inr r"
  by (rule DecodeRecord_Encode [OF assms])

theorem record_roundtrip_witness:
  "DecodeRecord (EncodeRecord (MakeRecord OpHSet [''user:1000'', ''name'', ''Ada''])) =
     Inr (MakeRecord OpHSet [''user:1000'', ''name'', ''Ada''])"
  by (rule record_roundtrip) (simp add: encodable_def MakeRecord_def op_defs)

text \<open>C15: Corruption. An entry with any one of its bytes changed, checksum included, is refused
  with a checksum error.\<close>

theorem corruption_detected:
  assumes "i < length (EncodeRecord r)" and "b \<noteq> EncodeRecord r ! i"
  shows "DecodeRecord ((EncodeRecord r)[i := b]) = Inl ErrChecksumMismatch"
  by (rule DecodeRecord_one_byte [OF assms])

theorem corruption_detected_witness:
  "DecodeRecord ((EncodeRecord (MakeRecord OpDel [''k'']))[4 := OpSet]) = Inl ErrChecksumMismatch"
  by (rule corruption_detected)
    (simp_all add: entryHeaderSize_def EncodeRecord_def record_payload_def nth_append MakeRecord_def
      op_defs)

text \<open>The stream decoder panics on every entry the encoder writes for a key of more than eight
  bytes: it reads the value length from a fixed 19-byte header that no longer contains it.\<close>

theorem long_key_panics:
  assumes "8 < length (Key r)" and "length (Key r) < 2 ^ 16"
  shows "fst (Decode fin (EncodeRecord r @ rest)) = Panic"
  by (rule Decode_long_key [OF assms])

theorem long_key_panics_witness:
  "fst (Decode ErrEOF (EncodeRecord (MakeRecord OpSet [''user:1000'', ''v'']) @ [])) = Panic"
  by (rule long_key_panics) (simp_all add: MakeRecord_def op_defs)

end
