(* ===== verification/Wal.thy ===== *)
theory Wal
  imports Format Go_World
begin

section \<open>The write-ahead log: segments, flusher, replay, compaction (wal/wal.go)\<close>

text \<open>
  The operating system side of the world is a directory: segment files with their contents
  and the length that is known to be on disk, and the manifest file. Every system call that
  can fail draws its result from the fault schedule of the world: \<open>None\<close> is success, \<open>Some n\<close>
  an error, after \<open>n\<close> bytes where the call writes. An exhausted schedule means no further
  faults. The manifest is kept as the list its JSON text stands for; a truncated or
  half-written manifest is \<open>BadManifest\<close>.

  The flusher goroutine takes a batch of pending entries off the channel, encodes them into
  the current segment, syncs once, rotates when the segment is full and sends every waiting
  writer the same result. \<open>flush_batch\<close> is that loop body; a writer alone in its batch is
  \<open>WAL_Write\<close>. The theory \<open>Writers\<close> lets the goroutines that write and the flusher interleave.
\<close>

subsection \<open>The directory\<close>

record segment_file =
  content :: bytes
  synced :: nat

datatype manifest_file = NoManifest | BadManifest | Manifest "string list"

record os_world = world +
  files :: "(string, segment_file) fmap"
  manifest :: manifest_file
  faults :: "nat option list"

definition os_call :: "(os_world, nat option) state" where
  "os_call = State (\<lambda>w.
     (case faults w of [] \<Rightarrow> None | f # _ \<Rightarrow> f, w\<lparr>faults := tl (faults w)\<rparr>))"

definition append_file :: "string \<Rightarrow> bytes \<Rightarrow> os_world \<Rightarrow> os_world" where
  \<comment> \<open>writes through the handle of a removed file reach no file of the directory\<close>
  "append_file name bs w =
     (case fmlookup (files w) name of
        None \<Rightarrow> w
      | Some f \<Rightarrow> w\<lparr>files := fmupd name (f\<lparr>content := content f @ bs\<rparr>) (files w)\<rparr>)"

definition sync_file :: "string \<Rightarrow> os_world \<Rightarrow> os_world" where
  "sync_file name w =
     (case fmlookup (files w) name of
        None \<Rightarrow> w
      | Some f \<Rightarrow> w\<lparr>files := fmupd name (f\<lparr>synced := length (content f)\<rparr>) (files w)\<rparr>)"

definition create_file :: "string \<Rightarrow> os_world \<Rightarrow> os_world" where
  \<comment> \<open>\<open>O_CREATE\<close> without \<open>O_TRUNC\<close>\<close>
  "create_file name w =
     (case fmlookup (files w) name of
        None \<Rightarrow> w\<lparr>files := fmupd name \<lparr>content = [], synced = 0\<rparr> (files w)\<rparr>
      | Some f \<Rightarrow> w)"

text \<open>Opening a segment for reading: the bytes a reader gets to see and the error that ends them, the
  end of the file or a read error in the middle.\<close>

definition open_read :: "string \<Rightarrow> (os_world, go_error + go_error \<times> bytes) state" where
  "open_read name = do {
     f \<leftarrow> os_call;
     w \<leftarrow> State_Monad.get;
     (case fmlookup (files w) name of
        None \<Rightarrow> ret (Inl (if f = None then ErrNotExist else ErrOS))
      | Some file \<Rightarrow>
          if f \<noteq> None then ret (Inl ErrOS)
          else do {
            g \<leftarrow> os_call;
            ret (Inr (case g of
                        None \<Rightarrow> (ErrEOF, content file)
                      | Some n \<Rightarrow> (ErrOS, take n (content file))))
          })
   }"

definition readManifest :: "(os_world, go_error + string list) state" where
  "readManifest = do {
     f \<leftarrow> os_call;
     w \<leftarrow> State_Monad.get;
     ret (case manifest w of
            NoManifest \<Rightarrow> Inl (if f = None then ErrNotExist else ErrOS)
          | BadManifest \<Rightarrow> if f = None then Inl ErrJSON else Inl ErrOS
          | Manifest segs \<Rightarrow> if f = None then Inr segs else Inl ErrOS)
   }"

definition writeManifestFile :: "string list \<Rightarrow> (os_world, go_error option) state" where
  "writeManifestFile segs = do {
     f \<leftarrow> os_call;
     (if f \<noteq> None then ret (Some ErrOS)
      else do {
        modify (\<lambda>w. w\<lparr>manifest := BadManifest\<rparr>);
        g \<leftarrow> os_call;
        (if g \<noteq> None then ret (Some ErrOS)
         else do { modify (\<lambda>w. w\<lparr>manifest := Manifest segs\<rparr>); ret None })
      })
   }"

subsection \<open>The log\<close>

record WAL =
  wal_file :: "(string \<times> bool) option"   \<comment> \<open>name of the current segment, and whether it is open\<close>
  seq :: int
  maxSize :: int
  currentSz :: int

type_synonym wal_state = "WAL \<times> os_world"

definition upd_wal :: "(WAL \<Rightarrow> WAL) \<Rightarrow> (wal_state, unit) state" where
  "upd_wal f = modify (\<lambda>(l, w). (f l, w))"

definition get_wal :: "(wal_state, WAL) state" where
  "get_wal = State (\<lambda>(l, w). (l, (l, w)))"

definition segName :: "int \<Rightarrow> string" where
  "segName n = zero_pad8 n @ ''.wal''"

definition writeManifest :: "(wal_state, go_error option) state" where
  "writeManifest = do {
     m \<leftarrow> on_world readManifest;
     l \<leftarrow> get_wal;
     (case m of
        Inl err \<Rightarrow>
          if err \<noteq> ErrNotExist then ret (Some err)
          else on_world (writeManifestFile [segName (seq l)])
      | Inr segs \<Rightarrow>
          on_world (writeManifestFile
            (if segName (seq l) \<in> set segs then segs else segs @ [segName (seq l)])))
   }"

definition close_file :: "WAL \<Rightarrow> WAL" where
  "close_file l = l\<lparr>wal_file := map_option (\<lambda>(n, _). (n, False)) (wal_file l)\<rparr>"

definition rotate :: "(wal_state, go_error option) state" where
  "rotate = do {
     upd_wal close_file;
     upd_wal (\<lambda>l. l\<lparr>seq := wrap64 (seq l + 1)\<rparr>);
     l \<leftarrow> get_wal;
     f \<leftarrow> on_world os_call;
     (if f \<noteq> None then ret (Some ErrOS)
      else do {
        on_world (modify (create_file (segName (seq l))));
        upd_wal (\<lambda>l. l\<lparr>wal_file := Some (segName (seq l), True), currentSz := 0\<rparr>);
        writeManifest
      })
   }"

text \<open>\<open>filepath.Base\<close>, and the number \<open>strconv.Atoi\<close> returns beside its error: zero for
  a malformed literal, the nearest 64-bit value for one that is too large.\<close>

definition filepath_Base :: "string \<Rightarrow> string" where
  "filepath_Base p =
     (if p = [] then ''.''
      else let q = rev (dropWhile (\<lambda>c. c = CHR ''/'') (rev p))
           in if q = [] then ''/'' else rev (takeWhile (\<lambda>c. c \<noteq> CHR ''/'') (rev q)))"

fun scan_uint :: "nat \<Rightarrow> string \<Rightarrow> nat option" where
  "scan_uint n [] = Some n"
| "scan_uint n (c # cs) =
     (if \<not> is_digit c then None
      else let n' = 10 * n + digit_val c
           in if n' \<ge> 2 ^ 64 then Some (2 ^ 64 - 1) else scan_uint n' cs)"

definition Atoi_value :: "string \<Rightarrow> int" where
  "Atoi_value s =
     (case scan_sign s of
        (neg, r) \<Rightarrow>
          if r = [] then 0
          else case scan_uint 0 r of
                 None \<Rightarrow> 0
               | Some n \<Rightarrow> if neg then max min_int64 (- int n) else min max_int64 (int n))"

definition first_segment :: "int \<Rightarrow> (os_world, go_error + WAL) state" where
  \<comment> \<open>the branch of \<open>NewWAL\<close> for a directory without segments\<close>
  "first_segment msz = State (\<lambda>w.
     case run_state rotate (\<lparr>wal_file = None, seq = 0, maxSize = msz, currentSz = 0\<rparr>, w) of
       (r, l, w') \<Rightarrow> (case r of Some e \<Rightarrow> (Inl e, w') | None \<Rightarrow> (Inr l, w')))"

definition NewWAL :: "int \<Rightarrow> (os_world, go_error + WAL) state" where
  "NewWAL maxSizeMB = do {
     d \<leftarrow> os_call;
     (if d \<noteq> None then ret (Inl ErrOS)
      else do {
        m \<leftarrow> readManifest;
        (case m of
           Inl err \<Rightarrow>
             if err \<noteq> ErrNotExist then ret (Inl err)
             else first_segment (wrap64 (maxSizeMB * 1024 * 1024))
         | Inr segs \<Rightarrow>
             if segs = [] then first_segment (wrap64 (maxSizeMB * 1024 * 1024))
             else
               let lastSeg = last segs;
                   n = Atoi_value (TrimSuffix (filepath_Base lastSeg) ''.wal'')
               in do {
                 f \<leftarrow> os_call;
                 w \<leftarrow> State_Monad.get;
                 (case fmlookup (files w) lastSeg of
                    None \<Rightarrow> ret (Inl (if f = None then ErrNotExist else ErrOS))
                  | Some file \<Rightarrow>
                      if f \<noteq> None then ret (Inl ErrOS)
                      else do {
                        g \<leftarrow> os_call;
                        ret (if g \<noteq> None then Inl ErrOS
                             else Inr \<lparr>wal_file = Some (lastSeg, True), seq = n,
                                       maxSize = wrap64 (maxSizeMB * 1024 * 1024),
                                       currentSz = int (length (content file))\<rparr>)
                      })
               })
      })
   }"

subsection \<open>Writing\<close>

definition opToCode :: "string \<Rightarrow> 8 word" where
  "opToCode op =
     (if op = ''SET'' then OpSet
      else if op = ''DEL'' then OpDel
      else if op = ''INCR'' then OpIncr
      else if op = ''DECR'' then OpDecr
      else if op = ''FLUSHALL'' then OpFlush
      else if op = ''LPUSH'' then OpLPush
      else if op = ''RPUSH'' then OpRPush
      else if op = ''LPOP'' then OpLPop
      else if op = ''RPOP'' then OpRPop
      else if op = ''SADD'' then OpSAdd
      else if op = ''SREM'' then OpSRem
      else if op = ''SPOP'' then OpSPop
      else if op = ''HSET'' then OpHSet
      else if op = ''HDEL'' then OpHDel
      else OpSet)"

text \<open>\<open>RecordEncoder.Encode\<close>: one write of the whole entry to the current segment.\<close>

definition Encode :: "Record \<Rightarrow> (wal_state, go_error + nat) state" where
  "Encode r = do {
     l \<leftarrow> get_wal;
     (case wal_file l of
        Some (name, True) \<Rightarrow> do {
          f \<leftarrow> on_world os_call;
          (case f of
             None \<Rightarrow> do {
               on_world (modify (append_file name (EncodeRecord r)));
               ret (Inr (length (EncodeRecord r)))
             }
           | Some n \<Rightarrow> do {
               on_world (modify (append_file name (take n (EncodeRecord r))));
               ret (Inl ErrOS)
             })
        }
      | _ \<Rightarrow> ret (Inl ErrOS))
   }"

fun encode_batch :: "Record list \<Rightarrow> nat \<Rightarrow> (wal_state, go_error option \<times> nat) state" where
  "encode_batch [] written = ret (None, written)"
| "encode_batch (r # rs) written = do {
     e \<leftarrow> Encode r;
     (case e of
        Inl err \<Rightarrow> ret (Some err, written)
      | Inr n \<Rightarrow> encode_batch rs (written + n))
   }"

definition WAL_Sync :: "(wal_state, go_error option) state" where
  "WAL_Sync = do {
     l \<leftarrow> get_wal;
     (case wal_file l of
        Some (name, True) \<Rightarrow> do {
          f \<leftarrow> on_world os_call;
          (if f \<noteq> None then ret (Some ErrOS)
           else do { on_world (modify (sync_file name)); ret None })
        }
      | _ \<Rightarrow> ret (Some ErrOS))
   }"

definition flush_batch :: "Record list \<Rightarrow> (wal_state, go_error option) state" where
  "flush_batch batch = do {
     (writeErr, totalWritten) \<leftarrow> encode_batch batch 0;
     syncErr \<leftarrow> (if writeErr = None then WAL_Sync else ret None);
     upd_wal (\<lambda>l. l\<lparr>currentSz := wrap64 (currentSz l + int totalWritten)\<rparr>);
     l \<leftarrow> get_wal;
     writeErr' \<leftarrow>
       (if maxSize l > 0 \<and> currentSz l \<ge> maxSize l
        then do {
          e \<leftarrow> rotate;
          ret (if writeErr = None then e else writeErr)
        }
        else ret writeErr);
     ret (if writeErr' \<noteq> None then writeErr' else syncErr)
   }"

definition WAL_Write :: "string \<Rightarrow> string list \<Rightarrow> (wal_state, go_error option) state" where
  "WAL_Write op args = flush_batch [MakeRecord (opToCode op) args]"

definition WAL_Close :: "(wal_state, go_error option) state" where
  "WAL_Close = do { upd_wal close_file; writeManifest }"

subsection \<open>Replay\<close>

text \<open>The interface replay drives (Go's \<open>Replayer\<close>): the methods as a table of functions.\<close>

record 's Replayer =
  rSet :: "string \<Rightarrow> string \<Rightarrow> ('s, go_error option) state"
  rDel :: "string \<Rightarrow> ('s, go_error option) state"
  rIncr :: "string \<Rightarrow> ('s, go_error + int) state"
  rDecr :: "string \<Rightarrow> ('s, go_error + int) state"
  rFlushAll :: "('s, unit) state"
  rLPush :: "string \<Rightarrow> string list \<Rightarrow> ('s, nat) state"
  rRPush :: "string \<Rightarrow> string list \<Rightarrow> ('s, nat) state"
  rLPop :: "string \<Rightarrow> ('s, go_error + string) state"
  rRPop :: "string \<Rightarrow> ('s, go_error + string) state"
  rSAdd :: "string \<Rightarrow> string list \<Rightarrow> ('s, nat) state"
  rSRem :: "string \<Rightarrow> string list \<Rightarrow> ('s, nat) state"
  rSPop :: "string \<Rightarrow> ('s, go_error + string) state"
  rHSet :: "string \<Rightarrow> string \<Rightarrow> string \<Rightarrow> ('s, nat) state"
  rHDel :: "string \<Rightarrow> string list \<Rightarrow> ('s, nat) state"

definition discard :: "('s, 'a) state \<Rightarrow> ('s, unit) state" where
  "discard m = do { m; ret () }"

definition replayRecord :: "'s Replayer \<Rightarrow> Record \<Rightarrow> ('s, unit) state" where
  "replayRecord eng r =
     (if Op r = OpSet then discard (rSet eng (Key r) (Value r))
      else if Op r = OpDel then discard (rDel eng (Key r))
      else if Op r = OpIncr then discard (rIncr eng (Key r))
      else if Op r = OpDecr then discard (rDecr eng (Key r))
      else if Op r = OpFlush then rFlushAll eng
      else if Op r = OpLPush then discard (rLPush eng (Key r) [Value r])
      else if Op r = OpRPush then discard (rRPush eng (Key r) [Value r])
      else if Op r = OpLPop then discard (rLPop eng (Key r))
      else if Op r = OpRPop then discard (rRPop eng (Key r))
      else if Op r = OpSAdd then discard (rSAdd eng (Key r) [Value r])
      else if Op r = OpSRem then discard (rSRem eng (Key r) [Value r])
      else if Op r = OpSPop then discard (rSPop eng (Key r))
      else if Op r = OpHSet then
        (case HashFieldAndValue r of (field, val) \<Rightarrow> discard (rHSet eng (Key r) field val))
      else if Op r = OpHDel then discard (rHDel eng (Key r) [Value r])
      else ret ())"

function replay_loop :: "'s Replayer \<Rightarrow> go_error \<Rightarrow> bytes \<Rightarrow> ('s, unit outcome) state" where
  "replay_loop eng fin input =
     (case Decode fin input of
        (Ok r, rest) \<Rightarrow> do { replayRecord eng r; replay_loop eng fin rest }
      | (Err e, rest) \<Rightarrow> ret (if e = ErrEOF then Ok () else Err e)
      | (Panic, rest) \<Rightarrow> ret Panic)"
  by pat_completeness auto
termination
proof (relation "measure (length \<circ> snd \<circ> snd)", goal_cases)
  case 1
  show ?case by simp
next
  case (2 eng fin input)
  then show ?case by (metis Decode_consumes comp_apply fst_conv in_measure snd_conv)
qed

declare replay_loop.simps [simp del]

definition replaySegment ::
    "('s \<times> os_world) Replayer \<Rightarrow> string \<Rightarrow> ('s \<times> os_world, unit outcome) state" where
  "replaySegment eng seg = do {
     f \<leftarrow> on_world (open_read seg);
     (case f of
        Inl err \<Rightarrow> ret (Err err)
      | Inr (fin, input) \<Rightarrow> replay_loop eng fin input)
   }"

fun replay_segments ::
    "('s \<times> os_world) Replayer \<Rightarrow> string list \<Rightarrow> ('s \<times> os_world, unit outcome) state" where
  "replay_segments eng [] = ret (Ok ())"
| "replay_segments eng (seg # segs) = do {
     r \<leftarrow> replaySegment eng seg;
     (case r of
        Ok _ \<Rightarrow> replay_segments eng segs
      | Err e \<Rightarrow> ret (Err e)
      | Panic \<Rightarrow> ret Panic)
   }"

definition Replay :: "('s \<times> os_world) Replayer \<Rightarrow> ('s \<times> os_world, unit outcome) state" where
  "Replay eng = do {
     m \<leftarrow> on_world readManifest;
     (case m of
        Inl err \<Rightarrow> ret (if err = ErrNotExist then Ok () else Err err)
      | Inr segs \<Rightarrow> replay_segments eng segs)
   }"

subsection \<open>Compaction\<close>

definition compact_record :: "Record \<Rightarrow> (string, Record) fmap \<Rightarrow> (string, Record) fmap" where
  "compact_record r latest =
     (if Op r = OpDel \<or> Op r = OpFlush then fmdrop (Key r) latest else fmupd (Key r) r latest)"

function compact_scan :: "go_error \<Rightarrow> bytes \<Rightarrow> (string, Record) fmap \<Rightarrow> (string, Record) fmap outcome" where
  "compact_scan fin input latest =
     (case Decode fin input of
        (Ok r, rest) \<Rightarrow> compact_scan fin rest (compact_record r latest)
      | (Err e, rest) \<Rightarrow> if e = ErrEOF then Ok latest else Err e
      | (Panic, rest) \<Rightarrow> Panic)"
  by pat_completeness auto
termination
proof (relation "measure (length \<circ> fst \<circ> snd)", goal_cases)
  case (2 fin input latest)
  then show ?case by (metis Decode_consumes comp_apply fst_conv in_measure snd_conv)
qed simp

declare compact_scan.simps [simp del]

fun compact_read ::
    "string list \<Rightarrow> (string, Record) fmap \<Rightarrow> (os_world, (string, Record) fmap outcome) state" where
  "compact_read [] latest = ret (Ok latest)"
| "compact_read (seg # segs) latest = do {
     f \<leftarrow> open_read seg;
     (case f of
        Inl err \<Rightarrow> ret (Err err)
      | Inr (fin, input) \<Rightarrow>
          (case compact_scan fin input latest of
             Ok latest' \<Rightarrow> compact_read segs latest'
           | Err e \<Rightarrow> ret (Err e)
           | Panic \<Rightarrow> ret Panic))
   }"

fun compact_write :: "string \<Rightarrow> Record list \<Rightarrow> (os_world, go_error option) state" where
  "compact_write name [] = ret None"
| "compact_write name (r # rs) = do {
     f \<leftarrow> os_call;
     (case f of
        None \<Rightarrow> do { modify (append_file name (EncodeRecord r)); compact_write name rs }
      | Some n \<Rightarrow> do { modify (append_file name (take n (EncodeRecord r))); ret (Some ErrOS) })
   }"

fun remove_files :: "string list \<Rightarrow> (os_world, unit) state" where
  "remove_files [] = ret ()"
| "remove_files (seg # segs) = do {
     f \<leftarrow> os_call;
     (if f = None then modify (\<lambda>w. w\<lparr>files := fmdrop seg (files w)\<rparr>) else ret ());
     remove_files segs
   }"

definition Compact :: "(wal_state, unit outcome) state" where
  "Compact = do {
     m \<leftarrow> on_world readManifest;
     l \<leftarrow> get_wal;
     (case m of
        Inl err \<Rightarrow> ret (Err err)
      | Inr segs \<Rightarrow>
          if length segs \<le> 1 then ret (Ok ())
          else do {
            c \<leftarrow> on_world (compact_read segs fmempty);
            (case c of
               Err e \<Rightarrow> ret (Err e)
             | Panic \<Rightarrow> ret Panic
             | Ok latest \<Rightarrow>
                 let compactedSeg = segName (wrap64 (seq l + 1))
                 in do {
                   f \<leftarrow> on_world os_call;
                   (if f \<noteq> None then ret (Err ErrOS)
                    else do {
                      on_world (modify (\<lambda>w. w\<lparr>files :=
                        fmupd compactedSeg \<lparr>content = [], synced = 0\<rparr> (files w)\<rparr>));
                      e \<leftarrow> on_world (compact_write compactedSeg
                             (map (\<lambda>k. the (fmlookup latest k)) (map_keys latest)));
                      (case e of
                         Some err \<Rightarrow> ret (Err err)
                       | None \<Rightarrow> do {
                           g \<leftarrow> on_world os_call;
                           (if g = None then on_world (modify (sync_file compactedSeg)) else ret ());
                           on_world (remove_files segs);
                           h \<leftarrow> on_world (writeManifestFile [compactedSeg]);
                           ret (case h of None \<Rightarrow> Ok () | Some err \<Rightarrow> Err err)
                         })
                    })
                 })
          })
   }"

end
