(* ===== verification/Engine.thy ===== *)
theory Engine
  imports Store_Spec Wal
begin

section \<open>Storage engines (engine/engine.go, engine/memory.go, engine/wal_engine.go)\<close>

text \<open>
  Go's \<open>StorageEngine\<close> interface is a record of methods over an engine state; a value of it
  is what the command handler holds. \<open>MemoryEngine\<close> forwards to the store and draws clock
  readings, iteration orders and random numbers from the world. \<open>WALEngine\<close> writes to the
  log before or after it forwards to its memory engine, in the order of the source, and
  handles a failed log write as the source does: \<open>Set\<close>, \<open>Del\<close>, \<open>Incr\<close> and \<open>Decr\<close> give up,
  the others log the error and go on.
\<close>

subsection \<open>The interface\<close>

record 's StorageEngine =
  eGet :: "string \<Rightarrow> ('s, go_error + string) state"
  eSet :: "string \<Rightarrow> string \<Rightarrow> ('s, go_error option) state"
  eDel :: "string \<Rightarrow> ('s, go_error option) state"
  eExists :: "string \<Rightarrow> ('s, bool) state"
  eIncr :: "string \<Rightarrow> ('s, go_error + int) state"
  eDecr :: "string \<Rightarrow> ('s, go_error + int) state"
  eExpire :: "string \<Rightarrow> int \<Rightarrow> ('s, go_error option) state"
  eTTL :: "string \<Rightarrow> ('s, int) state"
  ePersist :: "string \<Rightarrow> ('s, go_error option) state"
  eKeys :: "string \<Rightarrow> ('s, string list) state"
  eFlushAll :: "('s, unit) state"
  eSize :: "('s, nat) state"
  eLPush :: "string \<Rightarrow> string list \<Rightarrow> ('s, nat) state"
  eRPush :: "string \<Rightarrow> string list \<Rightarrow> ('s, nat) state"
  eLPop :: "string \<Rightarrow> ('s, go_error + string) state"
  eRPop :: "string \<Rightarrow> ('s, go_error + string) state"
  eLLen :: "string \<Rightarrow> ('s, nat) state"
  eLRange :: "string \<Rightarrow> int \<Rightarrow> int \<Rightarrow> ('s, string list) state"
  eLIndex :: "string \<Rightarrow> int \<Rightarrow> ('s, go_error + string) state"
  eSAdd :: "string \<Rightarrow> string list \<Rightarrow> ('s, nat) state"
  eSRem :: "string \<Rightarrow> string list \<Rightarrow> ('s, nat) state"
  eSMembers :: "string \<Rightarrow> ('s, string list) state"
  eSIsMember :: "string \<Rightarrow> string \<Rightarrow> ('s, bool) state"
  eSCard :: "string \<Rightarrow> ('s, nat) state"
  eSPop :: "string \<Rightarrow> ('s, go_error + string) state"
  eSRandMember :: "string \<Rightarrow> ('s, go_error + string) state"
  eHSet :: "string \<Rightarrow> string \<Rightarrow> string \<Rightarrow> ('s, nat) state"
  eHGet :: "string \<Rightarrow> string \<Rightarrow> ('s, go_error + string) state"
  eHDel :: "string \<Rightarrow> string list \<Rightarrow> ('s, nat) state"
  eHGetAll :: "string \<Rightarrow> ('s, string list) state"
  eHKeys :: "string \<Rightarrow> ('s, string list) state"
  eHVals :: "string \<Rightarrow> ('s, string list) state"
  eHExists :: "string \<Rightarrow> string \<Rightarrow> ('s, bool) state"
  eHLen :: "string \<Rightarrow> ('s, nat) state"
  eHMSet :: "string \<Rightarrow> (string, string) fmap \<Rightarrow> ('s, unit) state"
  eHMGet :: "string \<Rightarrow> string list \<Rightarrow> ('s, string list) state"

subsection \<open>The memory engine\<close>

record MemoryEngine =
  store :: Store

type_synonym 'w mem_state = "MemoryEngine \<times> 'w world_scheme"

definition NewMemoryEngine :: MemoryEngine where
  "NewMemoryEngine = \<lparr>store = NewStore\<rparr>"

text \<open>Calling a store method: one that changes the store and returns a result, one that only
  changes it, one that only reads.\<close>

definition call :: "(Store \<Rightarrow> 'r \<times> Store) \<Rightarrow> ('w mem_state, 'r) state" where
  "call f = State (\<lambda>(e, w). case f (store e) of (r, s) \<Rightarrow> (r, (e\<lparr>store := s\<rparr>, w)))"

definition exec :: "(Store \<Rightarrow> Store) \<Rightarrow> ('w mem_state, unit) state" where
  "exec f = State (\<lambda>(e, w). ((), (e\<lparr>store := f (store e)\<rparr>, w)))"

definition query :: "(Store \<Rightarrow> 'r) \<Rightarrow> ('w mem_state, 'r) state" where
  "query f = State (\<lambda>(e, w). (f (store e), (e, w)))"

definition MemoryEngine_Set :: "string \<Rightarrow> string \<Rightarrow> ('w mem_state, go_error option) state" where
  "MemoryEngine_Set key val = do { exec (Store_Set key val); ret None }"

definition MemoryEngine_Get :: "string \<Rightarrow> ('w mem_state, go_error + string) state" where
  "MemoryEngine_Get key = do { t \<leftarrow> on_world time_Now; call (Store_Get t key) }"

definition MemoryEngine_Del :: "string \<Rightarrow> ('w mem_state, go_error option) state" where
  "MemoryEngine_Del key = call (Store_Del key)"

definition MemoryEngine_Exists :: "string \<Rightarrow> ('w mem_state, bool) state" where
  "MemoryEngine_Exists key = do { t \<leftarrow> on_world time_Now; t2 \<leftarrow> on_world time_Now; call (Store_Exists t t2 key) }"

definition MemoryEngine_Incr :: "string \<Rightarrow> ('w mem_state, go_error + int) state" where
  "MemoryEngine_Incr key = call (Store_Incr key)"

definition MemoryEngine_Decr :: "string \<Rightarrow> ('w mem_state, go_error + int) state" where
  "MemoryEngine_Decr key = call (Store_Decr key)"

definition MemoryEngine_Expire :: "string \<Rightarrow> int \<Rightarrow> ('w mem_state, go_error option) state" where
  "MemoryEngine_Expire key ttl = do { t \<leftarrow> on_world time_Now; call (Store_Expire t key ttl) }"

definition MemoryEngine_TTL :: "string \<Rightarrow> ('w mem_state, int) state" where
  "MemoryEngine_TTL key = do { t \<leftarrow> on_world time_Now; query (Store_TTL t key) }"

definition MemoryEngine_Persist :: "string \<Rightarrow> ('w mem_state, go_error option) state" where
  "MemoryEngine_Persist key = call (Store_Persist key)"

definition MemoryEngine_Keys :: "string \<Rightarrow> ('w mem_state, string list) state" where
  "MemoryEngine_Keys pattern = do {
     t \<leftarrow> on_world time_Now;
     ord \<leftarrow> on_world (range_orders (4 * numShards));
     query (Store_Keys ord t pattern)
   }"

definition MemoryEngine_FlushAll :: "('w mem_state, unit) state" where
  "MemoryEngine_FlushAll = exec Store_FlushAll"

definition MemoryEngine_Size :: "('w mem_state, nat) state" where
  "MemoryEngine_Size = query Store_Size"

definition MemoryEngine_LPush :: "string \<Rightarrow> string list \<Rightarrow> ('w mem_state, nat) state" where
  "MemoryEngine_LPush key vals = call (Store_LPush key vals)"

definition MemoryEngine_RPush :: "string \<Rightarrow> string list \<Rightarrow> ('w mem_state, nat) state" where
  "MemoryEngine_RPush key vals = call (Store_RPush key vals)"

definition MemoryEngine_LPop :: "string \<Rightarrow> ('w mem_state, go_error + string) state" where
  "MemoryEngine_LPop key = call (Store_LPop key)"

definition MemoryEngine_RPop :: "string \<Rightarrow> ('w mem_state, go_error + string) state" where
  "MemoryEngine_RPop key = call (Store_RPop key)"

definition MemoryEngine_LLen :: "string \<Rightarrow> ('w mem_state, nat) state" where
  "MemoryEngine_LLen key = query (Store_LLen key)"

definition MemoryEngine_LRange :: "string \<Rightarrow> int \<Rightarrow> int \<Rightarrow> ('w mem_state, string list) state" where
  "MemoryEngine_LRange key start stop = query (Store_LRange key start stop)"

definition MemoryEngine_LIndex :: "string \<Rightarrow> int \<Rightarrow> ('w mem_state, go_error + string) state" where
  "MemoryEngine_LIndex key index = query (Store_LIndex key index)"

definition MemoryEngine_SAdd :: "string \<Rightarrow> string list \<Rightarrow> ('w mem_state, nat) state" where
  "MemoryEngine_SAdd key members = call (Store_SAdd key members)"

definition MemoryEngine_SRem :: "string \<Rightarrow> string list \<Rightarrow> ('w mem_state, nat) state" where
  "MemoryEngine_SRem key members = call (Store_SRem key members)"

definition MemoryEngine_SMembers :: "string \<Rightarrow> ('w mem_state, string list) state" where
  "MemoryEngine_SMembers key = do { ord \<leftarrow> on_world range_order; query (Store_SMembers ord key) }"

definition MemoryEngine_SIsMember :: "string \<Rightarrow> string \<Rightarrow> ('w mem_state, bool) state" where
  "MemoryEngine_SIsMember key member = query (Store_SIsMember key member)"

definition MemoryEngine_SCard :: "string \<Rightarrow> ('w mem_state, nat) state" where
  "MemoryEngine_SCard key = query (Store_SCard key)"

definition MemoryEngine_SPop :: "string \<Rightarrow> ('w mem_state, go_error + string) state" where
  "MemoryEngine_SPop key = do { ord \<leftarrow> on_world range_order; call (Store_SPop ord key) }"

definition MemoryEngine_SRandMember :: "string \<Rightarrow> ('w mem_state, go_error + string) state" where
  "MemoryEngine_SRandMember key = do {
     r \<leftarrow> on_world rand_draw;
     ord \<leftarrow> on_world range_order;
     query (Store_SRandMember r ord key)
   }"

definition MemoryEngine_HSet :: "string \<Rightarrow> string \<Rightarrow> string \<Rightarrow> ('w mem_state, nat) state" where
  "MemoryEngine_HSet key field val = call (Store_HSet key field val)"

definition MemoryEngine_HGet :: "string \<Rightarrow> string \<Rightarrow> ('w mem_state, go_error + string) state" where
  "MemoryEngine_HGet key field = query (Store_HGet key field)"

definition MemoryEngine_HDel :: "string \<Rightarrow> string list \<Rightarrow> ('w mem_state, nat) state" where
  "MemoryEngine_HDel key fs = call (Store_HDel key fs)"

definition MemoryEngine_HGetAll :: "string \<Rightarrow> ('w mem_state, string list) state" where
  "MemoryEngine_HGetAll key = do { ord \<leftarrow> on_world range_order; query (Store_HGetAll ord key) }"

definition MemoryEngine_HKeys :: "string \<Rightarrow> ('w mem_state, string list) state" where
  "MemoryEngine_HKeys key = do { ord \<leftarrow> on_world range_order; query (Store_HKeys ord key) }"

definition MemoryEngine_HVals :: "string \<Rightarrow> ('w mem_state, string list) state" where
  "MemoryEngine_HVals key = do { ord \<leftarrow> on_world range_order; query (Store_HVals ord key) }"

definition MemoryEngine_HExists :: "string \<Rightarrow> string \<Rightarrow> ('w mem_state, bool) state" where
  "MemoryEngine_HExists key field = query (Store_HExists key field)"

definition MemoryEngine_HLen :: "string \<Rightarrow> ('w mem_state, nat) state" where
  "MemoryEngine_HLen key = query (Store_HLen key)"

definition MemoryEngine_HMSet :: "string \<Rightarrow> (string, string) fmap \<Rightarrow> ('w mem_state, unit) state" where
  "MemoryEngine_HMSet key fs = do { ord \<leftarrow> on_world range_order; exec (Store_HMSet ord key fs) }"

definition MemoryEngine_HMGet :: "string \<Rightarrow> string list \<Rightarrow> ('w mem_state, string list) state" where
  "MemoryEngine_HMGet key fs = query (Store_HMGet key fs)"

definition MemoryEngine_methods :: "'w mem_state StorageEngine" where
  "MemoryEngine_methods =
     \<lparr>eGet = MemoryEngine_Get,
      eSet = MemoryEngine_Set,
      eDel = MemoryEngine_Del,
      eExists = MemoryEngine_Exists,
      eIncr = MemoryEngine_Incr,
      eDecr = MemoryEngine_Decr,
      eExpire = MemoryEngine_Expire,
      eTTL = MemoryEngine_TTL,
      ePersist = MemoryEngine_Persist,
      eKeys = MemoryEngine_Keys,
      eFlushAll = MemoryEngine_FlushAll,
      eSize = MemoryEngine_Size,
      eLPush = MemoryEngine_LPush,
      eRPush = MemoryEngine_RPush,
      eLPop = MemoryEngine_LPop,
      eRPop = MemoryEngine_RPop,
      eLLen = MemoryEngine_LLen,
      eLRange = MemoryEngine_LRange,
      eLIndex = MemoryEngine_LIndex,
      eSAdd = MemoryEngine_SAdd,
      eSRem = MemoryEngine_SRem,
      eSMembers = MemoryEngine_SMembers,
      eSIsMember = MemoryEngine_SIsMember,
      eSCard = MemoryEngine_SCard,
      eSPop = MemoryEngine_SPop,
      eSRandMember = MemoryEngine_SRandMember,
      eHSet = MemoryEngine_HSet,
      eHGet = MemoryEngine_HGet,
      eHDel = MemoryEngine_HDel,
      eHGetAll = MemoryEngine_HGetAll,
      eHKeys = MemoryEngine_HKeys,
      eHVals = MemoryEngine_HVals,
      eHExists = MemoryEngine_HExists,
      eHLen = MemoryEngine_HLen,
      eHMSet = MemoryEngine_HMSet,
      eHMGet = MemoryEngine_HMGet\<rparr>"

lemmas mem_method_defs [engine_defs] =
  MemoryEngine_Get_def MemoryEngine_Set_def MemoryEngine_Del_def MemoryEngine_Exists_def MemoryEngine_Incr_def MemoryEngine_Decr_def MemoryEngine_Expire_def MemoryEngine_TTL_def MemoryEngine_Persist_def MemoryEngine_Keys_def MemoryEngine_FlushAll_def MemoryEngine_Size_def MemoryEngine_LPush_def MemoryEngine_RPush_def MemoryEngine_LPop_def MemoryEngine_RPop_def MemoryEngine_LLen_def MemoryEngine_LRange_def MemoryEngine_LIndex_def MemoryEngine_SAdd_def MemoryEngine_SRem_def MemoryEngine_SMembers_def MemoryEngine_SIsMember_def MemoryEngine_SCard_def MemoryEngine_SPop_def MemoryEngine_SRandMember_def MemoryEngine_HSet_def MemoryEngine_HGet_def MemoryEngine_HDel_def MemoryEngine_HGetAll_def MemoryEngine_HKeys_def MemoryEngine_HVals_def MemoryEngine_HExists_def MemoryEngine_HLen_def MemoryEngine_HMSet_def MemoryEngine_HMGet_def

subsection \<open>The logging engine\<close>

record WALEngine =
  mem :: MemoryEngine
  wal :: WAL

type_synonym wal_engine_state = "WALEngine \<times> os_world"

definition on_mem :: "(MemoryEngine \<times> os_world, 'a) state \<Rightarrow> (wal_engine_state, 'a) state" where
  "on_mem m = on_part (\<lambda>(e, w). (mem e, w)) (\<lambda>(m, w) (e, _). (e\<lparr>mem := m\<rparr>, w)) m"

definition on_wal :: "(wal_state, 'a) state \<Rightarrow> (wal_engine_state, 'a) state" where
  "on_wal m = on_part (\<lambda>(e, w). (wal e, w)) (\<lambda>(l, w) (e, _). (e\<lparr>wal := l\<rparr>, w)) m"

text \<open>A log write whose error is only reported to the log of the server.\<close>

definition log_write :: "string \<Rightarrow> string list \<Rightarrow> (wal_engine_state, unit) state" where
  "log_write op args = discard (on_wal (WAL_Write op args))"

definition WALEngine_Set :: "string \<Rightarrow> string \<Rightarrow> (wal_engine_state, go_error option) state" where
  "WALEngine_Set key val = do {
     err \<leftarrow> on_wal (WAL_Write ''SET'' [key, val]);
     (case err of Some e \<Rightarrow> ret (Some e) | None \<Rightarrow> on_mem (MemoryEngine_Set key val))
   }"

definition WALEngine_Get :: "string \<Rightarrow> (wal_engine_state, go_error + string) state" where
  "WALEngine_Get key = on_mem (MemoryEngine_Get key)"

definition WALEngine_Del :: "string \<Rightarrow> (wal_engine_state, go_error option) state" where
  "WALEngine_Del key = do {
     err \<leftarrow> on_wal (WAL_Write ''DEL'' [key]);
     (case err of Some e \<Rightarrow> ret (Some e) | None \<Rightarrow> on_mem (MemoryEngine_Del key))
   }"

definition WALEngine_Exists :: "string \<Rightarrow> (wal_engine_state, bool) state" where
  "WALEngine_Exists key = on_mem (MemoryEngine_Exists key)"

definition WALEngine_Incr :: "string \<Rightarrow> (wal_engine_state, go_error + int) state" where
  "WALEngine_Incr key = do {
     err \<leftarrow> on_wal (WAL_Write ''INCR'' [key]);
     (case err of Some e \<Rightarrow> ret (Inl e) | None \<Rightarrow> on_mem (MemoryEngine_Incr key))
   }"

definition WALEngine_Decr :: "string \<Rightarrow> (wal_engine_state, go_error + int) state" where
  "WALEngine_Decr key = do {
     err \<leftarrow> on_wal (WAL_Write ''DECR'' [key]);
     (case err of Some e \<Rightarrow> ret (Inl e) | None \<Rightarrow> on_mem (MemoryEngine_Decr key))
   }"

definition WALEngine_Expire :: "string \<Rightarrow> int \<Rightarrow> (wal_engine_state, go_error option) state" where
  "WALEngine_Expire key ttl = on_mem (MemoryEngine_Expire key ttl)"

definition WALEngine_TTL :: "string \<Rightarrow> (wal_engine_state, int) state" where
  "WALEngine_TTL key = on_mem (MemoryEngine_TTL key)"

definition WALEngine_Persist :: "string \<Rightarrow> (wal_engine_state, go_error option) state" where
  "WALEngine_Persist key = on_mem (MemoryEngine_Persist key)"

definition WALEngine_Keys :: "string \<Rightarrow> (wal_engine_state, string list) state" where
  "WALEngine_Keys pattern = on_mem (MemoryEngine_Keys pattern)"

definition WALEngine_FlushAll :: "(wal_engine_state, unit) state" where
  "WALEngine_FlushAll = do { log_write ''FLUSHALL'' []; on_mem MemoryEngine_FlushAll }"

definition WALEngine_Size :: "(wal_engine_state, nat) state" where
  "WALEngine_Size = on_mem MemoryEngine_Size"

definition WALEngine_LPush :: "string \<Rightarrow> string list \<Rightarrow> (wal_engine_state, nat) state" where
  "WALEngine_LPush key vals = do {
     for_each vals (\<lambda>v. log_write ''LPUSH'' [key, v]);
     on_mem (MemoryEngine_LPush key vals)
   }"

definition WALEngine_RPush :: "string \<Rightarrow> string list \<Rightarrow> (wal_engine_state, nat) state" where
  "WALEngine_RPush key vals = do {
     for_each vals (\<lambda>v. log_write ''RPUSH'' [key, v]);
     on_mem (MemoryEngine_RPush key vals)
   }"

definition WALEngine_LPop :: "string \<Rightarrow> (wal_engine_state, go_error + string) state" where
  "WALEngine_LPop key = do {
     r \<leftarrow> on_mem (MemoryEngine_LPop key);
     (case r of
        Inl err \<Rightarrow> ret (Inl err)
      | Inr val \<Rightarrow> do { log_write ''LPOP'' [key]; ret (Inr val) })
   }"

definition WALEngine_RPop :: "string \<Rightarrow> (wal_engine_state, go_error + string) state" where
  "WALEngine_RPop key = do {
     r \<leftarrow> on_mem (MemoryEngine_RPop key);
     (case r of
        Inl err \<Rightarrow> ret (Inl err)
      | Inr val \<Rightarrow> do { log_write ''RPOP'' [key]; ret (Inr val) })
   }"

definition WALEngine_LLen :: "string \<Rightarrow> (wal_engine_state, nat) state" where
  "WALEngine_LLen key = on_mem (MemoryEngine_LLen key)"

definition WALEngine_LRange :: "string \<Rightarrow> int \<Rightarrow> int \<Rightarrow> (wal_engine_state, string list) state" where
  "WALEngine_LRange key start stop = on_mem (MemoryEngine_LRange key start stop)"

definition WALEngine_LIndex :: "string \<Rightarrow> int \<Rightarrow> (wal_engine_state, go_error + string) state" where
  "WALEngine_LIndex key index = on_mem (MemoryEngine_LIndex key index)"

definition WALEngine_SAdd :: "string \<Rightarrow> string list \<Rightarrow> (wal_engine_state, nat) state" where
  "WALEngine_SAdd key members = do {
     for_each members (\<lambda>m. log_write ''SADD'' [key, m]);
     on_mem (MemoryEngine_SAdd key members)
   }"

definition WALEngine_SRem :: "string \<Rightarrow> string list \<Rightarrow> (wal_engine_state, nat) state" where
  "WALEngine_SRem key members = do {
     for_each members (\<lambda>m. log_write ''SREM'' [key, m]);
     on_mem (MemoryEngine_SRem key members)
   }"

definition WALEngine_SMembers :: "string \<Rightarrow> (wal_engine_state, string list) state" where
  "WALEngine_SMembers key = on_mem (MemoryEngine_SMembers key)"

definition WALEngine_SIsMember :: "string \<Rightarrow> string \<Rightarrow> (wal_engine_state, bool) state" where
  "WALEngine_SIsMember key member = on_mem (MemoryEngine_SIsMember key member)"

definition WALEngine_SCard :: "string \<Rightarrow> (wal_engine_state, nat) state" where
  "WALEngine_SCard key = on_mem (MemoryEngine_SCard key)"

definition WALEngine_SPop :: "string \<Rightarrow> (wal_engine_state, go_error + string) state" where
  "WALEngine_SPop key = do {
     r \<leftarrow> on_mem (MemoryEngine_SPop key);
     (case r of
        Inl err \<Rightarrow> ret (Inl err)
      | Inr val \<Rightarrow> do { log_write ''SPOP'' [key]; ret (Inr val) })
   }"

definition WALEngine_SRandMember :: "string \<Rightarrow> (wal_engine_state, go_error + string) state" where
  "WALEngine_SRandMember key = on_mem (MemoryEngine_SRandMember key)"

definition WALEngine_HSet :: "string \<Rightarrow> string \<Rightarrow> string \<Rightarrow> (wal_engine_state, nat) state" where
  "WALEngine_HSet key field val = do {
     log_write ''HSET'' [key, field, val];
     on_mem (MemoryEngine_HSet key field val)
   }"

definition WALEngine_HGet :: "string \<Rightarrow> string \<Rightarrow> (wal_engine_state, go_error + string) state" where
  "WALEngine_HGet key field = on_mem (MemoryEngine_HGet key field)"

definition WALEngine_HDel :: "string \<Rightarrow> string list \<Rightarrow> (wal_engine_state, nat) state" where
  "WALEngine_HDel key fs = do {
     for_each fs (\<lambda>f. log_write ''HDEL'' [key, f]);
     on_mem (MemoryEngine_HDel key fs)
   }"

definition WALEngine_HGetAll :: "string \<Rightarrow> (wal_engine_state, string list) state" where
  "WALEngine_HGetAll key = on_mem (MemoryEngine_HGetAll key)"

definition WALEngine_HKeys :: "string \<Rightarrow> (wal_engine_state, string list) state" where
  "WALEngine_HKeys key = on_mem (MemoryEngine_HKeys key)"

definition WALEngine_HVals :: "string \<Rightarrow> (wal_engine_state, string list) state" where
  "WALEngine_HVals key = on_mem (MemoryEngine_HVals key)"

definition WALEngine_HExists :: "string \<Rightarrow> string \<Rightarrow> (wal_engine_state, bool) state" where
  "WALEngine_HExists key field = on_mem (MemoryEngine_HExists key field)"

definition WALEngine_HLen :: "string \<Rightarrow> (wal_engine_state, nat) state" where
  "WALEngine_HLen key = on_mem (MemoryEngine_HLen key)"

definition WALEngine_HMSet :: "string \<Rightarrow> (string, string) fmap \<Rightarrow> (wal_engine_state, unit) state" where
  "WALEngine_HMSet key fs = do {
     ord \<leftarrow> on_world range_order;
     for_each (go_order ord (map_keys fs))
       (\<lambda>f. log_write ''HSET'' [key, f, the (fmlookup fs f)]);
     on_mem (MemoryEngine_HMSet key fs)
   }"

definition WALEngine_HMGet :: "string \<Rightarrow> string list \<Rightarrow> (wal_engine_state, string list) state" where
  "WALEngine_HMGet key fs = on_mem (MemoryEngine_HMGet key fs)"

definition WALEngine_methods :: "wal_engine_state StorageEngine" where
  "WALEngine_methods =
     \<lparr>eGet = WALEngine_Get,
      eSet = WALEngine_Set,
      eDel = WALEngine_Del,
      eExists = WALEngine_Exists,
      eIncr = WALEngine_Incr,
      eDecr = WALEngine_Decr,
      eExpire = WALEngine_Expire,
      eTTL = WALEngine_TTL,
      ePersist = WALEngine_Persist,
      eKeys = WALEngine_Keys,
      eFlushAll = WALEngine_FlushAll,
      eSize = WALEngine_Size,
      eLPush = WALEngine_LPush,
      eRPush = WALEngine_RPush,
      eLPop = WALEngine_LPop,
      eRPop = WALEngine_RPop,
      eLLen = WALEngine_LLen,
      eLRange = WALEngine_LRange,
      eLIndex = WALEngine_LIndex,
      eSAdd = WALEngine_SAdd,
      eSRem = WALEngine_SRem,
      eSMembers = WALEngine_SMembers,
      eSIsMember = WALEngine_SIsMember,
      eSCard = WALEngine_SCard,
      eSPop = WALEngine_SPop,
      eSRandMember = WALEngine_SRandMember,
      eHSet = WALEngine_HSet,
      eHGet = WALEngine_HGet,
      eHDel = WALEngine_HDel,
      eHGetAll = WALEngine_HGetAll,
      eHKeys = WALEngine_HKeys,
      eHVals = WALEngine_HVals,
      eHExists = WALEngine_HExists,
      eHLen = WALEngine_HLen,
      eHMSet = WALEngine_HMSet,
      eHMGet = WALEngine_HMGet\<rparr>"

lemmas wal_method_defs [engine_defs] =
  WALEngine_Get_def WALEngine_Set_def WALEngine_Del_def WALEngine_Exists_def WALEngine_Incr_def WALEngine_Decr_def WALEngine_Expire_def WALEngine_TTL_def WALEngine_Persist_def WALEngine_Keys_def WALEngine_FlushAll_def WALEngine_Size_def WALEngine_LPush_def WALEngine_RPush_def WALEngine_LPop_def WALEngine_RPop_def WALEngine_LLen_def WALEngine_LRange_def WALEngine_LIndex_def WALEngine_SAdd_def WALEngine_SRem_def WALEngine_SMembers_def WALEngine_SIsMember_def WALEngine_SCard_def WALEngine_SPop_def WALEngine_SRandMember_def WALEngine_HSet_def WALEngine_HGet_def WALEngine_HDel_def WALEngine_HGetAll_def WALEngine_HKeys_def WALEngine_HVals_def WALEngine_HExists_def WALEngine_HLen_def WALEngine_HMSet_def WALEngine_HMGet_def

text \<open>The memory engine as the target of replay.\<close>

definition MemoryEngine_replayer :: "(MemoryEngine \<times> os_world) Replayer" where
  "MemoryEngine_replayer =
     \<lparr>rSet = MemoryEngine_Set, rDel = MemoryEngine_Del, rIncr = MemoryEngine_Incr,
      rDecr = MemoryEngine_Decr, rFlushAll = MemoryEngine_FlushAll, rLPush = MemoryEngine_LPush,
      rRPush = MemoryEngine_RPush, rLPop = MemoryEngine_LPop, rRPop = MemoryEngine_RPop,
      rSAdd = MemoryEngine_SAdd, rSRem = MemoryEngine_SRem, rSPop = MemoryEngine_SPop,
      rHSet = MemoryEngine_HSet, rHDel = MemoryEngine_HDel\<rparr>"

definition NewWALEngine :: "int \<Rightarrow> (os_world, WALEngine outcome) state" where
  "NewWALEngine maxSizeMB = do {
     r \<leftarrow> NewWAL maxSizeMB;
     (case r of
        Inl err \<Rightarrow> ret (Err err)
      | Inr l \<Rightarrow> State (\<lambda>w.
          case run_state (Replay MemoryEngine_replayer) (NewMemoryEngine, w) of
            (Ok _, (m, w')) \<Rightarrow> (Ok \<lparr>mem = m, wal = l\<rparr>, w')
          | (Err e, (m, w')) \<Rightarrow> (Err e, snd (after WAL_Close (l, w')))
          | (Panic, (m, w')) \<Rightarrow> (Panic, w')))
   }"

end
