(* ===== verification/Wal_Spec.thy ===== *)
theory Wal_Spec
  imports Wal
begin

section \<open>What the log promises\<close>

text \<open>
  Two contracts. With faults: an acknowledged batch is in the segment that was current and
  has been synced (\<open>durable_batch\<close>), whatever the fault schedule. Without faults: the
  directory holds exactly the records written so far, in order and across rotations
  (\<open>log_holds\<close>), every write extends them, opening the log again finds them, and replay runs
  them one after the other.
\<close>

subsection \<open>Single system calls\<close>

lemma run_os_call_ok: "faults w = [] \<Longrightarrow> run_state os_call w = (None, w)"
  by (simp add: os_call_def)

lemma run_open_read:
  "faults w = [] \<Longrightarrow> fmlookup (files w) name = Some f \<Longrightarrow>
   run_state (open_read name) w = (Inr (ErrEOF, content f), w)"
  by (simp add: open_read_def run_os_call_ok)

lemma os_call_files [simp]:
  "files (after os_call w) = files w" "manifest (after os_call w) = manifest w"
  by (simp_all add: os_call_def)

lemma run_get_wal [simp]: "run_state get_wal s = (fst s, s)"
  by (cases s) (simp add: get_wal_def)

lemma run_upd_wal [simp]: "run_state (upd_wal f) s = ((), (f (fst s), snd s))"
  by (cases s) (simp add: upd_wal_def)

lemma append_file_append:
  "append_file name b (append_file name a w) = append_file name (a @ b) w"
  by (simp add: append_file_def split: option.split)

lemma append_file_Nil: "append_file name [] w = w"
  by (auto simp: append_file_def fmap_ext split: option.split intro!: os_world.equality fmap_ext)

lemma append_file_faults [simp]:
  "faults (append_file name b w) = faults w" "manifest (append_file name b w) = manifest w"
  by (simp_all add: append_file_def split: option.split)

lemma sync_file_faults [simp]:
  "faults (sync_file name w) = faults w" "manifest (sync_file name w) = manifest w"
  by (simp_all add: sync_file_def split: option.split)

lemma create_file_faults [simp]:
  "faults (create_file name w) = faults w" "manifest (create_file name w) = manifest w"
  by (simp_all add: create_file_def split: option.split)

lemma lookup_append_file:
  "fmlookup (files (append_file name b w)) k =
     (if k = name then map_option (\<lambda>f. f\<lparr>content := content f @ b\<rparr>) (fmlookup (files w) k)
      else fmlookup (files w) k)"
  by (auto simp: append_file_def split: option.split)

lemma lookup_sync_file:
  "fmlookup (files (sync_file name w)) k =
     (if k = name then map_option (\<lambda>f. f\<lparr>synced := length (content f)\<rparr>) (fmlookup (files w) k)
      else fmlookup (files w) k)"
  by (auto simp: sync_file_def split: option.split)

lemma lookup_create_file:
  "fmlookup (files (create_file name w)) k =
     (if k = name \<and> fmlookup (files w) k = None then Some \<lparr>content = [], synced = 0\<rparr>
      else fmlookup (files w) k)"
  by (auto simp: create_file_def split: option.split)

subsection \<open>Rotation and manifest leave existing segments alone\<close>

lemma writeManifestFile_files [simp]: "files (after (writeManifestFile segs) w) = files w"
  by (auto simp: writeManifestFile_def os_call_def split: prod.split)

lemma readManifest_files [simp]: "files (after readManifest w) = files w"
  by (auto simp: readManifest_def os_call_def split: prod.split)

lemma writeManifest_files: "files (snd (after writeManifest s)) = files (snd s)"
proof -
  have "files w' = files w" if "run_state readManifest w = (m, w')" for w m w'
    using that readManifest_files [of w] by simp
  moreover have "files w' = files w" if "run_state (writeManifestFile x) w = (m, w')" for w m w' x
    using that writeManifestFile_files [of x w] by simp
  ultimately show ?thesis
    by (auto simp: writeManifest_def split: prod.split sum.split)
qed

lemma rotate_keeps_files:
  "fmlookup (files w) k = Some f \<Longrightarrow> fmlookup (files (snd (after rotate (l, w)))) k = Some f"
proof -
  assume f: "fmlookup (files w) k = Some f"
  have os: "files w' = files w" if "run_state os_call w = (m, w')" for w m w'
    using that os_call_files(1) [of w] by simp
  from f show ?thesis
    by (auto simp: rotate_def lookup_create_file writeManifest_files os split: prod.split
        dest!: os)
qed

subsection \<open>Acknowledged batches are durable, under any fault schedule\<close>

definition batch_bytes :: "Record list \<Rightarrow> bytes" where
  "batch_bytes rs = concat (map EncodeRecord rs)"

lemma batch_bytes_simps [simp]:
  "batch_bytes [] = []" "batch_bytes (r # rs) = EncodeRecord r @ batch_bytes rs"
  "batch_bytes (rs @ ts) = batch_bytes rs @ batch_bytes ts"
  by (simp_all add: batch_bytes_def)

lemma append_file_cong:
  "files u = files v \<Longrightarrow> files (append_file name b u) = files (append_file name b v)"
  by (simp add: append_file_def split: option.split)

lemma Encode_ok:
  assumes "run_state (Encode r) (l, w) = (Inr n, (l', w'))" and "wal_file l = Some (name, True)"
  shows "l' = l \<and> files w' = files (append_file name (EncodeRecord r) w)"
proof -
  have os: "files u' = files u" if "run_state os_call u = (m, u')" for u m u'
    using that os_call_files(1) [of u] by simp
  from assms show ?thesis
    by (auto simp: Encode_def split: prod.splits option.splits dest!: os intro: append_file_cong)
qed

lemma encode_batch_ok:
  assumes "run_state (encode_batch rs k) (l, w) = ((None, n), (l', w'))"
    and "wal_file l = Some (name, True)"
  shows "l' = l \<and> files w' = files (append_file name (batch_bytes rs) w)"
  using assms(1)
proof (induction rs arbitrary: k w)
  case Nil
  then show ?case by (simp add: append_file_Nil)
next
  case (Cons r rs)
  obtain e l1 w1 where e: "run_state (Encode r) (l, w) = (e, (l1, w1))"
    by (metis prod.exhaust)
  from Cons.prems e obtain m where m: "e = Inr m"
    by (cases e) simp_all
  from Encode_ok [OF e [unfolded m] assms(2)]
  have l1: "l1 = l" and w1: "files w1 = files (append_file name (EncodeRecord r) w)" by simp_all
  have "run_state (encode_batch rs (k + m)) (l, w1) = ((None, n), (l', w'))"
    using Cons.prems e m l1 by simp
  then have "l' = l" and "files w' = files (append_file name (batch_bytes rs) w1)"
    by (auto dest: Cons.IH)
  then show ?case
    using append_file_cong [OF w1, of name "batch_bytes rs"] by (simp add: append_file_append)
qed

lemma sync_file_cong:
  "files u = files v \<Longrightarrow> files (sync_file name u) = files (sync_file name v)"
  by (simp add: sync_file_def split: option.split)

lemma WAL_Sync_ok:
  assumes "run_state WAL_Sync (l, w) = (None, (l', w'))" and "wal_file l = Some (name, True)"
  shows "l' = l \<and> files w' = files (sync_file name w)"
proof -
  have os: "files u' = files u" if "run_state os_call u = (m, u')" for u m u'
    using that os_call_files(1) [of u] by simp
  show ?thesis
    using assms
    by (auto simp: WAL_Sync_def split: prod.splits if_splits dest!: os intro: sync_file_cong)
qed

lemma durable_batch:
  assumes ok: "runs (flush_batch batch) (l, w) = None"
    and cur: "wal_file l = Some (name, True)" and f: "fmlookup (files w) name = Some f"
  shows "\<exists>f'. fmlookup (files (snd (after (flush_batch batch) (l, w)))) name = Some f' \<and>
    content f' = content f @ batch_bytes batch \<and> synced f' = length (content f')"
proof -
  obtain we n l1 w1 where enc: "run_state (encode_batch batch 0) (l, w) = ((we, n), (l1, w1))"
    by (metis prod.exhaust)
  obtain se l2 w2 where syn: "run_state (if we = None then WAL_Sync else ret None) (l1, w1)
      = (se, (l2, w2))"
    by (metis prod.exhaust)
  define l3 where "l3 = l2\<lparr>currentSz := wrap64 (currentSz l2 + int n)\<rparr>"
  obtain re l4 w4 where rot: "run_state rotate (l3, w2) = (re, (l4, w4))"
    by (metis prod.exhaust)
  have none: "we = None" "se = None"
    using ok enc syn rot by (auto simp: flush_batch_def l3_def split: if_splits)
  have final: "snd (after (flush_batch batch) (l, w)) =
      (if maxSize l3 > 0 \<and> currentSz l3 \<ge> maxSize l3 then w4 else w2)"
    using enc syn rot by (auto simp: flush_batch_def l3_def split: if_splits)
  from encode_batch_ok [OF enc [unfolded none] cur]
  have l1: "l1 = l" and w1: "files w1 = files (append_file name (batch_bytes batch) w)" by simp_all
  have "run_state WAL_Sync (l1, w1) = (None, (l2, w2))" using syn none by simp
  then have w2: "files w2 = files (sync_file name w1)"
    using WAL_Sync_ok cur l1 by blast
  define f' where "f' = f\<lparr>content := content f @ batch_bytes batch,
    synced := length (content f @ batch_bytes batch)\<rparr>"
  have "fmlookup (files w2) name = Some f'"
    using f by (simp add: w2 lookup_sync_file w1 lookup_append_file f'_def)
  moreover have "fmlookup (files w4) name = Some f'"
    using rotate_keeps_files [OF calculation, of l3] rot by simp
  ultimately show ?thesis using final by (auto simp: f'_def)
qed

subsection \<open>The directory holds the records written so far\<close>

definition log_holds :: "Record list \<Rightarrow> wal_state \<Rightarrow> bool" where
  "log_holds rs s \<longleftrightarrow>
     (case s of (l, w) \<Rightarrow>
        faults w = [] \<and> 1 \<le> seq l \<and> seq l \<le> 1 + int (length rs) \<and>
        manifest w = Manifest (map segName [1..seq l]) \<and>
        wal_file l = Some (segName (seq l), True) \<and>
        (\<forall>i > seq l. in_int64 i \<longrightarrow> fmlookup (files w) (segName i) = None) \<and>
        (\<exists>rss. length rss = nat (seq l) \<and> concat rss = rs \<and>
          (\<forall>i < length rss. \<exists>f. fmlookup (files w) (segName (int i + 1)) = Some f \<and>
             content f = batch_bytes (rss ! i))))"

lemma segName_inject:
  "0 \<le> m \<Longrightarrow> in_int64 m \<Longrightarrow> 0 \<le> n \<Longrightarrow> in_int64 n \<Longrightarrow> segName m = segName n \<Longrightarrow> m = n"
  by (auto simp: segName_def dest: zero_pad8_inject)

lemma segName_fresh:
  assumes "in_int64 (n + 1)" and "1 \<le> n"
  shows "segName (n + 1) \<notin> set (map segName [1..n])"
proof
  assume "segName (n + 1) \<in> set (map segName [1..n])"
  then obtain i where i: "1 \<le> i" "i \<le> n" "segName (n + 1) = segName i" by auto
  have "in_int64 i" using i assms by (simp add: int64_defs)
  with i assms have "n + 1 = i" by (intro segName_inject) simp_all
  with i show False by simp
qed

text \<open>Without faults, every step of the flusher is determined.\<close>

lemma run_encode_batch:
  assumes "faults w = []" and "wal_file l = Some (name, True)"
  shows "run_state (encode_batch rs k) (l, w) =
    ((None, k + length (batch_bytes rs)), (l, append_file name (batch_bytes rs) w))"
  using assms(1)
proof (induction rs arbitrary: k w)
  case Nil
  then show ?case by (simp add: append_file_Nil)
next
  case (Cons r rs)
  let ?w1 = "append_file name (EncodeRecord r) w"
  have "run_state (Encode r) (l, w) = (Inr (length (EncodeRecord r)), (l, ?w1))"
    using assms(2) Cons.prems by (simp add: Encode_def run_os_call_ok)
  moreover have "run_state (encode_batch rs (k + length (EncodeRecord r))) (l, ?w1) =
      ((None, k + length (EncodeRecord r) + length (batch_bytes rs)),
       (l, append_file name (batch_bytes rs) ?w1))"
    by (rule Cons.IH) (simp add: Cons.prems)
  ultimately show ?case by (simp add: append_file_append del: length_EncodeRecord)
qed

lemma run_WAL_Sync:
  "faults w = [] \<Longrightarrow> wal_file l = Some (name, True) \<Longrightarrow>
   run_state WAL_Sync (l, w) = (None, (l, sync_file name w))"
  by (simp add: WAL_Sync_def run_os_call_ok)

lemma run_readManifest:
  "faults w = [] \<Longrightarrow> manifest w = Manifest segs \<Longrightarrow> run_state readManifest w = (Inr segs, w)"
  by (simp add: readManifest_def run_os_call_ok)

lemma run_writeManifestFile:
  "faults w = [] \<Longrightarrow> run_state (writeManifestFile segs) w = (None, w\<lparr>manifest := Manifest segs\<rparr>)"
  by (simp add: writeManifestFile_def run_os_call_ok)

lemma run_rotate:
  assumes "faults w = []" "manifest w = Manifest segs" "in_int64 (seq l + 1)"
    and "segName (seq l + 1) \<notin> set segs"
  shows "run_state rotate (l, w) =
    (None, (l\<lparr>wal_file := Some (segName (seq l + 1), True), seq := seq l + 1, currentSz := 0\<rparr>,
            (create_file (segName (seq l + 1)) w)\<lparr>manifest := Manifest (segs @ [segName (seq l + 1)])\<rparr>))"
  using assms
  by (simp add: rotate_def writeManifest_def run_os_call_ok run_readManifest
      run_writeManifestFile close_file_def)

lemma log_holdsD:
  assumes "log_holds rs (l, w)"
  shows "faults w = []" "1 \<le> seq l" "seq l \<le> 1 + int (length rs)"
    "manifest w = Manifest (map segName [1..seq l])" "wal_file l = Some (segName (seq l), True)"
    "\<And>i. seq l < i \<Longrightarrow> in_int64 i \<Longrightarrow> fmlookup (files w) (segName i) = None"
  using assms by (simp_all add: log_holds_def)

lemma log_holds_segments:
  assumes "log_holds rs (l, w)"
  obtains rss where "length rss = nat (seq l)" "concat rss = rs"
    "\<And>i. i < length rss \<Longrightarrow> \<exists>f. fmlookup (files w) (segName (int i + 1)) = Some f \<and>
       content f = batch_bytes (rss ! i)"
  using assms unfolding log_holds_def by blast

lemma log_holds_append:
  assumes "log_holds rs (l, w)" and "in_int64 (seq l)"
  shows "log_holds (rs @ batch)
    (l\<lparr>currentSz := c\<rparr>, sync_file (segName (seq l)) (append_file (segName (seq l)) (batch_bytes batch) w))"
proof -
  note h = log_holdsD [OF assms(1)]
  obtain rss where rss: "length rss = nat (seq l)" "concat rss = rs"
    "\<And>i. i < length rss \<Longrightarrow> \<exists>f. fmlookup (files w) (segName (int i + 1)) = Some f \<and>
       content f = batch_bytes (rss ! i)"
    using log_holds_segments [OF assms(1)] by blast
  then obtain ys y where y: "rss = ys @ [y]" using h(2) by (cases rss rule: rev_cases) auto
  have len: "int (length ys) + 1 = seq l" using rss(1) y h(2) by simp
  have other: "segName (int i + 1) \<noteq> segName (seq l)" if "i < length ys" for i
  proof
    assume "segName (int i + 1) = segName (seq l)"
    moreover have "in_int64 (int i + 1)" using that len assms(2) by (simp add: int64_defs)
    ultimately have "int i + 1 = seq l" using assms(2) h(2) by (intro segName_inject) simp_all
    with that len show False by simp
  qed
  let ?w = "sync_file (segName (seq l)) (append_file (segName (seq l)) (batch_bytes batch) w)"
  have "\<exists>f. fmlookup (files ?w) (segName (int i + 1)) = Some f \<and>
      content f = batch_bytes ((ys @ [y @ batch]) ! i)" if "i < length (ys @ [y @ batch])" for i
  proof (cases "i < length ys")
    case True
    with rss(3) [of i] y other [OF True] show ?thesis
      by (auto simp: lookup_sync_file lookup_append_file nth_append)
  next
    case False
    with that have i: "i = length ys" by simp
    with rss(3) [of i] y len show ?thesis
      by (auto simp: lookup_sync_file lookup_append_file)
  qed
  moreover have "fmlookup (files ?w) k = None" if "fmlookup (files w) k = None" for k
    using that by (auto simp: lookup_sync_file lookup_append_file)
  then have "\<forall>i > seq l. in_int64 i \<longrightarrow> fmlookup (files ?w) (segName i) = None"
    using h(6) by blast
  ultimately show ?thesis
    using h rss(1,2) y unfolding log_holds_def
    by (auto intro!: exI [of _ "ys @ [y @ batch]"])
qed

lemma log_holds_rotate:
  assumes "log_holds rs (l, w)" and "in_int64 (seq l + 1)" and "seq l \<le> int (length rs)"
  shows "\<exists>s. run_state rotate (l, w) = (None, s) \<and> log_holds rs s"
proof -
  note h = log_holdsD [OF assms(1)]
  obtain rss where rss: "length rss = nat (seq l)" "concat rss = rs"
    "\<And>i. i < length rss \<Longrightarrow> \<exists>f. fmlookup (files w) (segName (int i + 1)) = Some f \<and>
       content f = batch_bytes (rss ! i)"
    using log_holds_segments [OF assms(1)] by blast
  let ?n = "seq l + 1"
  let ?w = "(create_file (segName ?n) w)\<lparr>manifest := Manifest (map segName [1..seq l] @ [segName ?n])\<rparr>"
  let ?l = "l\<lparr>wal_file := Some (segName ?n, True), seq := ?n, currentSz := 0\<rparr>"
  have run: "run_state rotate (l, w) = (None, (?l, ?w))"
    by (rule run_rotate) (use h assms segName_fresh in auto)
  have fresh: "fmlookup (files w) (segName ?n) = None" using h(6) assms(2) by simp
  have upto: "map segName [1..seq l] @ [segName ?n] = map segName [1..?n]"
    using h(2) by (simp add: upto_rec2)
  have "\<exists>f. fmlookup (files ?w) (segName (int i + 1)) = Some f \<and>
      content f = batch_bytes ((rss @ [[]]) ! i)" if "i < length (rss @ [[]])" for i
  proof (cases "i < length rss")
    case True
    with rss(3) [OF True] show ?thesis by (auto simp: lookup_create_file nth_append)
  next
    case False
    with that rss(1) h(2) have "i = length rss" "int i + 1 = ?n" by simp_all
    with fresh show ?thesis by (simp add: lookup_create_file add.commute)
  qed
  moreover have "fmlookup (files ?w) (segName i) = None" if "?n < i" "in_int64 i" for i
  proof -
    have "segName i \<noteq> segName ?n"
      using that assms(2) h(2) segName_inject [of i ?n] by auto
    with that h(6) show ?thesis by (simp add: lookup_create_file)
  qed
  ultimately have "log_holds rs (?l, ?w)"
    using h assms(3) rss(1,2) upto unfolding log_holds_def
    by (auto intro!: exI [of _ "rss @ [[]]"])
  with run show ?thesis by blast
qed

theorem log_holds_flush:
  assumes "log_holds rs (l, w)" and "batch \<noteq> []" and "in_int64 (int (length rs) + 2)"
  shows "runs (flush_batch batch) (l, w) = None \<and>
    log_holds (rs @ batch) (after (flush_batch batch) (l, w))"
proof -
  note h = log_holdsD [OF assms(1)]
  let ?name = "segName (seq l)"
  let ?c = "wrap64 (currentSz l + int (length (batch_bytes batch)))"
  let ?l = "l\<lparr>currentSz := ?c\<rparr>"
  let ?w = "sync_file ?name (append_file ?name (batch_bytes batch) w)"
  have range: "in_int64 (seq l)" "in_int64 (seq l + 1)"
    using h(2,3) assms(3) by (simp_all add: int64_defs)
  have held: "log_holds (rs @ batch) (?l, ?w)"
    using assms(1) range(1) by (rule log_holds_append)
  have "seq ?l \<le> int (length (rs @ batch))"
    using h(3) assms(2) by (cases batch) simp_all
  then obtain s where s: "run_state rotate (?l, ?w) = (None, s)" "log_holds (rs @ batch) s"
    using log_holds_rotate [OF held] range(2) by auto
  have "run_state (flush_batch batch) (l, w) =
      (if maxSize l > 0 \<and> ?c \<ge> maxSize l then (None, s) else (None, (?l, ?w)))"
    using s(1) h by (simp add: flush_batch_def run_encode_batch run_WAL_Sync)
  with held s(2) show ?thesis by simp
qed

subsection \<open>Opening the log again\<close>

lemma digits_no_slash: "list_all is_digit s \<Longrightarrow> CHR ''/'' \<notin> set s"
  by (auto simp: list_all_iff is_digit_def)

lemma filepath_Base_no_slash:
  assumes "s \<noteq> []" and "CHR ''/'' \<notin> set s"
  shows "filepath_Base s = s"
proof -
  have ne: "rev s \<noteq> []" and no: "CHR ''/'' \<notin> set (rev s)" using assms by simp_all
  then have dw: "dropWhile (\<lambda>c. c = CHR ''/'') (rev s) = rev s"
    by (cases "rev s") auto
  have tw: "takeWhile (\<lambda>c. c \<noteq> CHR ''/'') (rev s) = rev s"
    using no by (auto simp: takeWhile_eq_all_conv)
  show ?thesis
    unfolding filepath_Base_def Let_def dw rev_rev_ident tw using assms(1) by simp
qed

lemma zero_pad8_digits: "0 \<le> n \<Longrightarrow> list_all is_digit (zero_pad8 n) \<and> zero_pad8 n \<noteq> []"
  by (simp add: zero_pad8_def Let_def)

lemma digits_val_zero_pad8: "0 \<le> n \<Longrightarrow> digits_val (zero_pad8 n) = nat n"
  by (simp add: zero_pad8_def Let_def digits_val_replicate_zero)

lemma foldl_digits_ge:
  "(n::nat) \<le> foldl (\<lambda>a c. 10 * a + digit_val c) n s"
proof (induction s arbitrary: n)
  case (Cons c s)
  have "n \<le> 10 * n + digit_val c" by simp
  with Cons.IH [of "10 * n + digit_val c"] show ?case by simp
qed simp

lemma scan_uint_digits:
  "list_all is_digit s \<Longrightarrow> foldl (\<lambda>a c. 10 * a + digit_val c) n s < 2 ^ 64 \<Longrightarrow>
   scan_uint n s = Some (foldl (\<lambda>a c. 10 * a + digit_val c) n s)"
proof (induction s arbitrary: n)
  case (Cons c s)
  have "10 * n + digit_val c < 2 ^ 64"
    using foldl_digits_ge [of "10 * n + digit_val c" s] Cons.prems(2) by simp
  with Cons show ?case by (simp add: Let_def)
qed simp

lemma Atoi_value_segment:
  assumes "0 \<le> n" and "in_int64 n"
  shows "Atoi_value (TrimSuffix (filepath_Base (segName n)) ''.wal'') = n"
proof -
  let ?s = "zero_pad8 n"
  have ds: "list_all is_digit ?s" "?s \<noteq> []" using zero_pad8_digits assms(1) by blast+
  then have "filepath_Base (segName n) = segName n"
    unfolding segName_def by (intro filepath_Base_no_slash) (auto dest: digits_no_slash)
  then have trim: "TrimSuffix (filepath_Base (segName n)) ''.wal'' = ?s"
    by (simp add: segName_def)
  have "scan_sign ?s = (False, ?s)"
    using ds by (cases ?s) (auto dest: digit_not_sign)
  moreover have "nat n < 2 ^ 64" using assms by (simp add: int64_defs nat_less_iff)
  then have "scan_uint 0 ?s = Some (nat n)"
    using scan_uint_digits [OF ds(1), of 0] digits_val_zero_pad8 [OF assms(1)] assms(2)
    by (simp add: digits_val_def int64_defs)
  ultimately show ?thesis
    using assms ds(2) by (simp add: trim Atoi_value_def int64_defs)
qed

lemma last_upto: "1 \<le> n \<Longrightarrow> last (map segName [1..n]) = segName n"
  by (simp add: upto_rec2)

lemma NewWAL_reopens:
  assumes "log_holds rs (l, w)" and "in_int64 (seq l)"
  shows "\<exists>l'. run_state (NewWAL mb) w = (Inr l', w) \<and> log_holds rs (l', w)"
proof -
  note h = log_holdsD [OF assms(1)]
  obtain rss where rss: "length rss = nat (seq l)" "concat rss = rs"
    "\<And>i. i < length rss \<Longrightarrow> \<exists>f. fmlookup (files w) (segName (int i + 1)) = Some f \<and>
       content f = batch_bytes (rss ! i)"
    using log_holds_segments [OF assms(1)] by blast
  obtain f where f: "fmlookup (files w) (segName (seq l)) = Some f"
    using rss(3) [of "nat (seq l) - 1"] rss(1) h(2) by auto
  let ?l = "\<lparr>wal_file = Some (segName (seq l), True), seq = seq l,
    maxSize = wrap64 (mb * 1024 * 1024), currentSz = int (length (content f))\<rparr>"
  have "map segName [1..seq l] \<noteq> []" using h(2) by simp
  then have "run_state (NewWAL mb) w = (Inr ?l, w)"
    using h f assms(2) last_upto [OF h(2)]
    by (simp add: NewWAL_def run_os_call_ok run_readManifest Atoi_value_segment Let_def)
  moreover have "log_holds rs (?l, w)"
    using assms(1) by (simp add: log_holds_def)
  ultimately show ?thesis by blast
qed

text \<open>A directory without a manifest and without segments: the log starts empty.\<close>

definition fresh_log :: "int \<Rightarrow> WAL" where
  "fresh_log mb = \<lparr>wal_file = Some (segName 1, True), seq = 1, maxSize = wrap64 (mb * 1024 * 1024), currentSz = 0\<rparr>"

definition fresh_dir :: "os_world \<Rightarrow> os_world" where
  "fresh_dir w = (create_file (segName 1) w)\<lparr>manifest := Manifest [segName 1]\<rparr>"

lemma run_NewWAL_fresh:
  assumes "faults w = []" "manifest w = NoManifest"
  shows "run_state (NewWAL mb) w = (Inr (fresh_log mb), fresh_dir w)"
proof -
  have one: "wrap64 1 = 1" by (simp add: int64_defs)
  have "run_state readManifest w = (Inl ErrNotExist, w)"
    using assms by (simp add: readManifest_def run_os_call_ok)
  moreover have "run_state readManifest (create_file (segName 1) w)
      = (Inl ErrNotExist, create_file (segName 1) w)"
    using assms by (simp add: readManifest_def run_os_call_ok)
  ultimately show ?thesis
    using assms
    by (simp add: NewWAL_def first_segment_def rotate_def writeManifest_def run_os_call_ok one
        run_writeManifestFile close_file_def fresh_log_def fresh_dir_def)
qed

lemma log_holds_fresh:
  assumes "faults w = []" "files w = fmempty"
  shows "log_holds [] (fresh_log mb, fresh_dir w)"
proof -
  have "fmlookup (files (fresh_dir w)) (segName i) = None" if "1 < i" "in_int64 i" for i
  proof -
    have "segName i \<noteq> segName 1"
      using that segName_inject [of i 1] by (auto simp: int64_defs)
    with assms(2) show ?thesis by (simp add: lookup_create_file fresh_dir_def)
  qed
  with assms show ?thesis
    by (auto simp: log_holds_def lookup_create_file fresh_log_def fresh_dir_def intro!: exI [of _ "[[]]"])
qed

lemma NewWAL_fresh:
  assumes "faults w = []" "manifest w = NoManifest" "files w = fmempty"
  shows "\<exists>l w'. run_state (NewWAL mb) w = (Inr l, w') \<and> log_holds [] (l, w')"
  using run_NewWAL_fresh [OF assms(1,2)] log_holds_fresh [OF assms(1,3)] by blast

subsection \<open>Replay runs the records\<close>

definition readable :: "Record \<Rightarrow> bool" where
  "readable r \<longleftrightarrow> length (Key r) \<le> 8 \<and> length (Value r) < 2 ^ 32"

lemma run_replay_loop:
  "list_all readable rs \<Longrightarrow>
   run_state (replay_loop eng ErrEOF (batch_bytes rs)) s = (Ok (), after (for_each rs (replayRecord eng)) s)"
proof (induction rs arbitrary: s)
  case Nil
  show ?case by (simp add: replay_loop.simps [of _ ErrEOF "[]"])
next
  case (Cons r rs)
  have "Decode ErrEOF (batch_bytes (r # rs)) = (Ok r, batch_bytes rs)"
    using Cons.prems by (simp add: readable_def Decode_EncodeRecord)
  with Cons show ?case
    by (simp add: replay_loop.simps [of _ ErrEOF "_ @ _"] split: prod.split)
qed

text \<open>When the disk fails, replay fails.\<close>

lemma replay_loop_fails: "fin \<noteq> ErrEOF \<Longrightarrow> runs (replay_loop eng fin input) s \<noteq> Ok ()"
proof (induction eng fin input arbitrary: s rule: replay_loop.induct)
  case (1 eng fin input)
  obtain p rest where p: "Decode fin input = (p, rest)" by (metis prod.exhaust)
  with Decode_not_EOF [OF "1.prems", of input] 1 show ?case
    by (cases p) (auto simp: replay_loop.simps [of eng fin input] split: prod.split)
qed

lemma open_read_cases:
  assumes "run_state (open_read name) w = (Inr (fin, input), w')" and "fmlookup (files w) name = Some f"
  shows "files w' = files w \<and> (fin = ErrEOF \<and> input = content f \<or> fin = ErrOS)"
  using assms by (auto simp: open_read_def os_call_def split: if_splits list.splits option.splits)

text \<open>A log that ends in a cut record.\<close>

lemma run_replay_cut:
  assumes "list_all readable rs" and "readable r" and "0 < n" and "n < length (EncodeRecord r)"
  shows "run_state (replay_loop eng ErrEOF (batch_bytes rs @ take n (EncodeRecord r))) s =
    ((if n = entryHeaderSize then Ok () else Err ErrUnexpectedEOF),
     after (for_each rs (replayRecord eng)) s)"
  using assms(1)
proof (induction rs arbitrary: s)
  case Nil
  obtain rest where "Decode ErrEOF (take n (EncodeRecord r))
      = (Err (if n = entryHeaderSize then ErrEOF else ErrUnexpectedEOF), rest)"
    using Decode_cut [of r n] assms(2-4) unfolding readable_def by (metis prod.collapse)
  then show ?case by (simp add: replay_loop.simps [of _ ErrEOF "take n _"])
next
  case (Cons x rs)
  have "Decode ErrEOF (batch_bytes (x # rs) @ take n (EncodeRecord r)) =
      (Ok x, batch_bytes rs @ take n (EncodeRecord r))"
    using Cons.prems by (simp add: readable_def Decode_EncodeRecord)
  with Cons show ?case
    by (simp add: replay_loop.simps [of _ ErrEOF "_ @ _"] split: prod.split)
qed

lemma after_for_each_append:
  "after (for_each (xs @ ys) f) s = after (for_each ys f) (after (for_each xs f) s)"
  by (induction xs arbitrary: s) (simp_all del: for_each.simps)

text \<open>The contract of a replay target: its methods do not touch the directory.\<close>

locale replay_target =
  fixes eng :: "('s \<times> os_world) Replayer"
  assumes keeps_disk:
    "files (snd (after (replayRecord eng r) s)) = files (snd s)"
    "faults (snd (after (replayRecord eng r) s)) = faults (snd s)"
begin

lemma replay_keeps_disk:
  "files (snd (after (for_each rs (replayRecord eng)) s)) = files (snd s)"
  "faults (snd (after (for_each rs (replayRecord eng)) s)) = faults (snd s)"
  by (induction rs arbitrary: s) (simp_all add: keeps_disk del: for_each.simps)

lemma run_replay_segments:
  assumes "faults (snd s) = []" and "length segs = length rss"
    and "\<And>i. i < length rss \<Longrightarrow> \<exists>f. fmlookup (files (snd s)) (segs ! i) = Some f \<and>
      content f = batch_bytes (rss ! i)"
    and "list_all readable (concat rss)"
  shows "run_state (replay_segments eng segs) s
    = (Ok (), after (for_each (concat rss) (replayRecord eng)) s)"
  using assms
proof (induction segs arbitrary: rss s)
  case Nil
  then show ?case by simp
next
  case (Cons seg segs)
  then obtain rs rss' where rss: "rss = rs # rss'" by (cases rss) auto
  obtain f where f: "fmlookup (files (snd s)) seg = Some f" "content f = batch_bytes rs"
    using Cons.prems(3) [of 0] rss by auto
  let ?s = "after (for_each rs (replayRecord eng)) s"
  have "run_state (replaySegment eng seg) s = (Ok (), ?s)"
    using f Cons.prems(1,4) rss
    by (simp add: replaySegment_def run_open_read run_replay_loop)
  moreover have "run_state (replay_segments eng segs) ?s
      = (Ok (), after (for_each (concat rss') (replayRecord eng)) ?s)"
  proof (rule Cons.IH)
    show "\<exists>f. fmlookup (files (snd ?s)) (segs ! i) = Some f \<and> content f = batch_bytes (rss' ! i)"
      if "i < length rss'" for i
      using Cons.prems(3) [of "Suc i"] that rss by (simp add: replay_keeps_disk)
  qed (use Cons.prems rss in \<open>simp_all add: replay_keeps_disk\<close>)
  ultimately show ?case by (simp add: rss after_for_each_append)
qed

theorem run_Replay:
  assumes "log_holds rs (l, snd s)" and "list_all readable rs"
  shows "run_state (Replay eng) s = (Ok (), after (for_each rs (replayRecord eng)) s)"
proof -
  note h = log_holdsD [OF assms(1)]
  obtain rss where rss: "length rss = nat (seq l)" "concat rss = rs"
    "\<And>i. i < length rss \<Longrightarrow> \<exists>f. fmlookup (files (snd s)) (segName (int i + 1)) = Some f \<and>
       content f = batch_bytes (rss ! i)"
    using log_holds_segments [OF assms(1)] by blast
  have "map segName [1..seq l] ! i = segName (int i + 1)" if "i < length rss" for i
    using that rss(1) by (simp add: add.commute)
  with rss h assms(2) have "run_state (replay_segments eng (map segName [1..seq l])) s
      = (Ok (), after (for_each rs (replayRecord eng)) s)"
    by (subst run_replay_segments [of _ _ rss]) simp_all
  with h show ?thesis by (simp add: Replay_def run_readManifest)
qed

end

subsection \<open>Properties\<close>

text \<open>An empty directory, for examples.\<close>

definition empty_dir :: os_world where
  "empty_dir = \<lparr>clock = 0, ticks = [], picks = [], files = fmempty, manifest = NoManifest, faults = []\<rparr>"

lemma empty_dir_simps [simp]:
  "faults empty_dir = []" "manifest empty_dir = NoManifest" "files empty_dir = fmempty"
  by (simp_all add: empty_dir_def)

text \<open>C3: Durability. Under every schedule of disk faults, short writes included: when the flusher
  acknowledges a batch, the segment that was current holds all of its records behind what it held
  before, and all of it has been synced.\<close>

theorem acknowledged_is_durable:
  assumes "runs (flush_batch batch) (l, w) = None"
    and "wal_file l = Some (name, True)" and "fmlookup (files w) name = Some f"
  shows "\<exists>f'. fmlookup (files (snd (after (flush_batch batch) (l, w)))) name = Some f' \<and>
    content f' = content f @ batch_bytes batch \<and> synced f' = length (content f')"
  by (rule durable_batch [OF assms])

theorem acknowledged_is_durable_witness:
  "\<exists>f'. fmlookup (files (snd (after (flush_batch [MakeRecord OpSet [''k'', ''v'']])
       (\<lparr>wal_file = Some (''1'', True), seq = 1, maxSize = 0, currentSz = 0\<rparr>,
        create_file ''1'' empty_dir)))) ''1'' = Some f' \<and>
     content f' = [] @ batch_bytes [MakeRecord OpSet [''k'', ''v'']] \<and> synced f' = length (content f')"
proof -
  let ?l = "\<lparr>wal_file = Some (''1'', True), seq = 1, maxSize = 0, currentSz = 0\<rparr>"
  let ?w = "create_file ''1'' empty_dir" and ?b = "[MakeRecord OpSet [''k'', ''v'']]"
  have "runs (flush_batch ?b) (?l, ?w) = None"
    by (simp add: flush_batch_def run_encode_batch run_WAL_Sync del: encode_batch.simps)
  moreover have "fmlookup (files ?w) ''1'' = Some \<lparr>content = [], synced = 0\<rparr>"
    by (simp add: lookup_create_file)
  ultimately show ?thesis using acknowledged_is_durable [of ?b ?l ?w "''1''" "\<lparr>content = [], synced = 0\<rparr>"] by simp
qed

end
