(* ===== verification/Engine_Spec.thy ===== *)
theory Engine_Spec
  imports Engine Wal_Spec
begin

section \<open>What a storage engine promises\<close>

text \<open>
  The contract behind Go's \<open>StorageEngine\<close> interface, over the abstract database of the
  store (a function from keys to entries) and the clock. Each method has a specification: a
  relation between the instant and the database before the call, the result, and the
  database after it. The locale \<open>storage_engine\<close> assumes that the methods of a table obey
  their specifications; the command handler is verified inside it. The memory engine and
  the logging engine both satisfy it, the latter under every schedule of disk faults: a
  refused write leaves the database as it was.
\<close>

subsection \<open>Contracts of effectful methods\<close>

type_synonym db = "string \<Rightarrow> entry"

type_synonym 'r spec = "int \<Rightarrow> db \<Rightarrow> 'r \<Rightarrow> db \<Rightarrow> bool"

definition does ::
    "('s \<Rightarrow> bool) \<Rightarrow> ('s \<Rightarrow> db) \<Rightarrow> ('s \<Rightarrow> int) \<Rightarrow> ('s, 'r) state \<Rightarrow> 'r spec \<Rightarrow> bool" where
  "does ok db clk m P \<longleftrightarrow>
     (\<forall>s. ok s \<longrightarrow>
        ok (after m s) \<and> clk s \<le> clk (after m s) \<and> P (clk s) (db s) (runs m s) (db (after m s)))"

lemma doesD:
  assumes "does ok db clk m P" and "ok s"
  shows "ok (after m s)" "clk s \<le> clk (after m s)" "P (clk s) (db s) (runs m s) (db (after m s))"
  using assms by (simp_all add: does_def)

lemma doesI:
  "(\<And>s. ok s \<Longrightarrow> ok (after m s) \<and> clk s \<le> clk (after m s) \<and>
     P (clk s) (db s) (runs m s) (db (after m s))) \<Longrightarrow> does ok db clk m P"
  by (simp add: does_def)

lemma does_weaken: "does ok db clk m P \<Longrightarrow> (\<And>t d r d'. P t d r d' \<Longrightarrow> Q t d r d') \<Longrightarrow> does ok db clk m Q"
  by (simp add: does_def)

lemma does_ret: "does ok db clk (ret x) (\<lambda>t d r d'. r = x \<and> d' = d)"
  by (simp add: does_def)

lemma does_bind:
  assumes "does ok db clk m P" and "\<And>x. does ok db clk (f x) (Q x)"
  shows "does ok db clk (m \<bind> f) (\<lambda>t d r d'. \<exists>x d1 t1. t \<le> t1 \<and> P t d x d1 \<and> Q x t1 d1 r d')"
proof (rule doesI)
  fix s
  assume s: "ok s"
  obtain x s1 where m: "run_state m s = (x, s1)" by (metis prod.exhaust)
  have 1: "ok s1" "clk s \<le> clk s1" "P (clk s) (db s) x (db s1)"
    using doesD [OF assms(1) s] m by simp_all
  have 2: "ok (after (f x) s1)" "clk s1 \<le> clk (after (f x) s1)"
    "Q x (clk s1) (db s1) (runs (f x) s1) (db (after (f x) s1))"
    using doesD [OF assms(2) 1(1)] by simp_all
  have run: "run_state (m \<bind> f) s = run_state (f x) s1" using m by simp
  show "ok (after (m \<bind> f) s) \<and> clk s \<le> clk (after (m \<bind> f) s) \<and>
      (\<exists>y d1 t1. clk s \<le> t1 \<and> P (clk s) (db s) y d1 \<and>
         Q y t1 d1 (runs (m \<bind> f) s) (db (after (m \<bind> f) s)))"
    unfolding run using 1 2 by (meson order_trans)
qed

subsection \<open>The specification of every method\<close>

definition get_entry :: "int \<Rightarrow> entry \<Rightarrow> entry" where
  "get_entry t e =
     (if str e \<noteq> None \<and> expired t e then e\<lparr>str := None, expiry := None\<rparr> else e)"

definition get_result :: "int \<Rightarrow> entry \<Rightarrow> go_error + string" where
  "get_result t e =
     (case str e of
        None \<Rightarrow> Inl (ErrMsg ''key not found'')
      | Some v \<Rightarrow> if expired t e then Inl (ErrMsg ''key not found'') else Inr v)"

definition spec_Get :: "string \<Rightarrow> (go_error + string) spec" where
  "spec_Get k t d r d' \<longleftrightarrow> r = get_result t (d k) \<and> d' = d(k := get_entry t (d k))"

definition set_entry :: "string \<Rightarrow> entry \<Rightarrow> entry" where
  "set_entry v e = e\<lparr>str := Some v, expiry := None\<rparr>"

definition spec_Set :: "string \<Rightarrow> string \<Rightarrow> go_error option spec" where
  "spec_Set k v t d r d' \<longleftrightarrow> d' = (if r = None then d(k := set_entry v (d k)) else d)"

definition spec_Del :: "string \<Rightarrow> go_error option spec" where
  "spec_Del k t d r d' \<longleftrightarrow>
     d' = (if r = None then d(k := no_entry) else d) \<and> (r = None \<longrightarrow> present (d k)) \<and>
     (\<not> present (d k) \<longrightarrow> r \<noteq> None)"

definition spec_Exists :: "string \<Rightarrow> bool spec" where
  "spec_Exists k t d r d' \<longleftrightarrow>
     r = live t (d k) \<and> d' = d(k := if present (d k) \<and> expired t (d k) then no_entry else d k)"

definition spec_bump :: "int \<Rightarrow> string \<Rightarrow> (go_error + int) spec" where
  "spec_bump i k t d r d' \<longleftrightarrow>
     (case r of
        Inl err \<Rightarrow> d' = d
      | Inr n \<Rightarrow> bump_result i (d k) = Inr n \<and> d' = d(k := bump i (d k)))"

definition spec_Expire :: "string \<Rightarrow> int \<Rightarrow> go_error option spec" where
  "spec_Expire k ttl t d r d' \<longleftrightarrow>
     r = (if present (d k) then None else Some (ErrMsg ''Key not found'')) \<and>
     d' = (if present (d k) then d(k := (d k)\<lparr>expiry := Some (t + ttl)\<rparr>) else d)"

definition ttl_of :: "int \<Rightarrow> entry \<Rightarrow> int" where
  "ttl_of t e =
     (if \<not> present e then -2
      else case expiry e of
             None \<Rightarrow> -1
           | Some x \<Rightarrow> (let r = time_Until x t in if r \<le> 0 then -2 else r))"

definition spec_TTL :: "string \<Rightarrow> int spec" where
  "spec_TTL k t d r d' \<longleftrightarrow> r = ttl_of t (d k) \<and> d' = d"

definition spec_Persist :: "string \<Rightarrow> go_error option spec" where
  "spec_Persist k t d r d' \<longleftrightarrow>
     r = (if present (d k) then None else Some (ErrMsg ''Key not found'')) \<and>
     d' = (if present (d k) then d(k := (d k)\<lparr>expiry := None\<rparr>) else d)"

definition spec_Keys :: "string \<Rightarrow> string list spec" where
  "spec_Keys p t d r d' \<longleftrightarrow> set r = {k. live t (d k) \<and> matchPattern p k} \<and> d' = d"

definition spec_FlushAll :: "unit spec" where
  "spec_FlushAll t d r d' \<longleftrightarrow> d' = (\<lambda>_. no_entry)"

definition spec_Size :: "nat spec" where
  \<comment> \<open>a key that holds values of several types counts once for each\<close>
  "spec_Size t d r d' \<longleftrightarrow>
     r = card {k. str (d k) \<noteq> None} + card {k. lst (d k) \<noteq> None} +
         card {k. mems (d k) \<noteq> None} + card {k. flds (d k) \<noteq> None} \<and> d' = d"

definition spec_LPush :: "string \<Rightarrow> string list \<Rightarrow> nat spec" where
  "spec_LPush k vs t d r d' \<longleftrightarrow>
     r = length vs + length (the_list (d k)) \<and>
     d' = d(k := (d k)\<lparr>lst := Some (vs @ the_list (d k))\<rparr>)"

definition spec_RPush :: "string \<Rightarrow> string list \<Rightarrow> nat spec" where
  "spec_RPush k vs t d r d' \<longleftrightarrow>
     r = length (the_list (d k)) + length vs \<and>
     d' = d(k := (d k)\<lparr>lst := Some (the_list (d k) @ vs)\<rparr>)"

definition spec_LPop :: "string \<Rightarrow> (go_error + string) spec" where
  "spec_LPop k t d r d' \<longleftrightarrow>
     (case the_list (d k) of
        [] \<Rightarrow> r = Inl (ErrMsg ''empty list'') \<and> d' = d
      | v # vs \<Rightarrow> r = Inr v \<and> d' = d(k := (d k)\<lparr>lst := some_list vs\<rparr>))"

definition spec_RPop :: "string \<Rightarrow> (go_error + string) spec" where
  "spec_RPop k t d r d' \<longleftrightarrow>
     (if the_list (d k) = [] then r = Inl (ErrMsg ''empty list'') \<and> d' = d
      else r = Inr (last (the_list (d k))) \<and>
           d' = d(k := (d k)\<lparr>lst := some_list (butlast (the_list (d k)))\<rparr>))"

definition spec_LLen :: "string \<Rightarrow> nat spec" where
  "spec_LLen k t d r d' \<longleftrightarrow> r = length (the_list (d k)) \<and> d' = d"

definition spec_LRange :: "string \<Rightarrow> int \<Rightarrow> int \<Rightarrow> string list spec" where
  "spec_LRange k start stop t d r d' \<longleftrightarrow>
     (length (the_list (d k)) < 2 ^ 63 \<longrightarrow> in_int64 start \<longrightarrow> in_int64 stop \<longrightarrow>
        r = list_slice (the_list (d k)) start stop) \<and> d' = d"

definition spec_LIndex :: "string \<Rightarrow> int \<Rightarrow> (go_error + string) spec" where
  "spec_LIndex k i t d r d' \<longleftrightarrow>
     (length (the_list (d k)) < 2 ^ 63 \<longrightarrow> in_int64 i \<longrightarrow>
        (let l = the_list (d k); j = abs_index (int (length l)) i
         in if 0 \<le> j \<and> j < int (length l) then r = Inr (l ! nat j) else isl r)) \<and> d' = d"

definition spec_SAdd :: "string \<Rightarrow> string list \<Rightarrow> nat spec" where
  "spec_SAdd k ms t d r d' \<longleftrightarrow>
     r = fcard (fset_of_list ms |-| the_mems (d k)) \<and>
     d' = d(k := (d k)\<lparr>mems := Some (the_mems (d k) |\<union>| fset_of_list ms)\<rparr>)"

definition srem_entry :: "string list \<Rightarrow> entry \<Rightarrow> entry" where
  "srem_entry ms e =
     (if mems e = None then e else e\<lparr>mems := some_mems (the_mems e |-| fset_of_list ms)\<rparr>)"

definition spec_SRem :: "string \<Rightarrow> string list \<Rightarrow> nat spec" where
  "spec_SRem k ms t d r d' \<longleftrightarrow>
     r = fcard (the_mems (d k) |\<inter>| fset_of_list ms) \<and> d' = d(k := srem_entry ms (d k))"

definition spec_SMembers :: "string \<Rightarrow> string list spec" where
  "spec_SMembers k t d r d' \<longleftrightarrow> distinct r \<and> set r = fset (the_mems (d k)) \<and> d' = d"

definition spec_SIsMember :: "string \<Rightarrow> string \<Rightarrow> bool spec" where
  "spec_SIsMember k m t d r d' \<longleftrightarrow> r = (m |\<in>| the_mems (d k)) \<and> d' = d"

definition spec_SCard :: "string \<Rightarrow> nat spec" where
  "spec_SCard k t d r d' \<longleftrightarrow> r = fcard (the_mems (d k)) \<and> d' = d"

definition spec_SPop :: "string \<Rightarrow> (go_error + string) spec" where
  "spec_SPop k t d r d' \<longleftrightarrow>
     (case r of
        Inl err \<Rightarrow> the_mems (d k) = {||} \<and> d' = d
      | Inr m \<Rightarrow> m |\<in>| the_mems (d k) \<and>
          d' = d(k := (d k)\<lparr>mems := some_mems (the_mems (d k) |-| {|m|})\<rparr>))"

definition spec_SRandMember :: "string \<Rightarrow> (go_error + string) spec" where
  "spec_SRandMember k t d r d' \<longleftrightarrow>
     (case r of Inl err \<Rightarrow> the_mems (d k) = {||} | Inr m \<Rightarrow> m |\<in>| the_mems (d k)) \<and> d' = d"

definition spec_HSet :: "string \<Rightarrow> string \<Rightarrow> string \<Rightarrow> nat spec" where
  "spec_HSet k f v t d r d' \<longleftrightarrow>
     r = (if fmlookup (the_flds (d k)) f = None then 1 else 0) \<and>
     d' = d(k := (d k)\<lparr>flds := Some (fmupd f v (the_flds (d k)))\<rparr>)"

definition spec_HGet :: "string \<Rightarrow> string \<Rightarrow> (go_error + string) spec" where
  "spec_HGet k f t d r d' \<longleftrightarrow>
     r = (case fmlookup (the_flds (d k)) f of
            None \<Rightarrow> Inl (ErrMsg ''field not found'') | Some v \<Rightarrow> Inr v) \<and> d' = d"

definition hdel_entry :: "string list \<Rightarrow> entry \<Rightarrow> entry" where
  "hdel_entry fs e =
     (if flds e = None then e
      else e\<lparr>flds := some_flds (fmdrop_fset (fset_of_list fs) (the_flds e))\<rparr>)"

definition spec_HDel :: "string \<Rightarrow> string list \<Rightarrow> nat spec" where
  "spec_HDel k fs t d r d' \<longleftrightarrow>
     r = fcard (fmdom (the_flds (d k)) |\<inter>| fset_of_list fs) \<and> d' = d(k := hdel_entry fs (d k))"

definition spec_HGetAll :: "string \<Rightarrow> string list spec" where
  "spec_HGetAll k t d r d' \<longleftrightarrow>
     (\<exists>ks. distinct ks \<and> set ks = fmdom' (the_flds (d k)) \<and>
        r = concat (map (\<lambda>f. [f, the (fmlookup (the_flds (d k)) f)]) ks)) \<and> d' = d"

definition spec_HKeys :: "string \<Rightarrow> string list spec" where
  "spec_HKeys k t d r d' \<longleftrightarrow> distinct r \<and> set r = fmdom' (the_flds (d k)) \<and> d' = d"

definition spec_HVals :: "string \<Rightarrow> string list spec" where
  "spec_HVals k t d r d' \<longleftrightarrow>
     (\<exists>ks. distinct ks \<and> set ks = fmdom' (the_flds (d k)) \<and>
        r = map (\<lambda>f. the (fmlookup (the_flds (d k)) f)) ks) \<and> d' = d"

definition spec_HExists :: "string \<Rightarrow> string \<Rightarrow> bool spec" where
  "spec_HExists k f t d r d' \<longleftrightarrow> r = (fmlookup (the_flds (d k)) f \<noteq> None) \<and> d' = d"

definition spec_HLen :: "string \<Rightarrow> nat spec" where
  "spec_HLen k t d r d' \<longleftrightarrow> r = map_len (the_flds (d k)) \<and> d' = d"

definition spec_HMSet :: "string \<Rightarrow> (string, string) fmap \<Rightarrow> unit spec" where
  "spec_HMSet k fs t d r d' \<longleftrightarrow> d' = d(k := (d k)\<lparr>flds := Some (the_flds (d k) ++\<^sub>f fs)\<rparr>)"

definition spec_HMGet :: "string \<Rightarrow> string list \<Rightarrow> string list spec" where
  "spec_HMGet k fs t d r d' \<longleftrightarrow>
     r = map (\<lambda>f. case fmlookup (the_flds (d k)) f of None \<Rightarrow> '''' | Some v \<Rightarrow> v) fs \<and> d' = d"

lemmas spec_defs =
  spec_Get_def spec_Set_def spec_Del_def spec_Exists_def spec_bump_def spec_Expire_def
  spec_TTL_def spec_Persist_def spec_Keys_def spec_FlushAll_def spec_Size_def spec_LPush_def
  spec_RPush_def spec_LPop_def spec_RPop_def spec_LLen_def spec_LRange_def spec_LIndex_def
  spec_SAdd_def spec_SRem_def spec_SMembers_def spec_SIsMember_def spec_SCard_def spec_SPop_def
  spec_SRandMember_def spec_HSet_def spec_HGet_def spec_HDel_def spec_HGetAll_def spec_HKeys_def
  spec_HVals_def spec_HExists_def spec_HLen_def spec_HMSet_def spec_HMGet_def

text \<open>The methods on keys and strings, and the extension by the other types.\<close>

locale keyspace_engine =
  fixes eng :: "'s StorageEngine"
    and ok :: "'s \<Rightarrow> bool" and db :: "'s \<Rightarrow> db" and clk :: "'s \<Rightarrow> int"
  assumes Get: "does ok db clk (eGet eng k) (spec_Get k)"
    and Set: "does ok db clk (eSet eng k v) (spec_Set k v)"
    and Del: "does ok db clk (eDel eng k) (spec_Del k)"
    and Exists: "does ok db clk (eExists eng k) (spec_Exists k)"
    and Incr: "does ok db clk (eIncr eng k) (spec_bump 1 k)"
    and Decr: "does ok db clk (eDecr eng k) (spec_bump (-1) k)"
    and Expire: "does ok db clk (eExpire eng k ttl) (spec_Expire k ttl)"
    and TTL: "does ok db clk (eTTL eng k) (spec_TTL k)"
    and Persist: "does ok db clk (ePersist eng k) (spec_Persist k)"
    and Keys: "does ok db clk (eKeys eng p) (spec_Keys p)"
    and FlushAll: "does ok db clk (eFlushAll eng) spec_FlushAll"
    and Size: "does ok db clk (eSize eng) spec_Size"

locale storage_engine = keyspace_engine eng ok db clk
  for eng :: "'s StorageEngine" and ok db clk +
  assumes LPush: "does ok db clk (eLPush eng k vs) (spec_LPush k vs)"
    and RPush: "does ok db clk (eRPush eng k vs) (spec_RPush k vs)"
    and LPop: "does ok db clk (eLPop eng k) (spec_LPop k)"
    and RPop: "does ok db clk (eRPop eng k) (spec_RPop k)"
    and LLen: "does ok db clk (eLLen eng k) (spec_LLen k)"
    and LRange: "does ok db clk (eLRange eng k i j) (spec_LRange k i j)"
    and LIndex: "does ok db clk (eLIndex eng k i) (spec_LIndex k i)"
    and SAdd: "does ok db clk (eSAdd eng k vs) (spec_SAdd k vs)"
    and SRem: "does ok db clk (eSRem eng k vs) (spec_SRem k vs)"
    and SMembers: "does ok db clk (eSMembers eng k) (spec_SMembers k)"
    and SIsMember: "does ok db clk (eSIsMember eng k m) (spec_SIsMember k m)"
    and SCard: "does ok db clk (eSCard eng k) (spec_SCard k)"
    and SPop: "does ok db clk (eSPop eng k) (spec_SPop k)"
    and SRandMember: "does ok db clk (eSRandMember eng k) (spec_SRandMember k)"
    and HSet: "does ok db clk (eHSet eng k f v) (spec_HSet k f v)"
    and HGet: "does ok db clk (eHGet eng k f) (spec_HGet k f)"
    and HDel: "does ok db clk (eHDel eng k vs) (spec_HDel k vs)"
    and HGetAll: "does ok db clk (eHGetAll eng k) (spec_HGetAll k)"
    and HKeys: "does ok db clk (eHKeys eng k) (spec_HKeys k)"
    and HVals: "does ok db clk (eHVals eng k) (spec_HVals k)"
    and HExists: "does ok db clk (eHExists eng k f) (spec_HExists k f)"
    and HLen: "does ok db clk (eHLen eng k) (spec_HLen k)"
    and HMSet: "does ok db clk (eHMSet eng k fs) (spec_HMSet k fs)"
    and HMGet: "does ok db clk (eHMGet eng k vs) (spec_HMGet k vs)"

subsection \<open>The memory engine satisfies the contract\<close>

definition mem_ok :: "'w mem_state \<Rightarrow> bool" where
  "mem_ok s \<longleftrightarrow> wf_store (store (fst s))"

definition mem_db :: "'w mem_state \<Rightarrow> db" where
  "mem_db s = view (store (fst s))"

definition mem_clk :: "'w mem_state \<Rightarrow> int" where
  "mem_clk s = clock (snd s)"

lemmas mem_abs_defs = mem_ok_def mem_db_def mem_clk_def

text \<open>How the three ways of calling the store act on the database.\<close>

lemma does_call:
  assumes "\<And>st. wf_store st \<Longrightarrow> wf_store (snd (f st))"
    and "\<And>st t. wf_store st \<Longrightarrow> P t (view st) (fst (f st)) (view (snd (f st)))"
  shows "does mem_ok mem_db mem_clk (call f) P"
  by (rule doesI) (use assms in \<open>auto simp: call_def mem_abs_defs case_prod_unfold\<close>)

lemma does_exec:
  assumes "\<And>st. wf_store st \<Longrightarrow> wf_store (f st)"
    and "\<And>st t. wf_store st \<Longrightarrow> P t (view st) () (view (f st))"
  shows "does mem_ok mem_db mem_clk (exec f) P"
  by (rule doesI) (use assms in \<open>auto simp: exec_def mem_abs_defs\<close>)

lemma does_query:
  assumes "\<And>st t. wf_store st \<Longrightarrow> P t (view st) (f st) (view st)"
  shows "does mem_ok mem_db mem_clk (query f) P"
  by (rule doesI) (use assms in \<open>auto simp: query_def mem_abs_defs\<close>)

text \<open>Methods that first read the clock or draw an iteration order.\<close>

lemma does_timed:
  assumes "\<And>x. does mem_ok mem_db mem_clk (m x) (\<lambda>t d r d'. P x d r d')"
  shows "does mem_ok mem_db mem_clk (on_world time_Now \<bind> m) P"
proof (rule doesI)
  fix s :: "'a mem_state"
  assume s: "mem_ok s"
  let ?s = "(fst s, after time_Now (snd s))"
  have "mem_ok ?s" "mem_db ?s = mem_db s" "mem_clk s \<le> mem_clk ?s"
    using s time_Now_mono [of "snd s"] by (simp_all add: mem_abs_defs)
  moreover have "run_state (on_world time_Now \<bind> m) s = run_state (m (mem_clk s)) ?s"
    by (simp add: mem_clk_def split: prod.split) (metis fst_conv runs_time_Now)
  ultimately show "mem_ok (after (on_world time_Now \<bind> m) s) \<and>
      mem_clk s \<le> mem_clk (after (on_world time_Now \<bind> m) s) \<and>
      P (mem_clk s) (mem_db s) (runs (on_world time_Now \<bind> m) s)
        (mem_db (after (on_world time_Now \<bind> m) s))"
    using doesD [OF assms [of "mem_clk s"], of ?s] by force
qed

lemma does_drawn:
  assumes "\<And>w. clock (after m w) = clock w" and "\<And>x. does mem_ok mem_db mem_clk (f x) P"
  shows "does mem_ok mem_db mem_clk (on_world m \<bind> f) P"
proof (rule doesI)
  fix s :: "'a mem_state"
  assume s: "mem_ok s"
  obtain x w where m: "run_state m (snd s) = (x, w)" by (metis prod.exhaust)
  have "clock w = clock (snd s)" using assms(1) [of "snd s"] m by simp
  moreover have "run_state (on_world m \<bind> f) s = run_state (f x) (fst s, w)" by (simp add: m)
  ultimately show "mem_ok (after (on_world m \<bind> f) s) \<and>
      mem_clk s \<le> mem_clk (after (on_world m \<bind> f) s) \<and>
      P (mem_clk s) (mem_db s) (runs (on_world m \<bind> f) s) (mem_db (after (on_world m \<bind> f) s))"
    using doesD [OF assms(2) [of x], of "(fst s, w)"] s by (simp add: mem_abs_defs)
qed

lemmas does_intros = does_timed does_drawn does_call does_exec does_query

lemma spec_LIndex_Store:
  "spec_LIndex k i t (view st) (Store_LIndex k i st) (view st)"
  by (auto simp: spec_LIndex_def Store_LIndex_nth Let_def)

lemma spec_SPop_Store:
  "wf_store st \<Longrightarrow> spec_SPop k t (view st) (fst (Store_SPop ord k st)) (view (snd (Store_SPop ord k st)))"
  by (rule Store_SPop_cases [of st k ord]) (auto simp: spec_SPop_def)

lemma spec_SRandMember_Store:
  "spec_SRandMember k t (view st) (Store_SRandMember r ord k st) (view st)"
proof -
  let ?m = "the_mems (view st k)" and ?ms = "go_order ord (sorted_list_of_fset (the_mems (view st k)))"
  have len: "length ?ms = fcard ?m" by (simp add: fcard.rep_eq sorted_list_of_fset.rep_eq)
  show ?thesis
  proof (cases "?m = {||}")
    case True
    then show ?thesis by (simp add: spec_SRandMember_def Store_SRandMember_def Let_def)
  next
    case False
    then have lt: "rand_Intn r (fcard ?m) < fcard ?m"
      by (intro rand_Intn_less) (simp add: fcard_0_eq flip: neq0_conv)
    then have "?ms ! rand_Intn r (fcard ?m) \<in> set ?ms" using len by (intro nth_mem) simp
    then have "?ms ! rand_Intn r (fcard ?m) |\<in>| ?m" by simp
    with False lt len show ?thesis
      by (simp add: spec_SRandMember_def Store_SRandMember_def Let_def)
  qed
qed

lemma bump_result_Inl: "bump_result i e = Inl x \<Longrightarrow> bump i e = e"
  by (simp add: bump_result_def bump_def split: option.splits)

lemma expired_mono: "t \<le> t' \<Longrightarrow> expired t e \<Longrightarrow> expired t' e"
  by (auto simp: expired_def split: option.splits)

lemma does_MemoryEngine_Exists:
  "does mem_ok mem_db mem_clk (MemoryEngine_Exists k) (spec_Exists k)"
proof (rule doesI)
  fix s :: "'a mem_state"
  assume s: "mem_ok s"
  obtain e w where [simp]: "s = (e, w)" by (cases s)
  obtain t w1 where t: "run_state time_Now w = (t, w1)" by (metis prod.exhaust)
  obtain t2 w2 where t2: "run_state time_Now w1 = (t2, w2)" by (metis prod.exhaust)
  have clk: "t = clock w" "t2 = clock w1" "clock w \<le> clock w1" "clock w1 \<le> clock w2"
    using time_Now_mono [of w] time_Now_mono [of w1] runs_time_Now [of w] runs_time_Now [of w1] t t2
    by simp_all
  have run: "run_state (MemoryEngine_Exists k) s =
      (fst (Store_Exists t t2 k (store e)), (e\<lparr>store := snd (Store_Exists t t2 k (store e))\<rparr>, w2))"
    by (simp add: MemoryEngine_Exists_def t t2 call_def clk(2) [symmetric] split: prod.split)
  have wf: "wf_store (store e)" using s by (simp add: mem_ok_def)
  show "mem_ok (after (MemoryEngine_Exists k) s) \<and>
      mem_clk s \<le> mem_clk (after (MemoryEngine_Exists k) s) \<and>
      spec_Exists k (mem_clk s) (mem_db s) (runs (MemoryEngine_Exists k) s)
        (mem_db (after (MemoryEngine_Exists k) s))"
    unfolding run using wf clk expired_mono [of "clock w" "clock w1"]
    by (auto simp: mem_abs_defs spec_Exists_def Store_Exists_result wf_intros view_simps)
qed

lemmas mem_spec_facts =
  Store_Get_result Store_Del_result Store_Incr_result Store_Decr_result Store_Expire_result
  Store_TTL_view Store_Persist_result set_Store_Keys Store_Size_view Store_LPush_result
  Store_RPush_result Store_LPop_result Store_RPop_result Store_LRange_slice Store_SAdd_result
  Store_SRem_result Store_HSet_result Store_HGet_view Store_HDel_result
  Store_LLen_def Store_SMembers_def Store_SIsMember_def Store_SCard_def Store_HGetAll_def
  Store_HKeys_def Store_HVals_def Store_HLen_def Store_HMGet_def

lemmas mem_entry_facts =
  get_entry_def get_result_def set_entry_def ttl_of_def srem_entry_def hdel_entry_def

named_theorems mem_laws \<open>the memory engine obeys the specification of each method\<close>

lemmas [mem_laws] = does_MemoryEngine_Exists

lemma does_MemoryEngine_Set [mem_laws]:
  "does mem_ok mem_db mem_clk (MemoryEngine_Set k v) (spec_Set k v)"
  by (rule doesI)
    (auto simp: MemoryEngine_Set_def exec_def mem_abs_defs spec_Set_def set_entry_def wf_intros view_simps)

lemma does_MemoryEngine_Get [mem_laws]:
  "does mem_ok mem_db mem_clk (MemoryEngine_Get k) (spec_Get k)"
  unfolding MemoryEngine_Get_def
  by (rule does_timed, rule does_call)
    (auto simp: spec_defs mem_spec_facts mem_entry_facts wf_intros view_simps split: option.splits sum.splits list.splits)

lemma does_MemoryEngine_Del [mem_laws]:
  "does mem_ok mem_db mem_clk (MemoryEngine_Del k) (spec_Del k)"
  unfolding MemoryEngine_Del_def
  by (rule does_call)
    (auto simp: spec_defs mem_spec_facts mem_entry_facts wf_intros view_simps split: option.splits sum.splits list.splits)

lemma does_MemoryEngine_Incr [mem_laws]:
  "does mem_ok mem_db mem_clk (MemoryEngine_Incr k) (spec_bump 1 k)"
  unfolding MemoryEngine_Incr_def
  by (rule does_call)
    (auto simp: bump_result_Inl spec_defs mem_spec_facts mem_entry_facts wf_intros view_simps split: option.splits sum.splits list.splits)

lemma does_MemoryEngine_Decr [mem_laws]:
  "does mem_ok mem_db mem_clk (MemoryEngine_Decr k) (spec_bump (-1) k)"
  unfolding MemoryEngine_Decr_def
  by (rule does_call)
    (auto simp: bump_result_Inl spec_defs mem_spec_facts mem_entry_facts wf_intros view_simps split: option.splits sum.splits list.splits)

lemma does_MemoryEngine_Expire [mem_laws]:
  "does mem_ok mem_db mem_clk (MemoryEngine_Expire k ttl) (spec_Expire k ttl)"
  unfolding MemoryEngine_Expire_def
  by (rule does_timed, rule does_call)
    (auto simp: spec_defs mem_spec_facts mem_entry_facts wf_intros view_simps split: option.splits sum.splits list.splits)

lemma does_MemoryEngine_TTL [mem_laws]:
  "does mem_ok mem_db mem_clk (MemoryEngine_TTL k) (spec_TTL k)"
  unfolding MemoryEngine_TTL_def
  by (rule does_timed, rule does_query)
    (auto simp: spec_defs mem_spec_facts mem_entry_facts wf_intros view_simps split: option.splits sum.splits list.splits)

lemma does_MemoryEngine_Persist [mem_laws]:
  "does mem_ok mem_db mem_clk (MemoryEngine_Persist k) (spec_Persist k)"
  unfolding MemoryEngine_Persist_def
  by (rule does_call)
    (auto simp: spec_defs mem_spec_facts mem_entry_facts wf_intros view_simps split: option.splits sum.splits list.splits)

lemma does_MemoryEngine_Keys [mem_laws]:
  "does mem_ok mem_db mem_clk (MemoryEngine_Keys p) (spec_Keys p)"
  unfolding MemoryEngine_Keys_def
  by (rule does_timed, rule does_drawn, simp, rule does_query)
    (auto simp: spec_defs mem_spec_facts mem_entry_facts wf_intros view_simps split: option.splits sum.splits list.splits)

lemma does_MemoryEngine_FlushAll [mem_laws]:
  "does mem_ok mem_db mem_clk MemoryEngine_FlushAll spec_FlushAll"
  unfolding MemoryEngine_FlushAll_def
  by (rule does_exec)
    (auto simp: spec_defs mem_spec_facts mem_entry_facts wf_intros view_simps split: option.splits sum.splits list.splits)

lemma does_MemoryEngine_Size [mem_laws]:
  "does mem_ok mem_db mem_clk MemoryEngine_Size spec_Size"
  unfolding MemoryEngine_Size_def
  by (rule does_query)
    (auto simp: spec_defs mem_spec_facts mem_entry_facts wf_intros view_simps split: option.splits sum.splits list.splits)

lemma does_MemoryEngine_LPush [mem_laws]:
  "does mem_ok mem_db mem_clk (MemoryEngine_LPush k vs) (spec_LPush k vs)"
  unfolding MemoryEngine_LPush_def
  by (rule does_call)
    (auto simp: spec_defs mem_spec_facts mem_entry_facts wf_intros view_simps split: option.splits sum.splits list.splits)

lemma does_MemoryEngine_RPush [mem_laws]:
  "does mem_ok mem_db mem_clk (MemoryEngine_RPush k vs) (spec_RPush k vs)"
  unfolding MemoryEngine_RPush_def
  by (rule does_call)
    (auto simp: spec_defs mem_spec_facts mem_entry_facts wf_intros view_simps split: option.splits sum.splits list.splits)

lemma does_MemoryEngine_LPop [mem_laws]:
  "does mem_ok mem_db mem_clk (MemoryEngine_LPop k) (spec_LPop k)"
  unfolding MemoryEngine_LPop_def
  by (rule does_call)
    (auto simp: spec_defs mem_spec_facts mem_entry_facts wf_intros view_simps split: option.splits sum.splits list.splits)

lemma does_MemoryEngine_RPop [mem_laws]:
  "does mem_ok mem_db mem_clk (MemoryEngine_RPop k) (spec_RPop k)"
  unfolding MemoryEngine_RPop_def
  by (rule does_call)
    (auto simp: spec_defs mem_spec_facts mem_entry_facts wf_intros view_simps split: option.splits sum.splits list.splits)

lemma does_MemoryEngine_LLen [mem_laws]:
  "does mem_ok mem_db mem_clk (MemoryEngine_LLen k) (spec_LLen k)"
  unfolding MemoryEngine_LLen_def
  by (rule does_query)
    (auto simp: spec_defs mem_spec_facts mem_entry_facts wf_intros view_simps split: option.splits sum.splits list.splits)

lemma does_MemoryEngine_LRange [mem_laws]:
  "does mem_ok mem_db mem_clk (MemoryEngine_LRange k i j) (spec_LRange k i j)"
  unfolding MemoryEngine_LRange_def
  by (rule does_query)
    (auto simp: spec_defs mem_spec_facts mem_entry_facts wf_intros view_simps split: option.splits sum.splits list.splits)

lemma does_MemoryEngine_LIndex [mem_laws]:
  "does mem_ok mem_db mem_clk (MemoryEngine_LIndex k i) (spec_LIndex k i)"
  unfolding MemoryEngine_LIndex_def
  by (rule does_query)
    (auto simp: wf_intros spec_LIndex_Store)

lemma does_MemoryEngine_SAdd [mem_laws]:
  "does mem_ok mem_db mem_clk (MemoryEngine_SAdd k vs) (spec_SAdd k vs)"
  unfolding MemoryEngine_SAdd_def
  by (rule does_call)
    (auto simp: spec_defs mem_spec_facts mem_entry_facts wf_intros view_simps split: option.splits sum.splits list.splits)

lemma does_MemoryEngine_SRem [mem_laws]:
  "does mem_ok mem_db mem_clk (MemoryEngine_SRem k vs) (spec_SRem k vs)"
  unfolding MemoryEngine_SRem_def
  by (rule does_call)
    (auto simp: spec_defs mem_spec_facts mem_entry_facts wf_intros view_simps split: option.splits sum.splits list.splits)

lemma does_MemoryEngine_SMembers [mem_laws]:
  "does mem_ok mem_db mem_clk (MemoryEngine_SMembers k) (spec_SMembers k)"
  unfolding MemoryEngine_SMembers_def
  by (rule does_drawn, simp, rule does_query)
    (auto simp: spec_defs mem_spec_facts mem_entry_facts wf_intros view_simps split: option.splits sum.splits list.splits)

lemma does_MemoryEngine_SIsMember [mem_laws]:
  "does mem_ok mem_db mem_clk (MemoryEngine_SIsMember k m) (spec_SIsMember k m)"
  unfolding MemoryEngine_SIsMember_def
  by (rule does_query)
    (auto simp: spec_defs mem_spec_facts mem_entry_facts wf_intros view_simps split: option.splits sum.splits list.splits)

lemma does_MemoryEngine_SCard [mem_laws]:
  "does mem_ok mem_db mem_clk (MemoryEngine_SCard k) (spec_SCard k)"
  unfolding MemoryEngine_SCard_def
  by (rule does_query)
    (auto simp: spec_defs mem_spec_facts mem_entry_facts wf_intros view_simps split: option.splits sum.splits list.splits)

lemma does_MemoryEngine_SPop [mem_laws]:
  "does mem_ok mem_db mem_clk (MemoryEngine_SPop k) (spec_SPop k)"
  unfolding MemoryEngine_SPop_def
  by (rule does_drawn, simp, rule does_call)
    (auto simp: wf_intros spec_SPop_Store)

lemma does_MemoryEngine_SRandMember [mem_laws]:
  "does mem_ok mem_db mem_clk (MemoryEngine_SRandMember k) (spec_SRandMember k)"
  unfolding MemoryEngine_SRandMember_def
  by (rule does_drawn, simp, rule does_drawn, simp, rule does_query)
    (auto simp: wf_intros spec_SRandMember_Store)

lemma does_MemoryEngine_HSet [mem_laws]:
  "does mem_ok mem_db mem_clk (MemoryEngine_HSet k f v) (spec_HSet k f v)"
  unfolding MemoryEngine_HSet_def
  by (rule does_call)
    (auto simp: spec_defs mem_spec_facts mem_entry_facts wf_intros view_simps split: option.splits sum.splits list.splits)

lemma does_MemoryEngine_HGet [mem_laws]:
  "does mem_ok mem_db mem_clk (MemoryEngine_HGet k f) (spec_HGet k f)"
  unfolding MemoryEngine_HGet_def
  by (rule does_query)
    (auto simp: spec_defs mem_spec_facts mem_entry_facts wf_intros view_simps split: option.splits sum.splits list.splits)

lemma does_MemoryEngine_HDel [mem_laws]:
  "does mem_ok mem_db mem_clk (MemoryEngine_HDel k vs) (spec_HDel k vs)"
  unfolding MemoryEngine_HDel_def
  by (rule does_call)
    (auto simp: spec_defs mem_spec_facts mem_entry_facts wf_intros view_simps split: option.splits sum.splits list.splits)

lemma does_MemoryEngine_HGetAll [mem_laws]:
  "does mem_ok mem_db mem_clk (MemoryEngine_HGetAll k) (spec_HGetAll k)"
  unfolding MemoryEngine_HGetAll_def
  by (rule does_drawn, simp, rule does_query)
    (auto simp: spec_defs mem_spec_facts Let_def intro: exI [of _ "go_order _ (map_keys _)"])

lemma does_MemoryEngine_HKeys [mem_laws]:
  "does mem_ok mem_db mem_clk (MemoryEngine_HKeys k) (spec_HKeys k)"
  unfolding MemoryEngine_HKeys_def
  by (rule does_drawn, simp, rule does_query)
    (auto simp: spec_defs mem_spec_facts mem_entry_facts wf_intros view_simps split: option.splits sum.splits list.splits)

lemma does_MemoryEngine_HVals [mem_laws]:
  "does mem_ok mem_db mem_clk (MemoryEngine_HVals k) (spec_HVals k)"
  unfolding MemoryEngine_HVals_def
  by (rule does_drawn, simp, rule does_query)
    (auto simp: spec_defs mem_spec_facts Let_def intro: exI [of _ "go_order _ (map_keys _)"])

lemma does_MemoryEngine_HExists [mem_laws]:
  "does mem_ok mem_db mem_clk (MemoryEngine_HExists k f) (spec_HExists k f)"
  unfolding MemoryEngine_HExists_def
  by (rule does_query)
    (auto simp: spec_defs Store_HExists_def the_flds_def split: option.splits)

lemma does_MemoryEngine_HLen [mem_laws]:
  "does mem_ok mem_db mem_clk (MemoryEngine_HLen k) (spec_HLen k)"
  unfolding MemoryEngine_HLen_def
  by (rule does_query)
    (auto simp: spec_defs mem_spec_facts mem_entry_facts wf_intros view_simps split: option.splits sum.splits list.splits)

lemma does_MemoryEngine_HMSet [mem_laws]:
  "does mem_ok mem_db mem_clk (MemoryEngine_HMSet k fs) (spec_HMSet k fs)"
  unfolding MemoryEngine_HMSet_def
  by (rule does_drawn, simp, rule does_exec)
    (auto simp: spec_defs mem_spec_facts mem_entry_facts wf_intros view_simps split: option.splits sum.splits list.splits)

lemma does_MemoryEngine_HMGet [mem_laws]:
  "does mem_ok mem_db mem_clk (MemoryEngine_HMGet k vs) (spec_HMGet k vs)"
  unfolding MemoryEngine_HMGet_def
  by (rule does_query)
    (auto simp: spec_defs mem_spec_facts mem_entry_facts wf_intros view_simps split: option.splits sum.splits list.splits)

interpretation mem: storage_engine MemoryEngine_methods mem_ok mem_db mem_clk
  by unfold_locales (simp_all add: MemoryEngine_methods_def mem_laws)

subsection \<open>The logging engine satisfies the contract\<close>

definition wal_ok :: "wal_engine_state \<Rightarrow> bool" where
  "wal_ok s \<longleftrightarrow> wf_store (store (mem (fst s)))"

definition wal_db :: "wal_engine_state \<Rightarrow> db" where
  "wal_db s = view (store (mem (fst s)))"

definition wal_clk :: "wal_engine_state \<Rightarrow> int" where
  "wal_clk s = clock (snd s)"

lemmas wal_abs_defs = wal_ok_def wal_db_def wal_clk_def

text \<open>What the memory engine does, it does inside the logging engine.\<close>

lemma does_on_mem:
  assumes "does mem_ok mem_db mem_clk m P"
  shows "does wal_ok wal_db wal_clk (on_mem m) P"
proof (rule doesI)
  fix s :: wal_engine_state
  assume s: "wal_ok s"
  obtain e w where [simp]: "s = (e, w)" by (cases s)
  obtain r m' w' where run: "run_state m (mem e, w) = (r, (m', w'))" by (metis prod.exhaust)
  have "run_state (on_mem m) s = (r, (e\<lparr>mem := m'\<rparr>, w'))"
    by (simp add: on_mem_def run)
  then show "wal_ok (after (on_mem m) s) \<and> wal_clk s \<le> wal_clk (after (on_mem m) s) \<and>
      P (wal_clk s) (wal_db s) (runs (on_mem m) s) (wal_db (after (on_mem m) s))"
    using doesD [OF assms, of "(mem e, w)"] s run by (simp add: mem_abs_defs wal_abs_defs)
qed

text \<open>The log leaves the clock alone, whatever it does to the disk.\<close>

definition keeps_clock :: "('s \<times> os_world, 'r) state \<Rightarrow> bool" where
  "keeps_clock m \<longleftrightarrow> (\<forall>s. clock (snd (after m s)) = clock (snd s))"

lemma keeps_clock_bind [intro]:
  "keeps_clock m \<Longrightarrow> (\<And>x. keeps_clock (f x)) \<Longrightarrow> keeps_clock (m \<bind> f)"
  by (simp add: keeps_clock_def case_prod_unfold del: split_paired_All)

lemma keeps_clock_simps [simp]:
  "keeps_clock (ret x)" "keeps_clock get_wal" "keeps_clock (upd_wal g)"
  by (simp_all add: keeps_clock_def)

lemma keeps_clock_on_world: "(\<And>w. clock (after m w) = clock w) \<Longrightarrow> keeps_clock (on_world m)"
  by (simp add: keeps_clock_def case_prod_unfold)

lemma clock_files [simp]:
  "clock (append_file name b w) = clock w" "clock (sync_file name w) = clock w"
  "clock (create_file name w) = clock w" "clock (after os_call w) = clock w"
  by (simp_all add: append_file_def sync_file_def create_file_def os_call_def split: option.split)

lemma clock_manifest [simp]:
  "clock (after readManifest w) = clock w" "clock (after (writeManifestFile segs) w) = clock w"
  by (simp_all add: readManifest_def writeManifestFile_def case_prod_unfold)

lemma keeps_clock_writeManifest: "keeps_clock writeManifest"
  unfolding writeManifest_def
  by (intro keeps_clock_bind) (auto intro!: keeps_clock_on_world split: sum.split)

lemma keeps_clock_rotate: "keeps_clock rotate"
  unfolding rotate_def
  by (intro keeps_clock_bind)
    (auto intro!: keeps_clock_on_world keeps_clock_bind keeps_clock_writeManifest)

lemma keeps_clock_Encode: "keeps_clock (Encode r)"
  unfolding Encode_def
  by (intro keeps_clock_bind)
    (auto intro!: keeps_clock_on_world keeps_clock_bind split: option.split prod.split bool.split)

lemma keeps_clock_encode_batch: "keeps_clock (encode_batch rs n)"
  by (induction rs arbitrary: n)
    (auto intro!: keeps_clock_bind keeps_clock_Encode split: sum.split)

lemma keeps_clock_WAL_Sync: "keeps_clock WAL_Sync"
  unfolding WAL_Sync_def
  by (intro keeps_clock_bind)
    (auto intro!: keeps_clock_on_world keeps_clock_bind split: option.split prod.split bool.split)

lemma keeps_clock_flush_batch: "keeps_clock (flush_batch batch)"
  unfolding flush_batch_def
  by (auto intro!: keeps_clock_bind keeps_clock_encode_batch keeps_clock_WAL_Sync
      keeps_clock_rotate split: prod.split)

text \<open>So a log write is invisible in the database.\<close>

lemma does_WAL_Write: "does wal_ok wal_db wal_clk (on_wal (WAL_Write op args)) (\<lambda>t d r d'. d' = d)"
proof (rule doesI)
  fix s :: wal_engine_state
  assume s: "wal_ok s"
  obtain e w where [simp]: "s = (e, w)" by (cases s)
  obtain r l w' where run: "run_state (WAL_Write op args) (wal e, w) = (r, (l, w'))"
    by (metis prod.exhaust)
  have "clock w' = clock w"
    using keeps_clock_flush_batch [of "[MakeRecord (opToCode op) args]"] run
    unfolding keeps_clock_def WAL_Write_def by (metis snd_conv)
  moreover have "run_state (on_wal (WAL_Write op args)) s = (r, (e\<lparr>wal := l\<rparr>, w'))"
    by (simp add: on_wal_def run)
  ultimately show "wal_ok (after (on_wal (WAL_Write op args)) s) \<and>
      wal_clk s \<le> wal_clk (after (on_wal (WAL_Write op args)) s) \<and>
      wal_db (after (on_wal (WAL_Write op args)) s) = wal_db s"
    using s by (simp add: wal_abs_defs)
qed

lemma does_log_write: "does wal_ok wal_db wal_clk (log_write op args) (\<lambda>t d r d'. d' = d)"
  unfolding log_write_def discard_def
  by (rule does_weaken [OF does_bind [OF does_WAL_Write does_ret]]) auto

lemma does_for_each:
  assumes "\<And>x. does ok db clk (f x) (\<lambda>t d r d'. d' = d)"
  shows "does ok db clk (for_each xs f) (\<lambda>t d r d'. d' = d)"
proof (induction xs)
  case Nil
  show ?case by (simp add: does_def)
next
  case (Cons x xs)
  show ?case
    unfolding for_each.simps
    by (rule does_weaken [OF does_bind [OF assms Cons.IH]]) auto
qed

lemma does_logged_first:
  assumes "does wal_ok wal_db wal_clk m (\<lambda>t d r d'. d' = d)"
    and "does mem_ok mem_db mem_clk n P" and "\<And>t t' d r d'. P t d r d' \<Longrightarrow> P t' d r d'"
  shows "does wal_ok wal_db wal_clk (m \<bind> (\<lambda>_. on_mem n)) P"
  by (rule does_weaken [OF does_bind [OF assms(1) does_on_mem [OF assms(2)]]])
    (use assms(3) in blast)

text \<open>A write that gives up when the log refuses: the database changes only on success.\<close>

lemma does_guarded:
  assumes "does mem_ok mem_db mem_clk m P" and "\<And>t t' d r d'. P t d r d' \<Longrightarrow> P t' d r d'"
    and "\<And>t d e. P t d (fail e) d"
  shows "does wal_ok wal_db wal_clk
    (do { err \<leftarrow> on_wal (WAL_Write op args);
          (case err of Some e \<Rightarrow> ret (fail e) | None \<Rightarrow> on_mem m) }) P"
proof (rule does_weaken [OF does_bind [OF does_WAL_Write]])
  show "does wal_ok wal_db wal_clk (case err of Some e \<Rightarrow> ret (fail e) | None \<Rightarrow> on_mem m) P" for err
    using does_on_mem [OF assms(1)] assms(3) by (cases err) (simp_all add: does_def)
qed (use assms(2) in blast)

text \<open>A pop is logged after it has been done.\<close>

lemma does_popped:
  assumes "does mem_ok mem_db mem_clk m P"
  shows "does wal_ok wal_db wal_clk
    (do { r \<leftarrow> on_mem m;
          (case r of Inl err \<Rightarrow> ret (Inl err)
           | Inr val \<Rightarrow> do { log_write op args; ret (Inr val) }) }) P"
proof (rule does_weaken [OF does_bind [OF does_on_mem [OF assms]]])
  show "does wal_ok wal_db wal_clk
      (case r of Inl err \<Rightarrow> ret (Inl err) | Inr val \<Rightarrow> do { log_write op args; ret (Inr val) })
      (\<lambda>t d r' d'. r' = r \<and> d' = d)" for r :: "'a + 'b"
  proof (cases r)
    case (Inl err)
    then show ?thesis by (simp add: does_ret)
  next
    case (Inr val)
    have "does wal_ok wal_db wal_clk (do { log_write op args; ret (Inr val :: 'a + 'b) })
        (\<lambda>t d r' d'. r' = Inr val \<and> d' = d)"
      by (rule does_weaken [OF does_bind [OF does_log_write does_ret]]) auto
    with Inr show ?thesis by simp
  qed
qed auto

named_theorems wal_laws \<open>the logging engine obeys the specification of each method\<close>

lemmas guarded_facts = spec_Set_def spec_Del_def spec_bump_def

lemma does_WALEngine_guarded [wal_laws]:
  "does wal_ok wal_db wal_clk (WALEngine_Set k v) (spec_Set k v)"
  "does wal_ok wal_db wal_clk (WALEngine_Del k) (spec_Del k)"
  "does wal_ok wal_db wal_clk (WALEngine_Incr k) (spec_bump 1 k)"
  "does wal_ok wal_db wal_clk (WALEngine_Decr k) (spec_bump (-1) k)"
  unfolding wal_method_defs
  by (rule does_guarded, rule mem_laws, simp_all add: guarded_facts)+

lemma does_WALEngine_logged [wal_laws]:
  "does wal_ok wal_db wal_clk WALEngine_FlushAll spec_FlushAll"
  "does wal_ok wal_db wal_clk (WALEngine_LPush k vs) (spec_LPush k vs)"
  "does wal_ok wal_db wal_clk (WALEngine_RPush k vs) (spec_RPush k vs)"
  "does wal_ok wal_db wal_clk (WALEngine_SAdd k vs) (spec_SAdd k vs)"
  "does wal_ok wal_db wal_clk (WALEngine_SRem k vs) (spec_SRem k vs)"
  "does wal_ok wal_db wal_clk (WALEngine_HSet k f v) (spec_HSet k f v)"
  "does wal_ok wal_db wal_clk (WALEngine_HDel k vs) (spec_HDel k vs)"
  unfolding wal_method_defs
  by (rule does_logged_first, (rule does_for_each)?, rule does_log_write, rule mem_laws,
      simp add: spec_defs)+

lemma does_WALEngine_popped [wal_laws]:
  "does wal_ok wal_db wal_clk (WALEngine_LPop k) (spec_LPop k)"
  "does wal_ok wal_db wal_clk (WALEngine_RPop k) (spec_RPop k)"
  "does wal_ok wal_db wal_clk (WALEngine_SPop k) (spec_SPop k)"
  unfolding wal_method_defs by (rule does_popped, rule mem_laws)+

lemma does_range_order:
  "does wal_ok wal_db wal_clk (on_world range_order) (\<lambda>t d r d'. d' = d)"
  by (rule doesI) (simp add: wal_abs_defs case_prod_unfold)

lemma does_WALEngine_HMSet [wal_laws]:
  "does wal_ok wal_db wal_clk (WALEngine_HMSet k fs) (spec_HMSet k fs)"
proof -
  have "does wal_ok wal_db wal_clk
      (do { for_each (go_order ord (map_keys fs)) (\<lambda>f. log_write ''HSET'' [k, f, the (fmlookup fs f)]);
            on_mem (MemoryEngine_HMSet k fs) }) (spec_HMSet k fs)" for ord
    by (rule does_logged_first, rule does_for_each, rule does_log_write, rule mem_laws)
      (simp add: spec_HMSet_def)
  then show ?thesis
    unfolding WALEngine_HMSet_def
    by (rule does_weaken [OF does_bind [OF does_range_order]]) (auto simp: spec_HMSet_def)
qed

interpretation wal: storage_engine WALEngine_methods wal_ok wal_db wal_clk
  by unfold_locales
    (simp_all add: WALEngine_methods_def wal_laws,
     unfold wal_method_defs, (rule does_on_mem, rule mem_laws)+)

subsection \<open>The interface as one machine\<close>

text \<open>A call of one method of the interface, with its arguments.\<close>

datatype engine_call =
    CGet string | CSet string string | CDel string | CExists string | CIncr string | CDecr string
  | CExpire string int | CTTL string | CPersist string | CKeys string | CFlushAll | CSize
  | CLPush string "string list" | CRPush string "string list" | CLPop string | CRPop string
  | CLLen string | CLRange string int int | CLIndex string int
  | CSAdd string "string list" | CSRem string "string list" | CSMembers string
  | CSIsMember string string | CSCard string | CSPop string | CSRandMember string
  | CHSet string string string | CHGet string string | CHDel string "string list"
  | CHGetAll string | CHKeys string | CHVals string | CHExists string string | CHLen string
  | CHMSet string "(string, string) fmap" | CHMGet string "string list"

datatype engine_result =
    RVal "go_error + string" | RErr "go_error option" | RBool bool | RInt "go_error + int"
  | RTime int | RList "string list" | RNat nat | RUnit

definition as_result :: "('r \<Rightarrow> engine_result) \<Rightarrow> ('s, 'r) state \<Rightarrow> ('s, engine_result) state" where
  "as_result f m = do { x \<leftarrow> m; ret (f x) }"

lemma run_as_result [simp]:
  "run_state (as_result f m) s = (f (runs m s), after m s)"
  by (simp add: as_result_def case_prod_unfold)

fun perform :: "'s StorageEngine \<Rightarrow> engine_call \<Rightarrow> ('s, engine_result) state" where
  "perform eng (CGet k) = as_result RVal (eGet eng k)"
| "perform eng (CSet k v) = as_result RErr (eSet eng k v)"
| "perform eng (CDel k) = as_result RErr (eDel eng k)"
| "perform eng (CExists k) = as_result RBool (eExists eng k)"
| "perform eng (CIncr k) = as_result RInt (eIncr eng k)"
| "perform eng (CDecr k) = as_result RInt (eDecr eng k)"
| "perform eng (CExpire k ttl) = as_result RErr (eExpire eng k ttl)"
| "perform eng (CTTL k) = as_result RTime (eTTL eng k)"
| "perform eng (CPersist k) = as_result RErr (ePersist eng k)"
| "perform eng (CKeys p) = as_result RList (eKeys eng p)"
| "perform eng CFlushAll = as_result (\<lambda>_. RUnit) (eFlushAll eng)"
| "perform eng CSize = as_result RNat (eSize eng)"
| "perform eng (CLPush k vs) = as_result RNat (eLPush eng k vs)"
| "perform eng (CRPush k vs) = as_result RNat (eRPush eng k vs)"
| "perform eng (CLPop k) = as_result RVal (eLPop eng k)"
| "perform eng (CRPop k) = as_result RVal (eRPop eng k)"
| "perform eng (CLLen k) = as_result RNat (eLLen eng k)"
| "perform eng (CLRange k i j) = as_result RList (eLRange eng k i j)"
| "perform eng (CLIndex k i) = as_result RVal (eLIndex eng k i)"
| "perform eng (CSAdd k ms) = as_result RNat (eSAdd eng k ms)"
| "perform eng (CSRem k ms) = as_result RNat (eSRem eng k ms)"
| "perform eng (CSMembers k) = as_result RList (eSMembers eng k)"
| "perform eng (CSIsMember k m) = as_result RBool (eSIsMember eng k m)"
| "perform eng (CSCard k) = as_result RNat (eSCard eng k)"
| "perform eng (CSPop k) = as_result RVal (eSPop eng k)"
| "perform eng (CSRandMember k) = as_result RVal (eSRandMember eng k)"
| "perform eng (CHSet k f v) = as_result RNat (eHSet eng k f v)"
| "perform eng (CHGet k f) = as_result RVal (eHGet eng k f)"
| "perform eng (CHDel k fs) = as_result RNat (eHDel eng k fs)"
| "perform eng (CHGetAll k) = as_result RList (eHGetAll eng k)"
| "perform eng (CHKeys k) = as_result RList (eHKeys eng k)"
| "perform eng (CHVals k) = as_result RList (eHVals eng k)"
| "perform eng (CHExists k f) = as_result RBool (eHExists eng k f)"
| "perform eng (CHLen k) = as_result RNat (eHLen eng k)"
| "perform eng (CHMSet k h) = as_result (\<lambda>_. RUnit) (eHMSet eng k h)"
| "perform eng (CHMGet k fs) = as_result RList (eHMGet eng k fs)"

text \<open>The specification of a call: the specification of its method, on the tagged result.\<close>

fun call_spec :: "engine_call \<Rightarrow> engine_result spec" where
  "call_spec (CGet k) t d r d' = (\<exists>x. r = RVal x \<and> spec_Get k t d x d')"
| "call_spec (CSet k v) t d r d' = (\<exists>x. r = RErr x \<and> spec_Set k v t d x d')"
| "call_spec (CDel k) t d r d' = (\<exists>x. r = RErr x \<and> spec_Del k t d x d')"
| "call_spec (CExists k) t d r d' = (\<exists>x. r = RBool x \<and> spec_Exists k t d x d')"
| "call_spec (CIncr k) t d r d' = (\<exists>x. r = RInt x \<and> spec_bump 1 k t d x d')"
| "call_spec (CDecr k) t d r d' = (\<exists>x. r = RInt x \<and> spec_bump (-1) k t d x d')"
| "call_spec (CExpire k ttl) t d r d' = (\<exists>x. r = RErr x \<and> spec_Expire k ttl t d x d')"
| "call_spec (CTTL k) t d r d' = (\<exists>x. r = RTime x \<and> spec_TTL k t d x d')"
| "call_spec (CPersist k) t d r d' = (\<exists>x. r = RErr x \<and> spec_Persist k t d x d')"
| "call_spec (CKeys p) t d r d' = (\<exists>x. r = RList x \<and> spec_Keys p t d x d')"
| "call_spec CFlushAll t d r d' = (r = RUnit \<and> spec_FlushAll t d () d')"
| "call_spec CSize t d r d' = (\<exists>x. r = RNat x \<and> spec_Size t d x d')"
| "call_spec (CLPush k vs) t d r d' = (\<exists>x. r = RNat x \<and> spec_LPush k vs t d x d')"
| "call_spec (CRPush k vs) t d r d' = (\<exists>x. r = RNat x \<and> spec_RPush k vs t d x d')"
| "call_spec (CLPop k) t d r d' = (\<exists>x. r = RVal x \<and> spec_LPop k t d x d')"
| "call_spec (CRPop k) t d r d' = (\<exists>x. r = RVal x \<and> spec_RPop k t d x d')"
| "call_spec (CLLen k) t d r d' = (\<exists>x. r = RNat x \<and> spec_LLen k t d x d')"
| "call_spec (CLRange k i j) t d r d' = (\<exists>x. r = RList x \<and> spec_LRange k i j t d x d')"
| "call_spec (CLIndex k i) t d r d' = (\<exists>x. r = RVal x \<and> spec_LIndex k i t d x d')"
| "call_spec (CSAdd k ms) t d r d' = (\<exists>x. r = RNat x \<and> spec_SAdd k ms t d x d')"
| "call_spec (CSRem k ms) t d r d' = (\<exists>x. r = RNat x \<and> spec_SRem k ms t d x d')"
| "call_spec (CSMembers k) t d r d' = (\<exists>x. r = RList x \<and> spec_SMembers k t d x d')"
| "call_spec (CSIsMember k m) t d r d' = (\<exists>x. r = RBool x \<and> spec_SIsMember k m t d x d')"
| "call_spec (CSCard k) t d r d' = (\<exists>x. r = RNat x \<and> spec_SCard k t d x d')"
| "call_spec (CSPop k) t d r d' = (\<exists>x. r = RVal x \<and> spec_SPop k t d x d')"
| "call_spec (CSRandMember k) t d r d' = (\<exists>x. r = RVal x \<and> spec_SRandMember k t d x d')"
| "call_spec (CHSet k f v) t d r d' = (\<exists>x. r = RNat x \<and> spec_HSet k f v t d x d')"
| "call_spec (CHGet k f) t d r d' = (\<exists>x. r = RVal x \<and> spec_HGet k f t d x d')"
| "call_spec (CHDel k fs) t d r d' = (\<exists>x. r = RNat x \<and> spec_HDel k fs t d x d')"
| "call_spec (CHGetAll k) t d r d' = (\<exists>x. r = RList x \<and> spec_HGetAll k t d x d')"
| "call_spec (CHKeys k) t d r d' = (\<exists>x. r = RList x \<and> spec_HKeys k t d x d')"
| "call_spec (CHVals k) t d r d' = (\<exists>x. r = RList x \<and> spec_HVals k t d x d')"
| "call_spec (CHExists k f) t d r d' = (\<exists>x. r = RBool x \<and> spec_HExists k f t d x d')"
| "call_spec (CHLen k) t d r d' = (\<exists>x. r = RNat x \<and> spec_HLen k t d x d')"
| "call_spec (CHMSet k h) t d r d' = (r = RUnit \<and> spec_HMSet k h t d () d')"
| "call_spec (CHMGet k fs) t d r d' = (\<exists>x. r = RList x \<and> spec_HMGet k fs t d x d')"

lemma does_as_result:
  "does ok db clk m P \<Longrightarrow> does ok db clk (as_result f m) (\<lambda>t d r d'. \<exists>x. r = f x \<and> P t d x d')"
  by (auto simp: does_def)

lemma does_as_unit:
  "does ok db clk m P \<Longrightarrow> does ok db clk (as_result (\<lambda>_. RUnit) m) (\<lambda>t d r d'. r = RUnit \<and> P t d () d')"
  by (auto simp: does_def)

context storage_engine
begin

lemma perform_refines: "does ok db clk (perform eng c) (call_spec c)"
  using Get Set Del Exists Incr Decr Expire TTL Persist Keys FlushAll Size LPush RPush LPop RPop
    LLen LRange LIndex SAdd SRem SMembers SIsMember SCard SPop SRandMember HSet HGet HDel HGetAll
    HKeys HVals HExists HLen HMSet HMGet
  by (cases c) (simp_all only: perform.simps call_spec.simps [abs_def] does_as_result does_as_unit)

end

text \<open>C5: Refinement. Whatever method of the logging engine is called, with whatever arguments and
  under every schedule of disk faults, its result and its effect on the database are those of the
  specification of the method, the store stays well-formed and the clock does not run back.\<close>

theorem wal_engine_refines: "does wal_ok wal_db wal_clk (perform WALEngine_methods c) (call_spec c)"
  by (rule wal.perform_refines)

text \<open>Refinement. The memory engine implements the same specification, method by method.\<close>

theorem memory_engine_refines: "does mem_ok mem_db mem_clk (perform MemoryEngine_methods c) (call_spec c)"
  by (rule mem.perform_refines)

subsection \<open>Where keys live\<close>

text \<open>The memory engine over its life: created empty, then any calls, with ticks of the expiry
  sweep between them.\<close>

inductive mem_reach :: "'w mem_state \<Rightarrow> bool" where
  created: "mem_reach (NewMemoryEngine, w)"
| called: "mem_reach s \<Longrightarrow> mem_reach (after (perform MemoryEngine_methods c) s)"
| swept: "mem_reach (e, w) \<Longrightarrow> mem_reach (e\<lparr>store := activeExpiry_tick ord clk (store e)\<rparr>, w)"

lemma mem_reach_wf: "mem_reach s \<Longrightarrow> mem_ok s"
proof (induction rule: mem_reach.induct)
  case (called s c)
  show ?case by (rule doesD(1) [OF mem.perform_refines called.IH])
qed (simp_all add: mem_ok_def NewMemoryEngine_def wf_intros)

text \<open>A shard holds a key when one of its five maps has it.\<close>

definition holds_key :: "shard \<Rightarrow> string \<Rightarrow> bool" where
  "holds_key sh k \<longleftrightarrow> k |\<in>| fmdom (data sh) \<or> k |\<in>| fmdom (expires sh) \<or> k |\<in>| fmdom (lists sh) \<or>
     k |\<in>| fmdom (sets sh) \<or> k |\<in>| fmdom (hashes sh)"

lemma holds_key_view: "holds_key sh k \<longleftrightarrow> shard_view sh k \<noteq> no_entry"
  by (auto simp: holds_key_def shard_view_def no_entry_def fmlookup_dom_iff)

text \<open>C18: The home of a key. After any calls and sweeps of a memory engine created empty there are 256
  shards, and whatever a shard holds of a key, value of any type or deadline, it is the shard
  number \<open>fnv32a key AND 255\<close>, the one every method looks in: a key is never in two shards and
  never out of reach.\<close>

theorem keys_stay_home:
  assumes "mem_reach (e, w)"
  shows "length (shards (store e)) = 256 \<and>
    (\<forall>i < 256. \<forall>k. holds_key (shards (store e) ! i) k \<longrightarrow> i = unat (fnv32a k AND 255))"
  using mem_reach_wf [OF assms]
  by (auto simp: mem_ok_def wf_store_def holds_key_view shard_index_def numShards_def)

theorem keys_stay_home_witness:
  "\<exists>e w i. mem_reach (e, w :: os_world) \<and> i < 256 \<and> holds_key (shards (store e) ! i) ''k'' \<and>
     i = unat (fnv32a ''k'' AND 255)"
proof -
  let ?s = "(NewMemoryEngine, empty_dir)"
  obtain e w where s: "after (perform MemoryEngine_methods (CSet ''k'' ''v'')) ?s = (e, w)"
    by (metis prod.exhaust)
  have r: "mem_reach (e, w)" using mem_reach.called [OF mem_reach.created, of "CSet ''k'' ''v''" empty_dir] s by simp
  have e: "store e = Store_Set ''k'' ''v'' NewStore"
    using s by (auto simp: MemoryEngine_methods_def MemoryEngine_Set_def exec_def NewMemoryEngine_def)
  let ?i = "shard_index ''k''"
  have "view (store e) ''k'' \<noteq> no_entry" by (simp add: e view_simps wf_intros no_entry_def)
  then have "holds_key (shards (store e) ! ?i) ''k''"
    by (simp add: holds_key_view view_def getShard_def)
  moreover have "?i < 256" using shard_index_less by (simp add: numShards_def)
  ultimately show ?thesis using keys_stay_home [OF r] r by blast
qed

end
