(* ===== verification/Recovery.thy ===== *)
theory Recovery
  imports Engine_Spec
begin

section \<open>Crash recovery of the logging engine\<close>

text \<open>
  The engine is stopped at an arbitrary moment and opened again on the same directory. What
  replay rebuilds is a pure function of the records of the log (\<open>replay_store\<close>). The
  invariant \<open>recoverable\<close> says that the log holds a list of records that replay can read and
  that rebuilds exactly the store in memory; every method outside a short list of
  exceptions keeps it. The exceptions are real: \<open>EXPIRE\<close> is not logged, \<open>SPOP\<close> does not log
  its member, \<open>LPUSH\<close> of several values is logged in the wrong order, a key of more than
  eight bytes cannot be read back, and a hash field with a zero byte is cut.
\<close>

subsection \<open>Replay as a function of the records\<close>

definition apply_record :: "Record \<Rightarrow> Store \<Rightarrow> Store" where
  "apply_record r st =
     (if Op r = OpSet then Store_Set (Key r) (Value r) st
      else if Op r = OpDel then snd (Store_Del (Key r) st)
      else if Op r = OpIncr then snd (Store_Incr (Key r) st)
      else if Op r = OpDecr then snd (Store_Decr (Key r) st)
      else if Op r = OpFlush then Store_FlushAll st
      else if Op r = OpLPush then snd (Store_LPush (Key r) [Value r] st)
      else if Op r = OpRPush then snd (Store_RPush (Key r) [Value r] st)
      else if Op r = OpLPop then snd (Store_LPop (Key r) st)
      else if Op r = OpRPop then snd (Store_RPop (Key r) st)
      else if Op r = OpSAdd then snd (Store_SAdd (Key r) [Value r] st)
      else if Op r = OpSRem then snd (Store_SRem (Key r) [Value r] st)
      else if Op r = OpHSet then
        (case HashFieldAndValue r of (f, v) \<Rightarrow> snd (Store_HSet (Key r) f v st))
      else if Op r = OpHDel then snd (Store_HDel (Key r) [Value r] st)
      else st)"

definition replay_store :: "Record list \<Rightarrow> Store" where
  "replay_store rs = fold apply_record rs NewStore"

lemma replay_store_append [simp]: "replay_store (rs @ ts) = fold apply_record ts (replay_store rs)"
  by (simp add: replay_store_def)

lemma replay_store_Nil [simp]: "replay_store [] = NewStore"
  by (simp add: replay_store_def)

lemma wf_apply_record: "wf_store st \<Longrightarrow> wf_store (apply_record r st)"
  by (simp add: apply_record_def wf_intros split: prod.split)

lemma wf_replay_store: "wf_store (replay_store rs)"
  by (induction rs rule: rev_induct) (simp_all add: wf_apply_record)

lemma replayRecord_pure:
  assumes "Op r \<noteq> OpSPop"
  shows "after (replayRecord MemoryEngine_replayer r) (m, w) = (m\<lparr>store := apply_record r (store m)\<rparr>, w)"
  using assms
  by (simp add: replayRecord_def apply_record_def MemoryEngine_replayer_def mem_method_defs
      discard_def call_def exec_def case_prod_unfold)

lemma replayRecord_SPop:
  assumes "Op r = OpSPop"
  shows "\<exists>m' w'. after (replayRecord MemoryEngine_replayer r) (m, w) = (m', w') \<and>
    files w' = files w \<and> faults w' = faults w"
  using assms
  by (simp add: replayRecord_def MemoryEngine_replayer_def mem_method_defs discard_def call_def
      range_order_def op_defs case_prod_unfold)

interpretation rep: replay_target MemoryEngine_replayer
proof
  fix r and s :: "MemoryEngine \<times> os_world"
  show "files (snd (after (replayRecord MemoryEngine_replayer r) s)) = files (snd s)"
    "faults (snd (after (replayRecord MemoryEngine_replayer r) s)) = faults (snd s)"
    using replayRecord_SPop [of r "fst s" "snd s"] replayRecord_pure [of r "fst s" "snd s"]
    by (cases "Op r = OpSPop"; force)+
qed

lemma replay_records_pure:
  "list_all (\<lambda>r. Op r \<noteq> OpSPop) rs \<Longrightarrow>
   after (for_each rs (replayRecord MemoryEngine_replayer)) (m, w) =
     (m\<lparr>store := fold apply_record rs (store m)\<rparr>, w)"
  by (induction rs arbitrary: m) (simp_all add: replayRecord_pure del: for_each.simps)

subsection \<open>Recoverable states\<close>

definition replayable :: "Record \<Rightarrow> bool" where
  "replayable r \<longleftrightarrow> readable r \<and> Op r \<noteq> OpSPop"

definition recoverable :: "Record list \<Rightarrow> wal_engine_state \<Rightarrow> bool" where
  "recoverable rs s \<longleftrightarrow>
     log_holds rs (wal (fst s), snd s) \<and> list_all replayable rs \<and>
     store (mem (fst s)) = replay_store rs"

text \<open>Opening the engine on the directory of a recoverable state gives that state's store.\<close>

lemma NewWALEngine_recovers:
  assumes "recoverable rs (e, w)" and "in_int64 (int (length rs) + 1)"
  shows "\<exists>e'. run_state (NewWALEngine mb) w = (Ok e', w) \<and> recoverable rs (e', w) \<and>
    store (mem e') = store (mem e)"
proof -
  have h: "log_holds rs (wal e, w)" "list_all replayable rs" "store (mem e) = replay_store rs"
    using assms(1) by (simp_all add: recoverable_def)
  have "in_int64 (seq (wal e))"
    using log_holdsD(2,3) [OF h(1)] assms(2) by (simp add: int64_defs)
  then obtain l where l: "run_state (NewWAL mb) w = (Inr l, w)" "log_holds rs (l, w)"
    using NewWAL_reopens [OF h(1)] by blast
  have rd: "list_all readable rs" "list_all (\<lambda>r. Op r \<noteq> OpSPop) rs"
    using h(2) by (simp_all add: replayable_def list_all_iff)
  have "run_state (Replay MemoryEngine_replayer) (NewMemoryEngine, w)
      = (Ok (), after (for_each rs (replayRecord MemoryEngine_replayer)) (NewMemoryEngine, w))"
    by (rule rep.run_Replay) (use l rd in simp_all)
  then have "run_state (Replay MemoryEngine_replayer) (NewMemoryEngine, w)
      = (Ok (), (\<lparr>store = replay_store rs\<rparr>, w))"
    using rd(2) by (simp add: replay_records_pure NewMemoryEngine_def replay_store_def)
  then have "run_state (NewWALEngine mb) w = (Ok \<lparr>mem = \<lparr>store = replay_store rs\<rparr>, wal = l\<rparr>, w)"
    using l(1) by (simp add: NewWALEngine_def)
  then show ?thesis using h l(2) by (simp add: recoverable_def)
qed

text \<open>Whatever is in memory, opening the directory rebuilds what the log says.\<close>

lemma restart_of_log:
  assumes "log_holds rs (l, w)" and "list_all replayable rs" and "in_int64 (int (length rs) + 1)"
  shows "\<exists>e'. run_state (NewWALEngine mb) w = (Ok e', w) \<and> store (mem e') = replay_store rs"
proof -
  let ?e = "\<lparr>mem = \<lparr>store = replay_store rs\<rparr>, wal = l\<rparr>"
  have "recoverable rs (?e, w)" using assms by (simp add: recoverable_def)
  from NewWALEngine_recovers [OF this assms(3), of mb] show ?thesis by auto
qed

lemma NewWALEngine_fresh:
  assumes "faults w = []" "manifest w = NoManifest" "files w = fmempty"
  shows "\<exists>e w'. run_state (NewWALEngine mb) w = (Ok e, w') \<and> recoverable [] (e, w')"
proof -
  obtain l w' where l: "run_state (NewWAL mb) w = (Inr l, w')" "log_holds [] (l, w')"
    using NewWAL_fresh [OF assms] by blast
  have "run_state (Replay MemoryEngine_replayer) (NewMemoryEngine, w')
      = (Ok (), (NewMemoryEngine, w'))"
    by (subst rep.run_Replay [of "[]"]) (use l(2) in simp_all)
  then have "run_state (NewWALEngine mb) w = (Ok \<lparr>mem = NewMemoryEngine, wal = l\<rparr>, w')"
    using l(1) by (simp add: NewWALEngine_def)
  with l(2) show ?thesis by (simp add: recoverable_def NewMemoryEngine_def)
qed

subsection \<open>Calls of the engine\<close>

text \<open>A call run for its effect.\<close>

definition run_call :: "'s StorageEngine \<Rightarrow> engine_call \<Rightarrow> ('s, unit) state" where
  "run_call eng c = discard (perform eng c)"

definition short_key :: "string \<Rightarrow> bool" where
  "short_key k \<longleftrightarrow> length k \<le> 8"

definition short_value :: "string \<Rightarrow> bool" where
  "short_value v \<longleftrightarrow> length v < 2 ^ 32"

definition safe_field :: "string \<Rightarrow> string \<Rightarrow> bool" where
  "safe_field f v \<longleftrightarrow> NUL \<notin> set f \<and> length f + length v + 2 < 2 ^ 32"

text \<open>The calls the log can reproduce. Reads are among them.\<close>

fun safe_call :: "engine_call \<Rightarrow> bool" where
  "safe_call (CSet k v) = (short_key k \<and> short_value v)"
| "safe_call (CDel k) = short_key k"
| "safe_call (CIncr k) = short_key k"
| "safe_call (CDecr k) = short_key k"
| "safe_call (CLPush k vs) = (short_key k \<and> length vs = 1 \<and> list_all short_value vs)"
| "safe_call (CRPush k vs) = (short_key k \<and> vs \<noteq> [] \<and> list_all short_value vs)"
| "safe_call (CLPop k) = short_key k"
| "safe_call (CRPop k) = short_key k"
| "safe_call (CSAdd k ms) = (short_key k \<and> ms \<noteq> [] \<and> list_all short_value ms)"
| "safe_call (CSRem k ms) = (short_key k \<and> ms \<noteq> [] \<and> list_all short_value ms)"
| "safe_call (CHSet k f v) = (short_key k \<and> safe_field f v)"
| "safe_call (CHDel k fs) = (short_key k \<and> fs \<noteq> [] \<and> list_all short_value fs)"
| "safe_call (CHMSet k fs) =
     (short_key k \<and> fs \<noteq> fmempty \<and>
      list_all (\<lambda>f. safe_field f (the (fmlookup fs f))) (map_keys fs))"
| "safe_call (CExpire k ttl) = False"
| "safe_call (CSPop k) = False"
| "safe_call c = True"

text \<open>How many records a call may write.\<close>

fun call_cost :: "engine_call \<Rightarrow> nat" where
  "call_cost (CLPush k vs) = length vs"
| "call_cost (CRPush k vs) = length vs"
| "call_cost (CSAdd k ms) = length ms"
| "call_cost (CSRem k ms) = length ms"
| "call_cost (CHDel k fs) = length fs"
| "call_cost (CHMSet k fs) = map_len fs"
| "call_cost c = 1"

subsection \<open>What one log write does\<close>

lemma MakeRecord_ops [simp]:
  "MakeRecord (opToCode ''SET'') [k, v] = \<lparr>Op = OpSet, Key = k, Value = v, ExpireAt = 0\<rparr>"
  "MakeRecord (opToCode ''DEL'') [k] = \<lparr>Op = OpDel, Key = k, Value = [], ExpireAt = 0\<rparr>"
  "MakeRecord (opToCode ''INCR'') [k] = \<lparr>Op = OpIncr, Key = k, Value = [], ExpireAt = 0\<rparr>"
  "MakeRecord (opToCode ''DECR'') [k] = \<lparr>Op = OpDecr, Key = k, Value = [], ExpireAt = 0\<rparr>"
  "MakeRecord (opToCode ''FLUSHALL'') [] = \<lparr>Op = OpFlush, Key = [], Value = [], ExpireAt = 0\<rparr>"
  "MakeRecord (opToCode ''LPUSH'') [k, v] = \<lparr>Op = OpLPush, Key = k, Value = v, ExpireAt = 0\<rparr>"
  "MakeRecord (opToCode ''RPUSH'') [k, v] = \<lparr>Op = OpRPush, Key = k, Value = v, ExpireAt = 0\<rparr>"
  "MakeRecord (opToCode ''LPOP'') [k] = \<lparr>Op = OpLPop, Key = k, Value = [], ExpireAt = 0\<rparr>"
  "MakeRecord (opToCode ''RPOP'') [k] = \<lparr>Op = OpRPop, Key = k, Value = [], ExpireAt = 0\<rparr>"
  "MakeRecord (opToCode ''SADD'') [k, v] = \<lparr>Op = OpSAdd, Key = k, Value = v, ExpireAt = 0\<rparr>"
  "MakeRecord (opToCode ''SREM'') [k, v] = \<lparr>Op = OpSRem, Key = k, Value = v, ExpireAt = 0\<rparr>"
  "MakeRecord (opToCode ''SPOP'') [k] = \<lparr>Op = OpSPop, Key = k, Value = [], ExpireAt = 0\<rparr>"
  "MakeRecord (opToCode ''HSET'') [k, f, v] =
     \<lparr>Op = OpHSet, Key = k, Value = [NUL] @ f @ [NUL] @ v, ExpireAt = 0\<rparr>"
  "MakeRecord (opToCode ''HDEL'') [k, v] = \<lparr>Op = OpHDel, Key = k, Value = v, ExpireAt = 0\<rparr>"
  by (simp_all add: MakeRecord_def opToCode_def op_defs)

lemma apply_record_ops [simp]:
  "apply_record \<lparr>Op = OpSet, Key = k, Value = v, ExpireAt = x\<rparr> st = Store_Set k v st"
  "apply_record \<lparr>Op = OpDel, Key = k, Value = v, ExpireAt = x\<rparr> st = snd (Store_Del k st)"
  "apply_record \<lparr>Op = OpIncr, Key = k, Value = v, ExpireAt = x\<rparr> st = snd (Store_Incr k st)"
  "apply_record \<lparr>Op = OpDecr, Key = k, Value = v, ExpireAt = x\<rparr> st = snd (Store_Decr k st)"
  "apply_record \<lparr>Op = OpFlush, Key = k, Value = v, ExpireAt = x\<rparr> st = Store_FlushAll st"
  "apply_record \<lparr>Op = OpLPush, Key = k, Value = v, ExpireAt = x\<rparr> st = snd (Store_LPush k [v] st)"
  "apply_record \<lparr>Op = OpRPush, Key = k, Value = v, ExpireAt = x\<rparr> st = snd (Store_RPush k [v] st)"
  "apply_record \<lparr>Op = OpLPop, Key = k, Value = v, ExpireAt = x\<rparr> st = snd (Store_LPop k st)"
  "apply_record \<lparr>Op = OpRPop, Key = k, Value = v, ExpireAt = x\<rparr> st = snd (Store_RPop k st)"
  "apply_record \<lparr>Op = OpSAdd, Key = k, Value = v, ExpireAt = x\<rparr> st = snd (Store_SAdd k [v] st)"
  "apply_record \<lparr>Op = OpSRem, Key = k, Value = v, ExpireAt = x\<rparr> st = snd (Store_SRem k [v] st)"
  "apply_record \<lparr>Op = OpHDel, Key = k, Value = v, ExpireAt = x\<rparr> st = snd (Store_HDel k [v] st)"
  by (simp_all add: apply_record_def op_defs)

lemmas apply_record_funs = apply_record_ops [abs_def]

lemma apply_record_HSet [simp]:
  assumes "NUL \<notin> set f"
  shows "apply_record \<lparr>Op = OpHSet, Key = k, Value = NUL # f @ NUL # v, ExpireAt = x\<rparr> st
    = snd (Store_HSet k f v st)"
  using HashFieldAndValue_MakeRecord [OF assms, of k v]
  by (simp add: apply_record_def op_defs HashFieldAndValue_def MakeRecord_def)

lemma run_on_wal: "run_state (on_wal m) (e, w) =
  (case run_state m (wal e, w) of (r, (l, w')) \<Rightarrow> (r, (e\<lparr>wal := l\<rparr>, w')))"
  by (simp add: on_wal_def split: prod.split)

lemma run_on_mem: "run_state (on_mem m) (e, w) =
  (case run_state m (mem e, w) of (r, (m', w')) \<Rightarrow> (r, (e\<lparr>mem := m'\<rparr>, w')))"
  by (simp add: on_mem_def split: prod.split)

lemma run_WAL_Write:
  assumes "log_holds rs (wal e, w)" and "in_int64 (int (length rs) + 2)"
  shows "\<exists>l w'. run_state (on_wal (WAL_Write op args)) (e, w) = (None, (e\<lparr>wal := l\<rparr>, w')) \<and>
    log_holds (rs @ [MakeRecord (opToCode op) args]) (l, w')"
proof -
  let ?b = "[MakeRecord (opToCode op) args]"
  obtain l w' where s: "after (flush_batch ?b) (wal e, w) = (l, w')" by (metis prod.exhaust)
  have "runs (flush_batch ?b) (wal e, w) = None" and "log_holds (rs @ ?b) (l, w')"
    using log_holds_flush [OF assms(1) _ assms(2), of ?b] s by simp_all
  then show ?thesis
    using s by (auto simp: run_on_wal WAL_Write_def split: prod.split)
qed

lemma run_log_writes:
  assumes "log_holds rs (wal e, w)" and "in_int64 (int (length rs + length xs) + 1)"
  shows "\<exists>l w'. run_state (for_each xs (\<lambda>x. log_write op (args x))) (e, w) = ((), (e\<lparr>wal := l\<rparr>, w')) \<and>
    log_holds (rs @ map (\<lambda>x. MakeRecord (opToCode op) (args x)) xs) (l, w')"
  using assms
proof (induction xs arbitrary: rs e w)
  case Nil
  then show ?case by (auto intro!: exI [of _ "wal e"])
next
  case (Cons x xs)
  have "in_int64 (int (length rs) + 2)" using Cons.prems(2) by (simp add: int64_defs)
  then obtain l w' where 1: "run_state (on_wal (WAL_Write op (args x))) (e, w) = (None, (e\<lparr>wal := l\<rparr>, w'))"
    "log_holds (rs @ [MakeRecord (opToCode op) (args x)]) (l, w')"
    using run_WAL_Write [OF Cons.prems(1)] by blast
  have "\<exists>l2 w2. run_state (for_each xs (\<lambda>x. log_write op (args x))) (e\<lparr>wal := l\<rparr>, w')
      = ((), ((e\<lparr>wal := l\<rparr>)\<lparr>wal := l2\<rparr>, w2)) \<and>
      log_holds ((rs @ [MakeRecord (opToCode op) (args x)]) @
        map (\<lambda>x. MakeRecord (opToCode op) (args x)) xs) (l2, w2)"
    by (rule Cons.IH) (use 1(2) Cons.prems(2) in \<open>simp_all add: add.assoc\<close>)
  then show ?case using 1(1) by (auto simp: log_write_def discard_def)
qed

subsection \<open>One record at a time or all at once\<close>

text \<open>Records of one command applied one by one have the effect of the command.\<close>

lemma store_eq_viewI:
  "wf_store s \<Longrightarrow> wf_store t \<Longrightarrow> (\<And>k. view s k = view t k) \<Longrightarrow> s = t"
  by (rule store_eqI) auto

lemma RPush_one_by_one:
  assumes "wf_store st" and "vs \<noteq> []"
  shows "fold (\<lambda>v st. snd (Store_RPush k [v] st)) vs st = snd (Store_RPush k vs st)"
  using assms
proof (induction vs arbitrary: st)
  case (Cons v vs)
  show ?case
  proof (cases "vs = []")
    case False
    have "snd (Store_RPush k vs (snd (Store_RPush k [v] st))) = snd (Store_RPush k (v # vs) st)"
      by (rule store_eqI) (use Cons.prems in \<open>simp_all add: wf_intros view_simps the_list_def\<close>)
    with Cons False show ?thesis by (simp add: wf_intros)
  qed simp
qed simp

lemma SAdd_one_by_one:
  assumes "wf_store st" and "ms \<noteq> []"
  shows "fold (\<lambda>m st. snd (Store_SAdd k [m] st)) ms st = snd (Store_SAdd k ms st)"
  using assms
proof (induction ms arbitrary: st)
  case (Cons m ms)
  show ?case
  proof (cases "ms = []")
    case False
    have "snd (Store_SAdd k ms (snd (Store_SAdd k [m] st))) = snd (Store_SAdd k (m # ms) st)"
      by (rule store_eqI) (use Cons.prems in \<open>simp_all add: wf_intros view_simps the_mems_def\<close>)
    with Cons False show ?thesis by (simp add: wf_intros)
  qed simp
qed simp

lemma srem_entry_step: "srem_entry ms (srem_entry [m] e) = srem_entry (m # ms) e" if "ms \<noteq> []"
proof (cases "mems e")
  case (Some A)
  have minus: "A |-| {|m|} |-| fset_of_list ms = A |-| fset_of_list (m # ms)" by auto
  show ?thesis
  proof (cases "A |-| {|m|} = {||}")
    case True
    then have "A |-| fset_of_list (m # ms) = {||}" using minus by auto
    with True Some show ?thesis by (simp add: srem_entry_def some_mems_def the_mems_def)
  next
    case False
    with Some minus show ?thesis by (simp add: srem_entry_def some_mems_def the_mems_def)
  qed
qed (simp add: srem_entry_def)

lemma view_SRem_entry:
  "wf_store st \<Longrightarrow> view (snd (Store_SRem k ms st)) = (view st)(k := srem_entry ms (view st k))"
  by (simp add: view_simps srem_entry_def)

lemma SRem_one_by_one:
  assumes "wf_store st" and "ms \<noteq> []"
  shows "fold (\<lambda>m st. snd (Store_SRem k [m] st)) ms st = snd (Store_SRem k ms st)"
  using assms
proof (induction ms arbitrary: st)
  case (Cons m ms)
  show ?case
  proof (cases "ms = []")
    case False
    have "snd (Store_SRem k ms (snd (Store_SRem k [m] st))) = snd (Store_SRem k (m # ms) st)"
      by (rule store_eqI)
        (use Cons.prems False in \<open>simp_all add: wf_intros view_SRem_entry srem_entry_step\<close>)
    with Cons False show ?thesis by (simp add: wf_intros)
  qed simp
qed simp

lemma hdel_entry_step: "hdel_entry fs (hdel_entry [f] e) = hdel_entry (f # fs) e" if "fs \<noteq> []"
proof (cases "flds e")
  case (Some h)
  have drop: "fmdrop_fset (fset_of_list fs) (fmdrop_fset {|f|} h) = fmdrop_fset (fset_of_list (f # fs)) h"
    by (rule fmap_ext) auto
  show ?thesis
  proof (cases "fmdrop_fset {|f|} h = fmempty")
    case True
    then have "fmdrop_fset (fset_of_list (f # fs)) h = fmempty" using drop by (metis fmdrop_fset_of_empty)
    with True Some show ?thesis by (simp add: hdel_entry_def some_flds_def the_flds_def)
  next
    case False
    with Some drop show ?thesis by (simp add: hdel_entry_def some_flds_def the_flds_def)
  qed
qed (simp add: hdel_entry_def)

lemma view_HDel_entry:
  "wf_store st \<Longrightarrow> view (snd (Store_HDel k fs st)) = (view st)(k := hdel_entry fs (view st k))"
  by (simp add: view_simps hdel_entry_def)

lemma HDel_one_by_one:
  assumes "wf_store st" and "fs \<noteq> []"
  shows "fold (\<lambda>f st. snd (Store_HDel k [f] st)) fs st = snd (Store_HDel k fs st)"
  using assms
proof (induction fs arbitrary: st)
  case (Cons f fs)
  show ?case
  proof (cases "fs = []")
    case False
    have "snd (Store_HDel k fs (snd (Store_HDel k [f] st))) = snd (Store_HDel k (f # fs) st)"
      by (rule store_eqI)
        (use Cons.prems False in \<open>simp_all add: wf_intros view_HDel_entry hdel_entry_step\<close>)
    with Cons False show ?thesis by (simp add: wf_intros)
  qed simp
qed simp

lemma HSet_one_by_one:
  assumes "wf_store st" and "ks \<noteq> []"
  shows "wf_store (fold (\<lambda>f st. snd (Store_HSet k f (g f) st)) ks st) \<and>
    view (fold (\<lambda>f st. snd (Store_HSet k f (g f) st)) ks st) =
      (view st)(k := (view st k)\<lparr>flds := Some (fold (\<lambda>f h. fmupd f (g f) h) ks (the_flds (view st k)))\<rparr>)"
  using assms
proof (induction ks arbitrary: st)
  case (Cons f ks)
  let ?st = "snd (Store_HSet k f (g f) st)"
  have wf: "wf_store ?st" using Cons.prems(1) by (simp add: wf_intros)
  have vw: "view ?st = (view st)(k := (view st k)\<lparr>flds := Some (fmupd f (g f) (the_flds (view st k)))\<rparr>)"
    by (rule view_Store_HSet [OF Cons.prems(1)])
  show ?case
  proof (cases "ks = []")
    case True
    then show ?thesis using wf vw by simp
  next
    case False
    then show ?thesis using Cons.IH [OF wf] vw by (auto simp: the_flds_def fun_eq_iff)
  qed
qed simp

lemma HMSet_one_by_one:
  assumes "wf_store st" and "fs \<noteq> fmempty"
  shows "fold (\<lambda>f st. snd (Store_HSet k f (the (fmlookup fs f)) st)) (go_order ord (map_keys fs)) st
    = Store_HMSet ord2 k fs st"
proof -
  let ?ks = "go_order ord (map_keys fs)"
  have ks: "?ks \<noteq> []" using assms(2) by (metis go_order_eq_Nil length_0_conv length_map_keys map_len_0_iff)
  have "fold (\<lambda>f h. fmupd f (the (fmlookup fs f)) h) ?ks h = h ++\<^sub>f fs" for h
    by (rule fold_fmupd_eq_fmadd) simp
  then show ?thesis
    using HSet_one_by_one [OF assms(1) ks, of k "\<lambda>f. the (fmlookup fs f)"] assms(1)
    by (intro store_eqI) (simp_all add: wf_intros view_simps)
qed

subsection \<open>The memory engine leaves the directory alone\<close>

definition same_dir :: "os_world \<Rightarrow> os_world \<Rightarrow> bool" where
  "same_dir w w' \<longleftrightarrow> files w' = files w \<and> manifest w' = manifest w \<and> faults w' = faults w"

lemma log_holds_same_dir: "same_dir w w' \<Longrightarrow> log_holds rs (l, w') = log_holds rs (l, w)"
  by (simp add: same_dir_def log_holds_def)

definition keeps_dir :: "(MemoryEngine \<times> os_world, 'r) state \<Rightarrow> bool" where
  "keeps_dir m \<longleftrightarrow> (\<forall>e w. same_dir w (snd (after m (e, w))))"

lemma keeps_dir_bind [intro]: "keeps_dir m \<Longrightarrow> (\<And>x. keeps_dir (f x)) \<Longrightarrow> keeps_dir (m \<bind> f)"
  unfolding keeps_dir_def same_dir_def by (simp add: case_prod_unfold) (metis prod.collapse)

lemma keeps_dir_basic [simp]:
  "keeps_dir (ret x)" "keeps_dir (call f)" "keeps_dir (exec g)" "keeps_dir (query h)"
  "keeps_dir (on_world time_Now)" "keeps_dir (on_world range_order)"
  "keeps_dir (on_world (range_orders n))" "keeps_dir (on_world rand_draw)"
  by (simp_all add: keeps_dir_def same_dir_def call_def exec_def query_def time_Now_def
      range_order_def range_orders_def rand_draw_def case_prod_unfold)

lemma keeps_dir_methods:
  "keeps_dir (MemoryEngine_Get k)" "keeps_dir (MemoryEngine_Exists k)"
  "keeps_dir (MemoryEngine_TTL k)" "keeps_dir (MemoryEngine_Persist k)"
  "keeps_dir (MemoryEngine_Keys k)" "keeps_dir MemoryEngine_Size"
  "keeps_dir (MemoryEngine_LLen k)" "keeps_dir (MemoryEngine_LRange k i j)"
  "keeps_dir (MemoryEngine_LIndex k i)" "keeps_dir (MemoryEngine_SMembers k)"
  "keeps_dir (MemoryEngine_SIsMember k f)" "keeps_dir (MemoryEngine_SCard k)"
  "keeps_dir (MemoryEngine_SRandMember k)" "keeps_dir (MemoryEngine_HGet k f)"
  "keeps_dir (MemoryEngine_HGetAll k)" "keeps_dir (MemoryEngine_HKeys k)"
  "keeps_dir (MemoryEngine_HVals k)" "keeps_dir (MemoryEngine_HExists k f)"
  "keeps_dir (MemoryEngine_HLen k)" "keeps_dir (MemoryEngine_HMGet k fs)"
  "keeps_dir (MemoryEngine_HMSet k hs)"
  by (auto simp: mem_method_defs intro!: keeps_dir_bind)

subsection \<open>Every safe call keeps the state recoverable\<close>

text \<open>Replay never sets an expiry instant, so reads evict nothing.\<close>

definition no_expiry :: "Store \<Rightarrow> bool" where
  "no_expiry st \<longleftrightarrow> wf_store st \<and> (\<forall>k. expiry (view st k) = None)"

lemma no_expiry_ops:
  assumes "no_expiry st"
  shows "no_expiry (Store_Set k v st)" "no_expiry (snd (Store_Del k st))"
    "no_expiry (snd (Store_Incr k st))" "no_expiry (snd (Store_Decr k st))"
    "no_expiry (Store_FlushAll st)" "no_expiry (snd (Store_LPush k vs st))"
    "no_expiry (snd (Store_RPush k vs st))" "no_expiry (snd (Store_LPop k st))"
    "no_expiry (snd (Store_RPop k st))" "no_expiry (snd (Store_SAdd k vs st))"
    "no_expiry (snd (Store_SRem k vs st))" "no_expiry (snd (Store_HSet k f v st))"
    "no_expiry (snd (Store_HDel k vs st))"
  using assms
  by (simp_all add: no_expiry_def wf_intros view_simps no_entry_def bump_def split: option.split)

lemma no_expiry_replay_store: "no_expiry (replay_store rs)"
proof (induction rs rule: rev_induct)
  case Nil
  show ?case by (simp add: no_expiry_def view_simps no_entry_def)
next
  case (snoc r rs)
  then show ?case by (simp add: apply_record_def no_expiry_ops split: prod.split)
qed

text \<open>A call forwarded to the memory engine that leaves a store without expiry instants as
  it is.\<close>

lemma recoverable_read:
  assumes "recoverable rs s" and "does mem_ok mem_db mem_clk m P" and "keeps_dir m"
    and "\<And>t d r d'. P t d r d' \<Longrightarrow> (\<And>k. expiry (d k) = None) \<Longrightarrow> d' = d"
  shows "recoverable rs (after (on_mem m) s)"
proof -
  obtain e w where s: "s = (e, w)" by (cases s)
  obtain r m' w' where run: "run_state m (mem e, w) = (r, (m', w'))" by (metis prod.exhaust)
  have h: "log_holds rs (wal e, w)" "list_all replayable rs" "store (mem e) = replay_store rs"
    using assms(1) s by (simp_all add: recoverable_def)
  have ok: "mem_ok (mem e, w)" using h(3) wf_replay_store by (simp add: mem_ok_def)
  have "same_dir w w'" using assms(3) run unfolding keeps_dir_def by (metis snd_conv)
  then have "log_holds rs (wal e, w')" using h(1) log_holds_same_dir by blast
  moreover have "view (store m') = view (store (mem e))" and "wf_store (store m')"
    using doesD(1,3) [OF assms(2) ok] assms(4) run h(3) no_expiry_replay_store
    by (auto simp: mem_abs_defs no_expiry_def)
  then have "store m' = store (mem e)"
    using store_eqI ok by (simp add: mem_ok_def)
  ultimately show ?thesis
    using h by (simp add: s run_on_mem run recoverable_def)
qed

text \<open>A call that writes records and then runs on the memory engine, with the same effect.\<close>

lemma recoverable_logged:
  assumes rec: "recoverable rs (e, w)" and room: "in_int64 (int (length rs + length xs) + 1)"
    and recs: "list_all replayable (map (\<lambda>x. MakeRecord (opToCode op) (args x)) xs)"
    and eff: "\<And>w'. \<exists>m' w''. after n (mem e, w') = (m', w'') \<and> same_dir w' w'' \<and>
      store m' = fold apply_record (map (\<lambda>x. MakeRecord (opToCode op) (args x)) xs) (store (mem e))"
  shows "recoverable (rs @ map (\<lambda>x. MakeRecord (opToCode op) (args x)) xs)
    (after (for_each xs (\<lambda>x. log_write op (args x)) \<bind> (\<lambda>_. on_mem n)) (e, w))"
proof -
  have h: "log_holds rs (wal e, w)" "list_all replayable rs" "store (mem e) = replay_store rs"
    using rec by (simp_all add: recoverable_def)
  obtain l w' where l: "run_state (for_each xs (\<lambda>x. log_write op (args x))) (e, w) = ((), (e\<lparr>wal := l\<rparr>, w'))"
    "log_holds (rs @ map (\<lambda>x. MakeRecord (opToCode op) (args x)) xs) (l, w')"
    using run_log_writes [OF h(1) room] by blast
  obtain m' w'' where m: "after n (mem e, w') = (m', w'')" "same_dir w' w''"
    "store m' = fold apply_record (map (\<lambda>x. MakeRecord (opToCode op) (args x)) xs) (store (mem e))"
    using eff by blast
  then have "after (for_each xs (\<lambda>x. log_write op (args x)) \<bind> (\<lambda>_. on_mem n)) (e, w)
      = (e\<lparr>wal := l, mem := m'\<rparr>, w'')"
    using l(1) by (auto simp: run_on_mem split: prod.split)
  with l(2) m(2,3) h recs show ?thesis
    by (simp add: recoverable_def log_holds_same_dir)
qed

text \<open>The form for the calls that give up when the log fails.\<close>

lemma recoverable_guarded:
  assumes rec: "recoverable rs (e, w)" and room: "in_int64 (int (length rs) + 2)"
    and recs: "replayable (MakeRecord (opToCode op) args)"
    and eff: "\<And>w'. after n (mem e, w') =
      ((mem e)\<lparr>store := apply_record (MakeRecord (opToCode op) args) (store (mem e))\<rparr>, w')"
  shows "recoverable (rs @ [MakeRecord (opToCode op) args])
    (after (on_wal (WAL_Write op args) \<bind> (\<lambda>err. case err of Some x \<Rightarrow> ret (fail x) | None \<Rightarrow> on_mem n)) (e, w))"
proof -
  have h: "log_holds rs (wal e, w)" "list_all replayable rs" "store (mem e) = replay_store rs"
    using rec by (simp_all add: recoverable_def)
  obtain l w' where l: "run_state (on_wal (WAL_Write op args)) (e, w) = (None, (e\<lparr>wal := l\<rparr>, w'))"
    "log_holds (rs @ [MakeRecord (opToCode op) args]) (l, w')"
    using run_WAL_Write [OF h(1) room] by blast
  have "after (on_wal (WAL_Write op args) \<bind> (\<lambda>err. case err of Some x \<Rightarrow> ret (fail x) | None \<Rightarrow> on_mem n)) (e, w)
      = (e\<lparr>wal := l, mem := (mem e)\<lparr>store := apply_record (MakeRecord (opToCode op) args) (store (mem e))\<rparr>\<rparr>, w')"
    using l(1) eff [of w'] by (auto simp: run_on_mem split: prod.split)
  with l(2) h recs show ?thesis by (simp add: recoverable_def)
qed

text \<open>The form for pops: the memory engine first, then the record if there was a value.\<close>

lemma recoverable_popped:
  assumes rec: "recoverable rs (e, w)" and room: "in_int64 (int (length rs) + 2)"
    and recs: "replayable (MakeRecord (opToCode op) args)"
    and eff: "run_state n (mem e, w) = (r, ((mem e)\<lparr>store := st\<rparr>, w))"
    and fail: "isl r \<Longrightarrow> st = store (mem e)"
    and popped: "\<not> isl r \<Longrightarrow> st = apply_record (MakeRecord (opToCode op) args) (store (mem e))"
  shows "\<exists>ts. length ts \<le> 1 \<and> recoverable (rs @ ts)
    (after (on_mem n \<bind> (\<lambda>r. case r of Inl err \<Rightarrow> ret (Inl err)
        | Inr val \<Rightarrow> log_write op args \<bind> (\<lambda>_. ret (Inr val)))) (e, w))"
proof (cases r)
  case (Inl err)
  then have "recoverable (rs @ []) (after (on_mem n \<bind> (\<lambda>r. case r of Inl err \<Rightarrow> ret (Inl err)
      | Inr val \<Rightarrow> log_write op args \<bind> (\<lambda>_. ret (Inr val)))) (e, w))"
    using rec eff fail by (simp add: run_on_mem recoverable_def)
  then show ?thesis by (intro exI [of _ "[]"]) simp
next
  case (Inr val)
  let ?e = "e\<lparr>mem := (mem e)\<lparr>store := st\<rparr>\<rparr>"
  have h: "log_holds rs (wal ?e, w)" "list_all replayable rs" "store (mem e) = replay_store rs"
    using rec by (simp_all add: recoverable_def)
  obtain l w' where l: "run_state (on_wal (WAL_Write op args)) (?e, w) = (None, (?e\<lparr>wal := l\<rparr>, w'))"
    "log_holds (rs @ [MakeRecord (opToCode op) args]) (l, w')"
    using run_WAL_Write [OF h(1) room] by blast
  have "recoverable (rs @ [MakeRecord (opToCode op) args])
      (after (on_mem n \<bind> (\<lambda>r. case r of Inl err \<Rightarrow> ret (Inl err)
        | Inr val \<Rightarrow> log_write op args \<bind> (\<lambda>_. ret (Inr val)))) (e, w))"
    using l h recs popped eff Inr
    by (simp add: run_on_mem log_write_def discard_def recoverable_def)
  then show ?thesis by (intro exI [of _ "[MakeRecord (opToCode op) args]"]) simp
qed

lemma op_neq_SPop [simp]:
  "OpSet \<noteq> OpSPop" "OpDel \<noteq> OpSPop" "OpIncr \<noteq> OpSPop" "OpDecr \<noteq> OpSPop" "OpFlush \<noteq> OpSPop"
  "OpLPush \<noteq> OpSPop" "OpRPush \<noteq> OpSPop" "OpLPop \<noteq> OpSPop" "OpRPop \<noteq> OpSPop"
  "OpSAdd \<noteq> OpSPop" "OpSRem \<noteq> OpSPop" "OpHSet \<noteq> OpSPop" "OpHDel \<noteq> OpSPop"
  by (simp_all add: op_defs)

lemma after_discard [simp]: "after (discard m) s = after m s"
  by (simp add: discard_def split: prod.split)

lemma recoverable_reads:
  assumes "recoverable rs s"
  shows "recoverable rs (after (WALEngine_Get k) s)" "recoverable rs (after (WALEngine_Exists k) s)"
    "recoverable rs (after (WALEngine_TTL k) s)" "recoverable rs (after (WALEngine_Persist k) s)"
    "recoverable rs (after (WALEngine_Keys k) s)" "recoverable rs (after WALEngine_Size s)"
    "recoverable rs (after (WALEngine_LLen k) s)" "recoverable rs (after (WALEngine_LRange k i j) s)"
    "recoverable rs (after (WALEngine_LIndex k i) s)" "recoverable rs (after (WALEngine_SMembers k) s)"
    "recoverable rs (after (WALEngine_SIsMember k f) s)" "recoverable rs (after (WALEngine_SCard k) s)"
    "recoverable rs (after (WALEngine_SRandMember k) s)" "recoverable rs (after (WALEngine_HGet k f) s)"
    "recoverable rs (after (WALEngine_HGetAll k) s)" "recoverable rs (after (WALEngine_HKeys k) s)"
    "recoverable rs (after (WALEngine_HVals k) s)" "recoverable rs (after (WALEngine_HExists k f) s)"
    "recoverable rs (after (WALEngine_HLen k) s)" "recoverable rs (after (WALEngine_HMGet k fs) s)"
  unfolding wal_method_defs
  by (rule recoverable_read [OF assms], rule mem_laws, rule keeps_dir_methods,
      simp add: spec_defs get_entry_def expired_def fun_upd_idem)+

lemma recoverable_guarded_calls:
  assumes "recoverable rs s" and "in_int64 (int (length rs) + 2)" and "short_key k"
  shows "short_value v \<Longrightarrow> \<exists>ts. length ts \<le> 1 \<and> recoverable (rs @ ts) (after (WALEngine_Set k v) s)"
    "\<exists>ts. length ts \<le> 1 \<and> recoverable (rs @ ts) (after (WALEngine_Del k) s)"
    "\<exists>ts. length ts \<le> 1 \<and> recoverable (rs @ ts) (after (WALEngine_Incr k) s)"
    "\<exists>ts. length ts \<le> 1 \<and> recoverable (rs @ ts) (after (WALEngine_Decr k) s)"
proof -
  obtain e w where s: "s = (e, w)" by (cases s)
  note intro = recoverable_guarded [OF assms(1) [unfolded s] assms(2)]
  have one: "\<exists>ts. length ts \<le> 1 \<and> recoverable (rs @ ts) u" if "recoverable (rs @ [r]) u" for r u
    using that by (intro exI [of _ "[r]"]) simp
  show "\<exists>ts. length ts \<le> 1 \<and> recoverable (rs @ ts) (after (WALEngine_Set k v) s)" if "short_value v"
    unfolding WALEngine_Set_def s
    by (rule one, rule intro)
      (use assms(3) that in \<open>simp_all add: replayable_def readable_def short_key_def short_value_def
         MemoryEngine_Set_def exec_def\<close>)
  show "\<exists>ts. length ts \<le> 1 \<and> recoverable (rs @ ts) (after (WALEngine_Del k) s)"
    unfolding WALEngine_Del_def s
    by (rule one, rule intro)
      (use assms(3) in \<open>simp_all add: replayable_def readable_def short_key_def
         MemoryEngine_Del_def call_def case_prod_unfold\<close>)
  show "\<exists>ts. length ts \<le> 1 \<and> recoverable (rs @ ts) (after (WALEngine_Incr k) s)"
    unfolding WALEngine_Incr_def s
    by (rule one, rule intro)
      (use assms(3) in \<open>simp_all add: replayable_def readable_def short_key_def
         MemoryEngine_Incr_def call_def case_prod_unfold\<close>)
  show "\<exists>ts. length ts \<le> 1 \<and> recoverable (rs @ ts) (after (WALEngine_Decr k) s)"
    unfolding WALEngine_Decr_def s
    by (rule one, rule intro)
      (use assms(3) in \<open>simp_all add: replayable_def readable_def short_key_def
         MemoryEngine_Decr_def call_def case_prod_unfold\<close>)
qed

lemma recoverable_pop_calls:
  assumes "recoverable rs s" and "in_int64 (int (length rs) + 2)" and "short_key k"
  shows "\<exists>ts. length ts \<le> 1 \<and> recoverable (rs @ ts) (after (WALEngine_LPop k) s)"
    "\<exists>ts. length ts \<le> 1 \<and> recoverable (rs @ ts) (after (WALEngine_RPop k) s)"
proof -
  obtain e w where s: "s = (e, w)" by (cases s)
  note intro = recoverable_popped [OF assms(1) [unfolded s] assms(2)]
  show "\<exists>ts. length ts \<le> 1 \<and> recoverable (rs @ ts) (after (WALEngine_LPop k) s)"
    unfolding WALEngine_LPop_def s
    by (rule intro [where r = "fst (Store_LPop k (store (mem e)))" and st = "snd (Store_LPop k (store (mem e)))"])
      (use assms(3) in \<open>auto simp: replayable_def readable_def short_key_def
         MemoryEngine_LPop_def call_def case_prod_unfold Store_LPop_def split: option.splits if_splits\<close>)
  show "\<exists>ts. length ts \<le> 1 \<and> recoverable (rs @ ts) (after (WALEngine_RPop k) s)"
    unfolding WALEngine_RPop_def s
    by (rule intro [where r = "fst (Store_RPop k (store (mem e)))" and st = "snd (Store_RPop k (store (mem e)))"])
      (use assms(3) in \<open>auto simp: replayable_def readable_def short_key_def
         MemoryEngine_RPop_def call_def case_prod_unfold Store_RPop_def split: option.splits if_splits\<close>)
qed

lemma fold_map_records: "fold apply_record (map r xs) st = fold (\<lambda>x. apply_record (r x)) xs st"
  by (simp add: fold_map comp_def)

lemma recoverable_push_calls:
  assumes "recoverable rs s" and "in_int64 (int (length rs + length vs) + 1)" and "short_key k"
    and "vs \<noteq> []" and "list_all short_value vs"
  shows "length vs = 1 \<Longrightarrow> \<exists>ts. length ts \<le> length vs \<and> recoverable (rs @ ts) (after (WALEngine_LPush k vs) s)"
    "\<exists>ts. length ts \<le> length vs \<and> recoverable (rs @ ts) (after (WALEngine_RPush k vs) s)"
    "\<exists>ts. length ts \<le> length vs \<and> recoverable (rs @ ts) (after (WALEngine_SAdd k vs) s)"
    "\<exists>ts. length ts \<le> length vs \<and> recoverable (rs @ ts) (after (WALEngine_SRem k vs) s)"
    "\<exists>ts. length ts \<le> length vs \<and> recoverable (rs @ ts) (after (WALEngine_HDel k vs) s)"
proof -
  obtain e w where s: "s = (e, w)" by (cases s)
  have wf: "wf_store (store (mem e))"
    using assms(1) s wf_replay_store by (simp add: recoverable_def)
  note intro = recoverable_logged [OF assms(1) [unfolded s] assms(2)]
  note facts = replayable_def readable_def short_key_def short_value_def list_all_iff call_def
    case_prod_unfold fold_map_records apply_record_funs same_dir_def
  have some: "\<exists>ts. length ts \<le> length vs \<and> recoverable (rs @ ts) u"
    if "recoverable (rs @ map r vs) u" for r u
    using that by (intro exI [of _ "map r vs"]) simp
  show "\<exists>ts. length ts \<le> length vs \<and> recoverable (rs @ ts) (after (WALEngine_LPush k vs) s)"
    if one: "length vs = 1"
  proof -
    obtain v where v: "vs = [v]" using one by (cases vs) simp_all
    show ?thesis
      unfolding WALEngine_LPush_def s
      by (rule some, rule intro)
        (use assms(3,5) v in \<open>simp_all add: facts MemoryEngine_LPush_def\<close>)
  qed
  show "\<exists>ts. length ts \<le> length vs \<and> recoverable (rs @ ts) (after (WALEngine_RPush k vs) s)"
    unfolding WALEngine_RPush_def s
    by (rule some, rule intro)
      (use assms(3-5) in \<open>simp_all add: facts MemoryEngine_RPush_def
         RPush_one_by_one [OF wf assms(4)]\<close>)
  show "\<exists>ts. length ts \<le> length vs \<and> recoverable (rs @ ts) (after (WALEngine_SAdd k vs) s)"
    unfolding WALEngine_SAdd_def s
    by (rule some, rule intro)
      (use assms(3-5) in \<open>simp_all add: facts MemoryEngine_SAdd_def SAdd_one_by_one [OF wf assms(4)]\<close>)
  show "\<exists>ts. length ts \<le> length vs \<and> recoverable (rs @ ts) (after (WALEngine_SRem k vs) s)"
    unfolding WALEngine_SRem_def s
    by (rule some, rule intro)
      (use assms(3-5) in \<open>simp_all add: facts MemoryEngine_SRem_def SRem_one_by_one [OF wf assms(4)]\<close>)
  show "\<exists>ts. length ts \<le> length vs \<and> recoverable (rs @ ts) (after (WALEngine_HDel k vs) s)"
    unfolding WALEngine_HDel_def s
    by (rule some, rule intro)
      (use assms(3-5) in \<open>simp_all add: facts MemoryEngine_HDel_def HDel_one_by_one [OF wf assms(4)]\<close>)
qed

lemmas hash_record_defs = replayable_def readable_def short_key_def safe_field_def same_dir_def

lemma recoverable_HSet:
  assumes "recoverable rs s" and "short_key k" and "in_int64 (int (length rs) + 2)" and "safe_field f v"
  shows "\<exists>ts. length ts \<le> 1 \<and> recoverable (rs @ ts) (after (WALEngine_HSet k f v) s)"
proof -
  obtain e w where s: "s = (e, w)" by (cases s)
  have "recoverable (rs @ map (\<lambda>x. MakeRecord (opToCode ''HSET'') [k, f, v]) [()])
      (after (for_each [()] (\<lambda>x. log_write ''HSET'' [k, f, v]) \<bind> (\<lambda>_. on_mem (MemoryEngine_HSet k f v))) (e, w))"
    by (rule recoverable_logged)
      (use assms s in \<open>simp_all add: hash_record_defs MemoryEngine_HSet_def call_def case_prod_unfold add.commute\<close>)
  then show ?thesis
    unfolding s by (intro exI [of _ "[MakeRecord (opToCode ''HSET'') [k, f, v]]"]) (simp add: WALEngine_HSet_def)
qed

lemma recoverable_HMSet:
  assumes "recoverable rs s" and "short_key k" and "in_int64 (int (length rs + map_len fs) + 1)"
    and "fs \<noteq> fmempty" and "list_all (\<lambda>f. safe_field f (the (fmlookup fs f))) (map_keys fs)"
  shows "\<exists>ts. length ts \<le> map_len fs \<and> recoverable (rs @ ts) (after (WALEngine_HMSet k fs) s)"
proof -
  obtain e w where s: "s = (e, w)" by (cases s)
  have wf: "wf_store (store (mem e))"
    using assms(1) s wf_replay_store by (simp add: recoverable_def)
  obtain ord w1 where w1: "run_state range_order w = (ord, w1)" by (metis prod.exhaust)
  let ?ks = "go_order ord (map_keys fs)"
  let ?r = "\<lambda>f. MakeRecord (opToCode ''HSET'') [k, f, the (fmlookup fs f)]"
  have "same_dir w w1" using w1 by (auto simp: range_order_def same_dir_def)
  then have rec: "recoverable rs (e, w1)"
    using assms(1) s by (simp add: recoverable_def log_holds_same_dir)
  have safe': "NUL \<notin> set f \<and> length f + length (the (fmlookup fs f)) + 2 < 2 ^ 32" if "f \<in> set ?ks" for f
    using assms(5) that by (auto simp: list_all_iff safe_field_def)
  have fold: "fold apply_record (map ?r ?ks) (store (mem e)) = Store_HMSet ord2 k fs (store (mem e))" for ord2
  proof -
    have "fold apply_record (map ?r ?ks) (store (mem e))
        = fold (\<lambda>f st. snd (Store_HSet k f (the (fmlookup fs f)) st)) ?ks (store (mem e))"
      unfolding fold_map_records by (rule fold_cong) (use safe' in auto)
    then show ?thesis using HMSet_one_by_one [OF wf assms(4)] by simp
  qed
  have "recoverable (rs @ map ?r ?ks) (after
      (for_each ?ks (\<lambda>f. log_write ''HSET'' [k, f, the (fmlookup fs f)]) \<bind>
        (\<lambda>_. on_mem (MemoryEngine_HMSet k fs))) (e, w1))"
  proof (rule recoverable_logged [OF rec])
    show "list_all replayable (map ?r ?ks)"
      using assms(2) safe' by (auto simp: list_all_iff hash_record_defs)
    show "\<exists>m' w''. after (MemoryEngine_HMSet k fs) (mem e, w') = (m', w'') \<and> same_dir w' w'' \<and>
        store m' = fold apply_record (map ?r ?ks) (store (mem e))" for w'
      unfolding fold [of "runs range_order w'"]
      by (simp add: MemoryEngine_HMSet_def exec_def range_order_def same_dir_def)
  qed (use assms(3) in simp)
  then show ?thesis
    unfolding s by (intro exI [of _ "map ?r ?ks"]) (simp add: WALEngine_HMSet_def w1)
qed

lemmas recoverable_hash_calls = recoverable_HSet recoverable_HMSet

lemma recoverable_FlushAll:
  assumes "recoverable rs s" and "in_int64 (int (length rs) + 2)"
  shows "\<exists>ts. length ts \<le> 1 \<and> recoverable (rs @ ts) (after WALEngine_FlushAll s)"
proof -
  obtain e w where s: "s = (e, w)" by (cases s)
  have "recoverable (rs @ map (\<lambda>x. MakeRecord (opToCode ''FLUSHALL'') []) [()])
      (after (for_each [()] (\<lambda>x. log_write ''FLUSHALL'' []) \<bind> (\<lambda>_. on_mem MemoryEngine_FlushAll)) (e, w))"
    by (rule recoverable_logged)
      (use assms s in \<open>simp_all add: replayable_def readable_def same_dir_def MemoryEngine_FlushAll_def exec_def add.commute\<close>)
  then show ?thesis
    unfolding s by (intro exI [of _ "[MakeRecord (opToCode ''FLUSHALL'') []]"]) (simp add: WALEngine_FlushAll_def)
qed

lemma recoverable_call:
  assumes "recoverable rs s" and "safe_call c" and "in_int64 (int (length rs + call_cost c) + 1)"
  shows "\<exists>ts. length ts \<le> call_cost c \<and>
    recoverable (rs @ ts) (after (run_call WALEngine_methods c) s)"
proof -
  have none: "\<exists>ts. length ts \<le> n \<and> recoverable (rs @ ts) u" if "recoverable rs u" for n u
    using that by (intro exI [of _ "[]"]) simp
  have ne: "length vs = Suc 0 \<Longrightarrow> vs \<noteq> []" for vs :: "string list" by auto
  show ?thesis
    using assms none recoverable_reads [OF assms(1)] recoverable_guarded_calls [OF assms(1)]
      recoverable_pop_calls [OF assms(1)] recoverable_push_calls [OF assms(1)]
      recoverable_hash_calls [OF assms(1)] recoverable_FlushAll [OF assms(1)]
    by (cases c) (simp_all add: run_call_def WALEngine_methods_def add.commute ne)
qed

subsection \<open>Histories with restarts\<close>

text \<open>
  The life of an engine: started on an empty directory, any number of safe calls, stopped
  and started again at any point between two calls. The index counts the records the log
  may hold; the sequence number of the segments is a 64-bit integer, which bounds it.
\<close>

inductive lives :: "nat \<Rightarrow> wal_engine_state \<Rightarrow> bool" where
  boot: "faults w = [] \<Longrightarrow> manifest w = NoManifest \<Longrightarrow> files w = fmempty \<Longrightarrow>
    run_state (NewWALEngine mb) w = (Ok e, w') \<Longrightarrow> lives 0 (e, w')"
| invoke: "lives n s \<Longrightarrow> safe_call c \<Longrightarrow> n + call_cost c < 2 ^ 62 \<Longrightarrow>
    lives (n + call_cost c) (after (run_call WALEngine_methods c) s)"
| restart: "lives n (e, w) \<Longrightarrow> run_state (NewWALEngine mb) w = (Ok e', w') \<Longrightarrow> lives n (e', w')"

lemma in_int64_room: "n < 2 ^ 62 \<Longrightarrow> m \<le> n \<Longrightarrow> in_int64 (int m + 1) \<and> in_int64 (int m + 2)"
proof -
  assume "n < 2 ^ 62" "m \<le> n"
  then have "int m < 2 ^ 62" by (metis le_less_trans of_nat_less_iff of_nat_numeral of_nat_power)
  then show ?thesis by (simp add: int64_defs)
qed

lemma lives_bound: "lives n s \<Longrightarrow> n < 2 ^ 62"
  by (induction rule: lives.induct) simp_all

lemma lives_recoverable: "lives n s \<Longrightarrow> \<exists>rs. length rs \<le> n \<and> recoverable rs s"
proof (induction rule: lives.induct)
  case (boot w mb e w')
  then show ?case using NewWALEngine_fresh [of w mb] by auto
next
  case (invoke n s c)
  then obtain rs where rs: "length rs \<le> n" "recoverable rs s" by blast
  have "in_int64 (int (length rs + call_cost c) + 1)"
    using in_int64_room [OF invoke.hyps(3), of "length rs + call_cost c"] rs(1) by simp
  from recoverable_call [OF rs(2) invoke.hyps(2) this]
  obtain ts where "length ts \<le> call_cost c" "recoverable (rs @ ts) (after (run_call WALEngine_methods c) s)"
    by blast
  with rs(1) show ?case by (intro exI [of _ "rs @ ts"]) simp
next
  case (restart n e w mb e' w')
  then obtain rs where rs: "length rs \<le> n" "recoverable rs (e, w)" by blast
  have "in_int64 (int (length rs) + 1)"
    using in_int64_room [OF lives_bound [OF restart.hyps(1)] rs(1)] by simp
  then show ?case
    using NewWALEngine_recovers [OF rs(2), of mb] restart.hyps(2) rs(1) by auto
qed

lemma lives_recovers:
  assumes "lives n (e, w)"
  shows "\<exists>e'. run_state (NewWALEngine mb) w = (Ok e', w) \<and> store (mem e') = store (mem e)"
proof -
  obtain rs where rs: "length rs \<le> n" "recoverable rs (e, w)"
    using lives_recoverable [OF assms] by blast
  have "in_int64 (int (length rs) + 1)"
    using in_int64_room [OF lives_bound [OF assms] rs(1)] by simp
  then show ?thesis using NewWALEngine_recovers [OF rs(2)] by blast
qed

lemma lives_boot: "\<exists>e w. lives 0 (e, w) \<and> store (mem e) = NewStore"
proof -
  have d: "faults empty_dir = []" "manifest empty_dir = NoManifest" "files empty_dir = fmempty"
    by simp_all
  obtain e w where e: "run_state (NewWALEngine 64) empty_dir = (Ok e, w)" "recoverable [] (e, w)"
    using NewWALEngine_fresh [OF d, of 64] by blast
  then show ?thesis using lives.boot [OF d e(1)] by (auto simp: recoverable_def)
qed

text \<open>The record of a SET.\<close>

abbreviation set_record :: "string \<Rightarrow> string \<Rightarrow> Record" where
  "set_record k v \<equiv> \<lparr>Op = OpSet, Key = k, Value = v, ExpireAt = 0\<rparr>"

text \<open>The state after a call of a live engine.\<close>

lemma lives_Set:
  assumes "lives n (e, w)" and "n + 1 < 2 ^ 62" and "short_key k" and "short_value v"
  shows "\<exists>e' w'. after (WALEngine_Set k v) (e, w) = (e', w') \<and> lives (n + 1) (e', w') \<and>
    str (view (store (mem e')) k) = Some v"
proof -
  obtain e' w' where s: "after (WALEngine_Set k v) (e, w) = (e', w')" by (metis prod.exhaust)
  have "after (run_call WALEngine_methods (CSet k v)) (e, w) = (e', w')"
    using s by (simp add: run_call_def WALEngine_methods_def)
  then have lives': "lives (n + 1) (e', w')"
    using lives.invoke [OF assms(1), of "CSet k v"] assms(2-) by simp
  obtain rs where rs: "length rs \<le> n" "recoverable rs (e, w)" using lives_recoverable [OF assms(1)] by blast
  have room: "in_int64 (int (length rs) + 2)"
    using in_int64_room [OF lives_bound [OF assms(1)] rs(1)] by simp
  obtain l w'' where "run_state (on_wal (WAL_Write ''SET'' [k, v])) (e, w) = (None, (e\<lparr>wal := l\<rparr>, w''))"
    using run_WAL_Write [OF _ room, of e w "''SET''" "[k, v]"] rs(2) unfolding recoverable_def by auto
  then have "mem e' = (mem e)\<lparr>store := Store_Set k v (store (mem e))\<rparr>"
    using s by (auto simp: WALEngine_Set_def run_on_mem MemoryEngine_Set_def exec_def)
  then have "str (view (store (mem e')) k) = Some v"
    using rs(2) wf_replay_store by (simp add: recoverable_def view_simps)
  with s lives' show ?thesis by blast
qed

lemma lives_Set_acknowledged:
  assumes "lives n (e, w)"
  shows "wal_ok (e, w) \<and> runs (WALEngine_Set k v) (e, w) = None"
proof -
  obtain rs where rs: "length rs \<le> n" "recoverable rs (e, w)" using lives_recoverable [OF assms] by blast
  have room: "in_int64 (int (length rs) + 2)"
    using in_int64_room [OF lives_bound [OF assms] rs(1)] by simp
  obtain l w' where "run_state (on_wal (WAL_Write ''SET'' [k, v])) (e, w) = (None, (e\<lparr>wal := l\<rparr>, w'))"
    using run_WAL_Write [OF _ room, of e w "''SET''" "[k, v]"] rs(2) unfolding recoverable_def by auto
  then have "runs (WALEngine_Set k v) (e, w) = None"
    by (simp add: WALEngine_Set_def run_on_mem MemoryEngine_Set_def exec_def)
  moreover have "wal_ok (e, w)"
    using rs(2) wf_replay_store by (simp add: recoverable_def wal_ok_def)
  ultimately show ?thesis by simp
qed

subsection \<open>Properties\<close>

text \<open>C2: Crash recovery. An engine started on an empty directory, serving any calls outside the
  exceptions and restarted any number of times without disk faults, can be stopped between any two
  calls: opening the directory again succeeds and rebuilds exactly the store that was in
  memory.\<close>

theorem crash_recovery:
  assumes "lives n (e, w)"
  shows "\<exists>e'. run_state (NewWALEngine mb) w = (Ok e', w) \<and> store (mem e') = store (mem e)"
  by (rule lives_recovers [OF assms])

theorem crash_recovery_witness:
  "\<exists>e w e'. lives 1 (e, w) \<and> str (view (store (mem e)) ''k'') = Some ''v'' \<and>
     run_state (NewWALEngine 64) w = (Ok e', w) \<and> str (view (store (mem e')) ''k'') = Some ''v''"
proof -
  obtain e w where "lives 0 (e, w)" using lives_boot by blast
  then obtain e1 w1 where e1: "lives 1 (e1, w1)" "str (view (store (mem e1)) ''k'') = Some ''v''"
    using lives_Set [of 0 e w "''k''" "''v''"] by (auto simp: short_key_def short_value_def)
  then obtain e' where "run_state (NewWALEngine 64) w1 = (Ok e', w1)" "store (mem e') = store (mem e1)"
    using crash_recovery [OF e1(1), of 64] by blast
  with e1 show ?thesis by (intro exI [of _ e1] exI [of _ w1] exI [of _ e']) simp
qed

end
