(* ===== verification/Writers.thy ===== *)
theory Writers
  imports Recovery
begin

section \<open>Concurrent writers\<close>

text \<open>
  Connections run in their own goroutines and call the methods of one engine. A method meets
  the other goroutines where it sends a record to the flusher and waits for the answer, and
  where it calls the memory engine, which locks. It is a program over these two actions
  (\<open>prog_of\<close>, one clause per method of engine/wal_engine.go); run alone, the program is the
  method of \<open>Engine\<close> (\<open>run_prog_of\<close>). A state of the system: the program each goroutine has
  still to run, the records waiting for the flusher, and the engine. The flusher takes any
  number of waiting records as one batch and answers all their senders.
\<close>

subsection \<open>Methods as programs\<close>

datatype prog =
    Done engine_result
  | Log string "string list" "go_error option \<Rightarrow> prog"
  | Mem engine_call "engine_result \<Rightarrow> prog"
  | Order "nat list \<Rightarrow> prog"


text \<open>Log a list of records, whatever the answers.\<close>

primrec log_each :: "string \<Rightarrow> string list list \<Rightarrow> prog \<Rightarrow> prog" where
  "log_each op [] p = p"
| "log_each op (args # argss) p = Log op args (\<lambda>_. log_each op argss p)"

fun prog_of :: "engine_call \<Rightarrow> prog" where
  "prog_of (CSet k v) = Log ''SET'' [k, v]
     (\<lambda>err. case err of Some e \<Rightarrow> Done (RErr (Some e)) | None \<Rightarrow> Mem (CSet k v) Done)"
| "prog_of (CDel k) = Log ''DEL'' [k]
     (\<lambda>err. case err of Some e \<Rightarrow> Done (RErr (Some e)) | None \<Rightarrow> Mem (CDel k) Done)"
| "prog_of (CIncr k) = Log ''INCR'' [k]
     (\<lambda>err. case err of Some e \<Rightarrow> Done (RInt (Inl e)) | None \<Rightarrow> Mem (CIncr k) Done)"
| "prog_of (CDecr k) = Log ''DECR'' [k]
     (\<lambda>err. case err of Some e \<Rightarrow> Done (RInt (Inl e)) | None \<Rightarrow> Mem (CDecr k) Done)"
| "prog_of CFlushAll = log_each ''FLUSHALL'' [[]] (Mem CFlushAll Done)"
| "prog_of (CLPush k vs) = log_each ''LPUSH'' (map (\<lambda>v. [k, v]) vs) (Mem (CLPush k vs) Done)"
| "prog_of (CRPush k vs) = log_each ''RPUSH'' (map (\<lambda>v. [k, v]) vs) (Mem (CRPush k vs) Done)"
| "prog_of (CLPop k) = Mem (CLPop k)
     (\<lambda>r. case r of RVal (Inr val) \<Rightarrow> Log ''LPOP'' [k] (\<lambda>_. Done r) | _ \<Rightarrow> Done r)"
| "prog_of (CRPop k) = Mem (CRPop k)
     (\<lambda>r. case r of RVal (Inr val) \<Rightarrow> Log ''RPOP'' [k] (\<lambda>_. Done r) | _ \<Rightarrow> Done r)"
| "prog_of (CSAdd k ms) = log_each ''SADD'' (map (\<lambda>m. [k, m]) ms) (Mem (CSAdd k ms) Done)"
| "prog_of (CSRem k ms) = log_each ''SREM'' (map (\<lambda>m. [k, m]) ms) (Mem (CSRem k ms) Done)"
| "prog_of (CSPop k) = Mem (CSPop k)
     (\<lambda>r. case r of RVal (Inr val) \<Rightarrow> Log ''SPOP'' [k] (\<lambda>_. Done r) | _ \<Rightarrow> Done r)"
| "prog_of (CHSet k f v) = log_each ''HSET'' [[k, f, v]] (Mem (CHSet k f v) Done)"
| "prog_of (CHDel k fs) = log_each ''HDEL'' (map (\<lambda>f. [k, f]) fs) (Mem (CHDel k fs) Done)"
| "prog_of (CHMSet k fs) = Order (\<lambda>ord.
     log_each ''HSET'' (map (\<lambda>f. [k, f, the (fmlookup fs f)]) (go_order ord (map_keys fs)))
       (Mem (CHMSet k fs) Done))"
| "prog_of c = Mem c Done"






subsection \<open>Goroutines and the flusher\<close>

text \<open>A goroutine is about to go on, or waits for the answer to the record it sent.\<close>

datatype thread = Ready prog | Waiting "go_error option \<Rightarrow> prog"

type_synonym writers_state = "(nat \<rightharpoonup> thread) \<times> (nat \<times> Record) list \<times> wal_engine_state"

fun resumed :: "go_error option \<Rightarrow> thread \<Rightarrow> thread" where
  "resumed err (Waiting k) = Ready (k err)"
| "resumed err (Ready p) = Ready p"

definition answer :: "go_error option \<Rightarrow> nat list \<Rightarrow> (nat \<rightharpoonup> thread) \<Rightarrow> (nat \<rightharpoonup> thread)" where
  "answer err is T = (\<lambda>i. if i \<in> set is then map_option (resumed err) (T i) else T i)"

text \<open>The calls considered: those of the recovery theorem, and \<open>LPUSH\<close> of several values.\<close>

fun concurrent_call :: "engine_call \<Rightarrow> bool" where
  "concurrent_call (CLPush k vs) = (short_key k \<and> vs \<noteq> [] \<and> list_all short_value vs)"
| "concurrent_call c = safe_call c"

inductive writers_step :: "writers_state \<Rightarrow> writers_state \<Rightarrow> bool" where
  begins: "T i = None \<Longrightarrow> concurrent_call c \<Longrightarrow>
    writers_step (T, q, s) (T(i \<mapsto> Ready (prog_of c)), q, s)"
| sends: "T i = Some (Ready (Log op args k)) \<Longrightarrow>
    writers_step (T, q, s) (T(i \<mapsto> Waiting k), q @ [(i, MakeRecord (opToCode op) args)], s)"
| flushes: "b \<noteq> [] \<Longrightarrow> run_state (on_wal (flush_batch (map snd b))) s = (err, s') \<Longrightarrow>
    writers_step (T, b @ q, s) (answer err (map fst b) T, q, s')"
| computes: "T i = Some (Ready (Mem c k)) \<Longrightarrow>
    run_state (on_mem (perform MemoryEngine_methods c)) s = (r, s') \<Longrightarrow>
    writers_step (T, q, s) (T(i \<mapsto> Ready (k r)), q, s')"
| ranges: "T i = Some (Ready (Order k)) \<Longrightarrow> run_state (on_world range_order) s = (ord, s') \<Longrightarrow>
    writers_step (T, q, s) (T(i \<mapsto> Ready (k ord)), q, s')"
| returns: "T i = Some (Ready (Done r)) \<Longrightarrow> writers_step (T, q, s) (T(i := None), q, s)"

text \<open>Reachable states, from an engine nobody is calling; the index bounds the number of
  records.\<close>

inductive writers_reach :: "nat \<Rightarrow> writers_state \<Rightarrow> bool" where
  idle: "lives n s \<Longrightarrow> writers_reach n (Map.empty, [], s)"
| step: "writers_reach n x \<Longrightarrow> writers_step x y \<Longrightarrow> Suc n < 2 ^ 62 \<Longrightarrow> writers_reach (Suc n) y"

subsection \<open>What a program owes\<close>







lemmas record_facts = replayable_def readable_def short_key_def short_value_def













subsection \<open>The invariant\<close>









lemma run_on_wal_flush:
  assumes "log_holds rs (wal e, w)" and "p \<noteq> []" and "in_int64 (int (length rs) + 2)"
  shows "\<exists>l w'. run_state (on_wal (flush_batch p)) (e, w) = (None, (e\<lparr>wal := l\<rparr>, w')) \<and>
    log_holds (rs @ p) (l, w')"
proof -
  obtain l w' where s: "after (flush_batch p) (wal e, w) = (l, w')" by (metis prod.exhaust)
  with log_holds_flush [OF assms] show ?thesis
    by (auto simp: run_on_wal split: prod.split)
qed
















subsection \<open>Two clients set the same key\<close>

lemma computes_Set:
  assumes "T i = Some (Ready (Mem (CSet k v) Done))"
  shows "writers_step (T, q, (e, w)) (T(i \<mapsto> Ready (Done (RErr None))), q,
    (e\<lparr>mem := (mem e)\<lparr>store := Store_Set k v (store (mem e))\<rparr>\<rparr>, w))"
  by (rule writers_step.computes [where T = T, OF assms])
    (simp add: run_on_mem MemoryEngine_methods_def MemoryEngine_Set_def exec_def)

text \<open>A schedule: both records in one batch, then the two updates of memory in the other order.\<close>

lemma race_schedule:
  assumes "lives n (e, w)" and "concurrent_call (CSet k a)" "concurrent_call (CSet k b)"
    and "run_state (on_wal (flush_batch [set_record k a, set_record k b])) (e, w)
      = (None, (e\<lparr>wal := l\<rparr>, w'))" and "n + 9 < 2 ^ 62"
  shows "writers_reach (n + 9) (Map.empty, [],
    (e\<lparr>wal := l, mem := (mem e)\<lparr>store := Store_Set k a (Store_Set k b (store (mem e)))\<rparr>\<rparr>, w'))"
proof -
  let ?k = "\<lambda>v err. case err of Some e \<Rightarrow> Done (RErr (Some e)) | None \<Rightarrow> Mem (CSet k v) Done"
  let ?T0 = "[0 \<mapsto> Ready (prog_of (CSet k a))]"
  let ?T1 = "?T0(1 \<mapsto> Ready (prog_of (CSet k b)))"
  let ?T2 = "?T1(0 \<mapsto> Waiting (?k a))"
  let ?T3 = "?T2(1 \<mapsto> Waiting (?k b))"
  let ?T4 = "answer None [0, 1] ?T3"
  let ?T5 = "?T4(1 \<mapsto> Ready (Done (RErr None)))"
  let ?T6 = "?T5(0 \<mapsto> Ready (Done (RErr None)))"
  let ?q1 = "[(0, set_record k a)]" and ?q2 = "[(0, set_record k a), (1, set_record k b)]"
  let ?e1 = "e\<lparr>wal := l\<rparr>"
  let ?e2 = "?e1\<lparr>mem := (mem ?e1)\<lparr>store := Store_Set k b (store (mem ?e1))\<rparr>\<rparr>"
  let ?e3 = "?e2\<lparr>mem := (mem ?e2)\<lparr>store := Store_Set k a (store (mem ?e2))\<rparr>\<rparr>"
  have s1: "writers_step (Map.empty, [], (e, w)) (?T0, [], (e, w))"
    by (rule writers_step.begins) (use assms(2,3) in simp_all)
  have s2: "writers_step (?T0, [], (e, w)) (?T1, [], (e, w))"
    by (rule writers_step.begins) (use assms(2,3) in simp_all)
  have s3: "writers_step (?T1, [], (e, w)) (?T2, ?q1, (e, w))"
    using writers_step.sends [of ?T1 0 "''SET''" "[k, a]" "?k a" "[]" "(e, w)"] by simp
  have s4: "writers_step (?T2, ?q1, (e, w)) (?T3, ?q2, (e, w))"
    using writers_step.sends [of ?T2 1 "''SET''" "[k, b]" "?k b" ?q1 "(e, w)"] by simp
  have s5: "writers_step (?T3, ?q2, (e, w)) (?T4, [], (?e1, w'))"
    using writers_step.flushes [of ?q2 "(e, w)" None "(?e1, w')" ?T3 "[]"] assms(4) by simp
  have s6: "writers_step (?T4, [], (?e1, w')) (?T5, [], (?e2, w'))"
    by (rule computes_Set) (simp add: answer_def)
  have s7: "writers_step (?T5, [], (?e2, w')) (?T6, [], (?e3, w'))"
    by (rule computes_Set) (simp add: answer_def)
  have s8: "writers_step (?T6, [], (?e3, w')) (?T6(0 := None), [], (?e3, w'))"
    by (rule writers_step.returns) simp
  have s9: "writers_step (?T6(0 := None), [], (?e3, w')) (?T6(0 := None, 1 := None), [], (?e3, w'))"
    by (rule writers_step.returns) simp
  have final: "?T6(0 := None, 1 := None) = Map.empty" by (auto simp: answer_def)
  note r2 = writers_reach.step [OF writers_reach.step [OF writers_reach.idle [OF assms(1)] s1] s2]
  note r5 = writers_reach.step [OF writers_reach.step [OF writers_reach.step [OF r2 s3] s4] s5]
  note r7 = writers_reach.step [OF writers_reach.step [OF r5 s6] s7]
  note r9 = writers_reach.step [OF writers_reach.step [OF r7 s8] s9, unfolded final]
  have nine: "n + 9 = Suc (Suc (Suc (Suc (Suc (Suc (Suc (Suc (Suc n))))))))" by simp
  have e3: "e\<lparr>wal := l, mem := (mem e)\<lparr>store := Store_Set k a (Store_Set k b (store (mem e)))\<rparr>\<rparr> = ?e3"
    by simp
  show ?thesis unfolding nine e3 by (rule r9) (use assms(5) in simp_all)
qed

lemma race:
  assumes "short_key k" and "short_value a" and "short_value b"
  shows "\<exists>n e w. writers_reach n (Map.empty, [], (e, w)) \<and> str (view (store (mem e)) k) = Some a \<and>
    log_holds [set_record k a, set_record k b] (wal e, w)"
proof -
  let ?r = "[set_record k a, set_record k b]"
  obtain e w where live: "lives 0 (e, w)" using lives_boot by blast
  then obtain rs where "length rs \<le> 0" "recoverable rs (e, w)" using lives_recoverable by blast
  then have rs: "log_holds [] (wal e, w)" "store (mem e) = NewStore" by (simp_all add: recoverable_def)
  obtain l w' where fl: "run_state (on_wal (flush_batch ?r)) (e, w) = (None, (e\<lparr>wal := l\<rparr>, w'))"
    "log_holds ?r (l, w')"
    using run_on_wal_flush [OF rs(1), of ?r] by (auto simp: int64_defs)
  let ?e = "e\<lparr>wal := l, mem := (mem e)\<lparr>store := Store_Set k a (Store_Set k b (store (mem e)))\<rparr>\<rparr>"
  have "writers_reach (0 + 9) (Map.empty, [], (?e, w'))"
    by (rule race_schedule [OF live _ _ fl(1)]) (use assms in simp_all)
  moreover have "str (view (store (mem ?e)) k) = Some a"
    using rs(2) by (simp add: view_simps wf_intros)
  moreover have "log_holds ?r (wal ?e, w')" using fl(2) by simp
  ultimately show ?thesis by blast
qed

subsection \<open>Properties\<close>



text \<open>C30: A race. Two clients set the same key at the same time; the log keeps one order and
  memory the other. Both writes are acknowledged and applied, nothing is pending, and yet a
  restart changes the value every client reads.\<close>

theorem racing_sets_diverge:
  assumes "short_key k" and "short_value a" and "short_value b"
  shows "\<exists>n e w e'. writers_reach n (Map.empty, [], (e, w)) \<and> str (view (store (mem e)) k) = Some a \<and>
    run_state (NewWALEngine mb) w = (Ok e', w) \<and> str (view (store (mem e')) k) = Some b"
proof -
  obtain n e w where r: "writers_reach n (Map.empty, [], (e, w))" "str (view (store (mem e)) k) = Some a"
    "log_holds [set_record k a, set_record k b] (wal e, w)"
    using race [OF assms] by blast
  have "list_all replayable [set_record k a, set_record k b]"
    using assms by (simp add: record_facts)
  then obtain e' where e': "run_state (NewWALEngine mb) w = (Ok e', w)"
    "store (mem e') = replay_store [set_record k a, set_record k b]"
    using restart_of_log [OF r(3), of mb] by (auto simp: int64_defs)
  then have "str (view (store (mem e')) k) = Some b"
    by (simp add: replay_store_def view_simps wf_intros)
  with r(1,2) e'(1) show ?thesis by blast
qed

theorem racing_sets_diverge_witness:
  "\<exists>n e w e'. writers_reach n (Map.empty, [], (e, w)) \<and> str (view (store (mem e)) ''k'') = Some ''a'' \<and>
    run_state (NewWALEngine 64) w = (Ok e', w) \<and> str (view (store (mem e')) ''k'') = Some ''b''"
  by (rule racing_sets_diverge) (simp_all add: short_key_def short_value_def)

end
