(* ===== verification/Restart.thy ===== *)
theory Restart
  imports Recovery
begin

section \<open>Starts that fail and restarts that lose something\<close>

text \<open>
  What becomes of a start when the log cannot be read (keys of more than eight bytes, cut
  records, stray bytes of a failed write) or the disk fails under it, and what a restart
  does not rebuild although everything was logged as the source logs it.
\<close>

subsection \<open>Logs that cannot be replayed\<close>

definition long_key :: "Record \<Rightarrow> bool" where
  "long_key r \<longleftrightarrow> 8 < length (Key r) \<and> length (Key r) < 2 ^ 16"

lemma replay_loop_panic:
  assumes "list_all readable rs" and "long_key r"
  shows "runs (replay_loop eng ErrEOF (batch_bytes (rs @ r # ts))) s = Panic"
  using assms(1)
proof (induction rs arbitrary: s)
  case Nil
  obtain rest where "Decode ErrEOF (EncodeRecord r @ batch_bytes ts) = (Panic, rest)"
    using Decode_long_key [of r ErrEOF "batch_bytes ts"] assms(2) unfolding long_key_def
    by (metis prod.collapse)
  then show ?case by (simp add: replay_loop.simps [of _ ErrEOF "_ @ _"])
next
  case (Cons x rs)
  have "Decode ErrEOF (batch_bytes (x # rs @ r # ts)) = (Ok x, batch_bytes (rs @ r # ts))"
    using Cons.prems by (simp add: readable_def Decode_EncodeRecord)
  with Cons show ?case
    by (simp add: replay_loop.simps [of _ ErrEOF "_ @ _"] case_prod_unfold)
qed

lemma replay_segments_panic:
  assumes "faults (snd s) = []" and "length segs = length rss"
    and "\<And>i. i < length rss \<Longrightarrow> \<exists>f. fmlookup (files (snd s)) (segs ! i) = Some f \<and>
      content f = batch_bytes (rss ! i)"
    and "concat rss = rs @ r # ts" and "list_all readable rs" and "long_key r"
  shows "runs (replay_segments MemoryEngine_replayer segs) s = Panic"
  using assms(1-5)
proof (induction segs arbitrary: rss s rs)
  case Nil
  then show ?case by simp
next
  case (Cons seg segs)
  then obtain xs rss' where rss: "rss = xs # rss'" by (cases rss) auto
  obtain f where f: "fmlookup (files (snd s)) seg = Some f" "content f = batch_bytes xs"
    using Cons.prems(3) [of 0] rss by auto
  have "xs @ concat rss' = rs @ r # ts" using Cons.prems(4) rss by simp
  then obtain us where "xs @ us = rs \<and> concat rss' = us @ r # ts \<or> xs = rs @ us \<and> us @ concat rss' = r # ts"
    by (auto simp: append_eq_append_conv2)
  then consider (later) us where "rs = xs @ us" "concat rss' = us @ r # ts"
    | (here) us where "xs = rs @ r # us"
    by (cases us) force+
  then show ?case
  proof cases
    case later
    let ?s = "after (for_each xs (replayRecord MemoryEngine_replayer)) s"
    have "run_state (replaySegment MemoryEngine_replayer seg) s = (Ok (), ?s)"
      using f Cons.prems(1,5) later(1) by (simp add: replaySegment_def run_open_read run_replay_loop)
    moreover have "runs (replay_segments MemoryEngine_replayer segs) ?s = Panic"
    proof (rule Cons.IH)
      show "\<exists>f. fmlookup (files (snd ?s)) (segs ! i) = Some f \<and> content f = batch_bytes (rss' ! i)"
        if "i < length rss'" for i
        using Cons.prems(3) [of "Suc i"] that rss by (simp add: rep.replay_keeps_disk)
      show "concat rss' = us @ r # ts" by (rule later(2))
    qed (use Cons.prems rss later(1) in \<open>simp_all add: rep.replay_keeps_disk\<close>)
    ultimately show ?thesis by simp
  next
    case here
    have "runs (replaySegment MemoryEngine_replayer seg) s = Panic"
      using f Cons.prems(1) replay_loop_panic [OF Cons.prems(5) assms(6)] here
      by (simp add: replaySegment_def run_open_read)
    then show ?thesis by (simp add: case_prod_unfold)
  qed
qed

lemma restart_panics:
  assumes "log_holds (rs @ r # ts) (l, w)" and "list_all readable rs" and "long_key r"
    and "in_int64 (seq l)"
  shows "runs (NewWALEngine mb) w = Panic"
proof -
  note h = log_holdsD [OF assms(1)]
  obtain l' where l': "run_state (NewWAL mb) w = (Inr l', w)"
    using NewWAL_reopens [OF assms(1,4)] by blast
  obtain rss where rss: "length rss = nat (seq l)" "concat rss = rs @ r # ts"
    "\<And>i. i < length rss \<Longrightarrow> \<exists>f. fmlookup (files w) (segName (int i + 1)) = Some f \<and>
       content f = batch_bytes (rss ! i)"
    using log_holds_segments [OF assms(1)] by blast
  have "map segName [1..seq l] ! i = segName (int i + 1)" if "i < length rss" for i
    using that rss(1) by (simp add: add.commute)
  then have "runs (replay_segments MemoryEngine_replayer (map segName [1..seq l])) (NewMemoryEngine, w) = Panic"
    using rss h(1) assms(2,3) by (intro replay_segments_panic [of _ _ rss rs r ts]) simp_all
  then have "runs (Replay MemoryEngine_replayer) (NewMemoryEngine, w) = Panic"
    using h by (simp add: Replay_def run_readManifest)
  with l' show ?thesis by (simp add: NewWALEngine_def case_prod_unfold)
qed

subsection \<open>Directories with stray bytes\<close>

definition bytes_of :: "os_world \<Rightarrow> string \<Rightarrow> bytes option" where
  "bytes_of w name = map_option content (fmlookup (files w) name)"

text \<open>The first \<open>n\<close> segments hold the records \<open>rs\<close> and, at the end of the last of them, the bytes
  \<open>t\<close>; the segments \<open>rest\<close> follow.\<close>

definition dir_holds :: "Record list \<Rightarrow> bytes \<Rightarrow> int \<Rightarrow> string list \<Rightarrow> os_world \<Rightarrow> bool" where
  "dir_holds rs t n rest w \<longleftrightarrow>
     faults w = [] \<and> 1 \<le> n \<and> manifest w = Manifest (map segName [1..n] @ rest) \<and>
     (\<exists>rss. length rss = nat n \<and> concat rss = rs \<and>
        (\<forall>i < length rss. bytes_of w (segName (int i + 1)) =
           Some (batch_bytes (rss ! i) @ (if Suc i = nat n then t else []))))"

lemma log_holds_dir:
  assumes "log_holds rs (l, w)"
  shows "dir_holds rs [] (seq l) [] w"
proof -
  obtain rss where rss: "length rss = nat (seq l)" "concat rss = rs"
    "\<And>i. i < length rss \<Longrightarrow> \<exists>f. fmlookup (files w) (segName (int i + 1)) = Some f \<and>
       content f = batch_bytes (rss ! i)"
    using log_holds_segments [OF assms] by blast
  have "bytes_of w (segName (int i + 1)) = Some (batch_bytes (rss ! i))" if "i < length rss" for i
    using rss(3) [OF that] by (auto simp: bytes_of_def)
  then show ?thesis
    using log_holdsD(1,2,4) [OF assms] rss(1,2) by (auto simp: dir_holds_def)
qed

lemma replay_loop_prefix:
  "list_all readable xs \<Longrightarrow>
   run_state (replay_loop eng ErrEOF (batch_bytes xs @ t)) s =
     run_state (replay_loop eng ErrEOF t) (after (for_each xs (replayRecord eng)) s)"
proof (induction xs arbitrary: s)
  case (Cons x xs)
  have "Decode ErrEOF (batch_bytes (x # xs) @ t) = (Ok x, batch_bytes xs @ t)"
    using Cons.prems by (simp add: readable_def Decode_EncodeRecord)
  with Cons show ?case
    by (simp add: replay_loop.simps [of _ ErrEOF "_ @ _"] split: prod.split)
qed simp

lemma replay_segments_append:
  "run_state (replay_segments eng (as @ bs)) s =
     (case run_state (replay_segments eng as) s of
        (Ok u, s') \<Rightarrow> run_state (replay_segments eng bs) s'
      | (Err e, s') \<Rightarrow> (Err e, s')
      | (Panic, s') \<Rightarrow> (Panic, s'))"
  by (induction as arbitrary: s) (simp_all split: prod.split outcome.split)

text \<open>Replay gets to the stray bytes with the store of the records in front of them.\<close>

lemma Replay_dir:
  assumes "dir_holds rs t n rest w" and "list_all replayable rs"
  shows "run_state (Replay MemoryEngine_replayer) (NewMemoryEngine, w) =
    (case run_state (replay_loop MemoryEngine_replayer ErrEOF t) (\<lparr>store = replay_store rs\<rparr>, w) of
       (Ok u, s') \<Rightarrow> run_state (replay_segments MemoryEngine_replayer rest) s'
     | (Err e, s') \<Rightarrow> (Err e, s')
     | (Panic, s') \<Rightarrow> (Panic, s'))"
proof -
  have d: "faults w = []" "1 \<le> n" "manifest w = Manifest (map segName [1..n] @ rest)"
    using assms(1) by (simp_all add: dir_holds_def)
  obtain rss where rss: "length rss = nat n" "concat rss = rs"
    "\<And>i. i < length rss \<Longrightarrow> bytes_of w (segName (int i + 1)) =
       Some (batch_bytes (rss ! i) @ (if Suc i = nat n then t else []))"
    using assms(1) by (auto simp: dir_holds_def)
  obtain ys xs where ys: "rss = ys @ [xs]" using rss(1) d(2) by (cases rss rule: rev_cases) auto
  have n: "length ys = nat (n - 1)" "int (length ys) + 1 = n" using rss(1) ys d(2) by simp_all
  let ?r = "replayRecord MemoryEngine_replayer"
  have rd: "list_all readable (concat ys)" "list_all readable xs"
    and pure: "list_all (\<lambda>r. Op r \<noteq> OpSPop) (concat ys)" "list_all (\<lambda>r. Op r \<noteq> OpSPop) xs"
    using assms(2) rss(2) ys by (auto simp: replayable_def list_all_iff)
  have early: "\<exists>f. fmlookup (files w) (map segName [1..n - 1] ! i) = Some f \<and> content f = batch_bytes (ys ! i)"
    if "i < length ys" for i
  proof -
    have "Suc i \<noteq> nat n" using that rss(1) ys by simp
    then have "bytes_of w (segName (int i + 1)) = Some (batch_bytes (ys ! i))"
      using rss(3) [of i] that ys by (simp add: nth_append)
    moreover have "map segName [1..n - 1] ! i = segName (int i + 1)"
      using that n by (simp add: add.commute)
    ultimately show ?thesis by (auto simp: bytes_of_def)
  qed
  have "run_state (replay_segments MemoryEngine_replayer (map segName [1..n - 1])) (NewMemoryEngine, w)
      = (Ok (), after (for_each (concat ys) ?r) (NewMemoryEngine, w))"
    by (rule rep.run_replay_segments) (use d early rd n in simp_all)
  then have front: "run_state (replay_segments MemoryEngine_replayer (map segName [1..n - 1])) (NewMemoryEngine, w)
      = (Ok (), (\<lparr>store = replay_store (concat ys)\<rparr>, w))"
    using pure by (simp add: replay_records_pure NewMemoryEngine_def replay_store_def)
  have "Suc (length ys) = nat n" using rss(1) ys by simp
  then have "bytes_of w (segName (int (length ys) + 1)) = Some (batch_bytes xs @ t)"
    using rss(3) [of "length ys"] by (simp add: ys del: of_nat_Suc)
  then obtain f where f: "fmlookup (files w) (segName n) = Some f" "content f = batch_bytes xs @ t"
    unfolding n(2) by (auto simp: bytes_of_def)
  have last: "run_state (replaySegment MemoryEngine_replayer (segName n)) (\<lparr>store = replay_store (concat ys)\<rparr>, w)
      = run_state (replay_loop MemoryEngine_replayer ErrEOF t) (\<lparr>store = replay_store rs\<rparr>, w)"
    using f d(1) rd(2) pure rss(2) ys
    by (simp add: replaySegment_def run_open_read replay_loop_prefix replay_records_pure flip: replay_store_append)
  have "[1..n] = [1..n - 1] @ [n]" using d(2) by (simp add: upto_rec2)
  then have segs: "map segName [1..n] @ rest = map segName [1..n - 1] @ segName n # rest" by simp
  show ?thesis
    using d front last
    by (simp add: Replay_def run_readManifest segs replay_segments_append split: prod.split outcome.split)
qed

text \<open>Opening a directory without faults does not change it.\<close>

lemma run_NewWAL_same:
  assumes "faults w = []" and "manifest w = Manifest segs" and "segs \<noteq> []"
  shows "after (NewWAL mb) w = w"
  using assms by (simp add: NewWAL_def run_os_call_ok run_readManifest Let_def split: option.split)

lemma NewWAL_dir:
  assumes "dir_holds rs t n [] w"
  shows "\<exists>l. run_state (NewWAL mb) w = (Inr l, w)"
proof -
  have d: "faults w = []" "1 \<le> n" "manifest w = Manifest (map segName [1..n])"
    using assms by (simp_all add: dir_holds_def)
  obtain f where "fmlookup (files w) (segName n) = Some f"
    using assms d(2) by (auto simp: dir_holds_def bytes_of_def dest!: spec [of _ "nat n - 1"])
  then show ?thesis
    using d last_upto [OF d(2)]
    by (simp add: NewWAL_def run_os_call_ok run_readManifest Let_def)
qed

text \<open>Stray bytes that replay does not get past stop every start.\<close>

lemma stray_bytes_block_start:
  assumes "dir_holds rs t n rest w" and "list_all replayable rs"
    and "\<And>s. runs (replay_loop MemoryEngine_replayer ErrEOF t) s \<noteq> Ok ()"
  shows "runs (NewWALEngine mb) w \<noteq> Ok e"
proof -
  have d: "faults w = []" "1 \<le> n" "manifest w = Manifest (map segName [1..n] @ rest)"
    using assms(1) by (simp_all add: dir_holds_def)
  have same: "after (NewWAL mb) w = w" using run_NewWAL_same [OF d(1,3)] d(2) by simp
  obtain u s' where u: "run_state (replay_loop MemoryEngine_replayer ErrEOF t) (\<lparr>store = replay_store rs\<rparr>, w) = (u, s')"
    by (metis prod.exhaust)
  then have "u \<noteq> Ok ()" using assms(3) by (metis fst_conv)
  then have "runs (Replay MemoryEngine_replayer) (NewMemoryEngine, w) \<noteq> Ok ()"
    using Replay_dir [OF assms(1,2)] u by (cases u) simp_all
  then show ?thesis
    using same
    by (cases "runs (NewWAL mb) w")
      (auto simp: NewWALEngine_def case_prod_unfold split: outcome.split)
qed

text \<open>How bytes appended to the open segment show up in the directory.\<close>

lemma dir_holds_appended:
  assumes "dir_holds rs t n rest w" and "in_int64 n"
    and "faults w' = []" and "manifest w' = Manifest (map segName [1..n] @ segs')"
    and "\<And>k c. bytes_of w k = Some c \<Longrightarrow> bytes_of w' k = Some (c @ (if k = segName n then b else []))"
  shows "dir_holds rs (t @ b) n segs' w'"
proof -
  obtain rss where rss: "1 \<le> n" "length rss = nat n" "concat rss = rs"
    "\<And>i. i < length rss \<Longrightarrow> bytes_of w (segName (int i + 1)) =
       Some (batch_bytes (rss ! i) @ (if Suc i = nat n then t else []))"
    using assms(1) by (auto simp: dir_holds_def)
  have "bytes_of w' (segName (int i + 1)) = Some (batch_bytes (rss ! i) @ (if Suc i = nat n then t @ b else []))"
    if "i < length rss" for i
  proof -
    have "in_int64 (int i + 1)" and "int i + 1 = n \<longleftrightarrow> Suc i = nat n"
      using that rss(1,2) assms(2) by (auto simp: int64_defs)
    then have "segName (int i + 1) = segName n \<longleftrightarrow> Suc i = nat n"
      using segName_inject [of "int i + 1" n] rss(1) assms(2) by auto
    then show ?thesis using assms(5) [OF rss(4) [OF that]] by simp
  qed
  with rss assms(3,4) show ?thesis by (auto simp: dir_holds_def)
qed

lemma bytes_of_append_file:
  "bytes_of w k = Some c \<Longrightarrow> bytes_of (append_file name b w) k = Some (c @ (if k = name then b else []))"
  by (auto simp: bytes_of_def lookup_append_file)

lemma bytes_of_sync_file [simp]: "bytes_of (sync_file name w) k = bytes_of w k"
  by (auto simp: bytes_of_def lookup_sync_file option.map_comp comp_def)

text \<open>A rotation without faults adds to the directory and takes nothing away.\<close>

lemma rotate_extends:
  assumes "faults w = []" and "manifest w = Manifest segs" and "in_int64 (seq l + 1)"
  shows "\<exists>w' rest. run_state rotate (l, w) =
      (None, (l\<lparr>wal_file := Some (segName (seq l + 1), True), seq := seq l + 1, currentSz := 0\<rparr>, w')) \<and>
    faults w' = [] \<and> manifest w' = Manifest (segs @ rest) \<and>
    (\<forall>k c. bytes_of w k = Some c \<longrightarrow> bytes_of w' k = Some c)"
proof -
  let ?n = "segName (seq l + 1)"
  let ?new = "if ?n \<in> set segs then [] else [?n]"
  have "run_state rotate (l, w) =
      (None, (l\<lparr>wal_file := Some (?n, True), seq := seq l + 1, currentSz := 0\<rparr>,
        (create_file ?n w)\<lparr>manifest := Manifest (segs @ ?new)\<rparr>))"
    using assms
    by (simp add: rotate_def writeManifest_def run_os_call_ok run_readManifest
        run_writeManifestFile close_file_def)
  then show ?thesis
    using assms(1) by (intro exI [of _ "(create_file ?n w)\<lparr>manifest := Manifest (segs @ ?new)\<rparr>"] exI [of _ ?new])
      (auto simp: bytes_of_def lookup_create_file)
qed

text \<open>A write that breaks off after \<open>m\<close> bytes: the batch fails and the bytes stay.\<close>

lemma flush_cut:
  assumes "faults w = []" and "manifest w = Manifest segs" and "wal_file l = Some (name, True)"
    and "in_int64 (seq l + 1)"
  shows "\<exists>l' w' rest. run_state (flush_batch [r]) (l, w\<lparr>faults := [Some m]\<rparr>) = (Some ErrOS, (l', w')) \<and>
    faults w' = [] \<and> manifest w' = Manifest (segs @ rest) \<and>
    (wal_file l' = Some (name, True) \<and> seq l' = seq l \<or>
     wal_file l' = Some (segName (seq l + 1), True) \<and> seq l' = seq l + 1) \<and>
    (\<forall>k c. bytes_of w k = Some c \<longrightarrow>
       bytes_of w' k = Some (c @ (if k = name then take m (EncodeRecord r) else [])))"
proof -
  let ?w1 = "append_file name (take m (EncodeRecord r)) w"
  let ?l1 = "l\<lparr>currentSz := wrap64 (currentSz l)\<rparr>"
  have "w\<lparr>faults := []\<rparr> = w" using assms(1) by (cases w) simp
  then have enc: "run_state (Encode r) (l, w\<lparr>faults := [Some m]\<rparr>) = (Inl ErrOS, (l, ?w1))"
    using assms(3) by (simp add: Encode_def os_call_def)
  have bytes: "bytes_of ?w1 k = Some (c @ (if k = name then take m (EncodeRecord r) else []))"
    if "bytes_of w k = Some c" for k c
    by (rule bytes_of_append_file [OF that])
  have w1: "faults ?w1 = []" "manifest ?w1 = Manifest segs" using assms(1,2) by simp_all
  obtain w' rest where rot: "run_state rotate (?l1, ?w1) =
      (None, (?l1\<lparr>wal_file := Some (segName (seq l + 1), True), seq := seq l + 1, currentSz := 0\<rparr>, w'))"
    "faults w' = []" "manifest w' = Manifest (segs @ rest)"
    "\<forall>k c. bytes_of ?w1 k = Some c \<longrightarrow> bytes_of w' k = Some c"
    using rotate_extends [OF w1, of ?l1] assms(4) by auto
  show ?thesis
  proof (cases "maxSize l > 0 \<and> wrap64 (currentSz l) \<ge> maxSize l")
    case True
    then show ?thesis
      using enc rot bytes by (simp add: flush_batch_def)
  next
    case False
    then have "run_state (flush_batch [r]) (l, w\<lparr>faults := [Some m]\<rparr>) = (Some ErrOS, (?l1, ?w1))"
      using enc by (auto simp: flush_batch_def)
    then show ?thesis
      using w1 bytes assms(3) by (intro exI [of _ ?l1] exI [of _ ?w1] exI [of _ "[]"]) simp
  qed
qed

text \<open>A batch without faults, on whatever directory.\<close>

lemma flush_extends:
  assumes "faults w = []" and "manifest w = Manifest segs" and "wal_file l = Some (name, True)"
    and "in_int64 (seq l + 1)"
  shows "\<exists>l' w' rest. run_state (flush_batch b) (l, w) = (None, (l', w')) \<and>
    faults w' = [] \<and> manifest w' = Manifest (segs @ rest) \<and>
    (\<forall>k c. bytes_of w k = Some c \<longrightarrow> bytes_of w' k = Some (c @ (if k = name then batch_bytes b else [])))"
proof -
  let ?w1 = "sync_file name (append_file name (batch_bytes b) w)"
  let ?l1 = "l\<lparr>currentSz := wrap64 (currentSz l + int (length (batch_bytes b)))\<rparr>"
  have bytes: "bytes_of ?w1 k = Some (c @ (if k = name then batch_bytes b else []))"
    if "bytes_of w k = Some c" for k c
    using bytes_of_append_file [OF that] by simp
  have w1: "faults ?w1 = []" "manifest ?w1 = Manifest segs" using assms(1,2) by simp_all
  obtain w' rest where rot: "run_state rotate (?l1, ?w1) =
      (None, (?l1\<lparr>wal_file := Some (segName (seq l + 1), True), seq := seq l + 1, currentSz := 0\<rparr>, w'))"
    "faults w' = []" "manifest w' = Manifest (segs @ rest)"
    "\<forall>k c. bytes_of ?w1 k = Some c \<longrightarrow> bytes_of w' k = Some c"
    using rotate_extends [OF w1, of ?l1] assms(4) by auto
  note run = flush_batch_def run_encode_batch [OF assms(1,3)] run_WAL_Sync [OF _ assms(3)]
  show ?thesis
  proof (cases "maxSize ?l1 > 0 \<and> currentSz ?l1 \<ge> maxSize ?l1")
    case True
    then show ?thesis
      using assms(1) rot bytes by (simp add: run)
  next
    case False
    then have "run_state (flush_batch b) (l, w) = (None, (?l1, ?w1))"
      using assms(1) by (auto simp: run)
    then show ?thesis
      using w1 bytes by (intro exI [of _ ?l1] exI [of _ ?w1] exI [of _ "[]"]) simp
  qed
qed

subsection \<open>Starting on a failing disk\<close>

lemma replaySegment_all_or_nothing:
  assumes "run_state (replaySegment MemoryEngine_replayer seg) (m, w) = (Ok (), (m', w'))"
    and "fmlookup (files w) seg = Some f" and "content f = batch_bytes rs" and "list_all replayable rs"
  shows "store m' = fold apply_record rs (store m) \<and> files w' = files w"
proof -
  obtain r w1 where r: "run_state (open_read seg) w = (r, w1)" by (metis prod.exhaust)
  with assms(1) obtain fin input where inr: "r = Inr (fin, input)"
    by (cases r) (auto simp: replaySegment_def)
  have run: "run_state (replay_loop MemoryEngine_replayer fin input) (m, w1) = (Ok (), (m', w'))"
    using assms(1) r inr by (simp add: replaySegment_def)
  then have "fin = ErrEOF" using replay_loop_fails [of fin MemoryEngine_replayer input "(m, w1)"] by auto
  with open_read_cases [OF r [unfolded inr] assms(2)] assms(3)
  have w1: "files w1 = files w" and input: "input = batch_bytes rs" by auto
  have rd: "list_all readable rs" "list_all (\<lambda>r. Op r \<noteq> OpSPop) rs"
    using assms(4) by (simp_all add: replayable_def list_all_iff)
  from run show ?thesis
    using \<open>fin = ErrEOF\<close> input w1 rd by (auto simp: run_replay_loop replay_records_pure)
qed

lemma replay_segments_all_or_nothing:
  assumes "run_state (replay_segments MemoryEngine_replayer segs) (m, w) = (Ok (), (m', w'))"
    and "length segs = length rss" and "list_all replayable (concat rss)"
    and "\<And>i. i < length rss \<Longrightarrow> \<exists>f. fmlookup (files w) (segs ! i) = Some f \<and> content f = batch_bytes (rss ! i)"
  shows "store m' = fold apply_record (concat rss) (store m)"
  using assms
proof (induction segs arbitrary: rss m w)
  case (Cons seg segs)
  then obtain rs rss' where rss: "rss = rs # rss'" by (cases rss) auto
  obtain f where f: "fmlookup (files w) seg = Some f" "content f = batch_bytes rs"
    using Cons.prems(4) [of 0] rss by auto
  obtain r m1 w1 where r: "run_state (replaySegment MemoryEngine_replayer seg) (m, w) = (r, (m1, w1))"
    by (metis prod.exhaust)
  with Cons.prems(1) have ok: "r = Ok ()"
    and later: "run_state (replay_segments MemoryEngine_replayer segs) (m1, w1) = (Ok (), (m', w'))"
    by (cases r; simp)+
  have one: "store m1 = fold apply_record rs (store m)" "files w1 = files w"
    using replaySegment_all_or_nothing [OF r [unfolded ok] f] Cons.prems(3) rss by simp_all
  have "store m' = fold apply_record (concat rss') (store m1)"
  proof (rule Cons.IH [OF later])
    show "\<exists>f. fmlookup (files w1) (segs ! i) = Some f \<and> content f = batch_bytes (rss' ! i)"
      if "i < length rss'" for i
      using Cons.prems(4) [of "Suc i"] that rss one(2) by simp
  qed (use Cons.prems rss in simp_all)
  with one rss show ?case by simp
qed simp

lemma readManifest_cases:
  "run_state readManifest w = (Inr segs, w') \<Longrightarrow> manifest w = Manifest segs"
  by (auto simp: readManifest_def os_call_def split: manifest_file.splits if_splits)

lemma readManifest_keeps:
  "run_state readManifest w = (m, w') \<Longrightarrow> files w' = files w \<and> manifest w' = manifest w"
  by (auto simp: readManifest_def os_call_def)

lemma NewWAL_keeps:
  assumes "run_state (NewWAL mb) w = (Inr l, w')" and "manifest w = Manifest segs" and "segs \<noteq> []"
  shows "files w' = files w \<and> manifest w' = manifest w"
  using assms
  by (auto simp: NewWAL_def readManifest_def os_call_def Let_def split: if_splits option.splits)

subsection \<open>Properties\<close>

text \<open>C27: A start is all or nothing. On a directory that holds a log, under every schedule of disk faults
  (calls that fail, reads that break off anywhere in a segment), a start that succeeds has rebuilt the
  whole log; no fault makes the server run with a part of the data.\<close>

theorem start_all_or_nothing:
  assumes "log_holds rs (l, w)" and "list_all replayable rs"
    and "run_state (NewWALEngine mb) (w\<lparr>faults := fs\<rparr>) = (Ok e, w')"
  shows "store (mem e) = replay_store rs"
proof -
  let ?w = "w\<lparr>faults := fs\<rparr>" and ?segs = "map segName [1..seq l]"
  note h = log_holdsD [OF assms(1)]
  obtain rss where rss: "length rss = nat (seq l)" "concat rss = rs"
    "\<And>i. i < length rss \<Longrightarrow> \<exists>f. fmlookup (files w) (segName (int i + 1)) = Some f \<and>
       content f = batch_bytes (rss ! i)"
    using log_holds_segments [OF assms(1)] by blast
  obtain r w1 where r: "run_state (NewWAL mb) ?w = (r, w1)" by (metis prod.exhaust)
  obtain o1 m w2 where o1: "run_state (Replay MemoryEngine_replayer) (NewMemoryEngine, w1) = (o1, (m, w2))"
    by (metis prod.exhaust)
  from assms(3) r o1 obtain l1 where l1: "r = Inr l1" and ok: "o1 = Ok ()" and e: "mem e = m"
    by (cases r; cases o1) (auto simp: NewWALEngine_def)
  have w1: "files w1 = files w" "manifest w1 = Manifest ?segs"
    using NewWAL_keeps [OF r [unfolded l1]] h(2,4) by simp_all
  obtain x w3 where x: "run_state readManifest w1 = (x, w3)" by (metis prod.exhaust)
  have w3: "files w3 = files w" using readManifest_keeps [OF x] w1 by simp
  have "x \<noteq> Inl ErrNotExist" using x w1(2) by (auto simp: readManifest_def os_call_def split: if_splits)
  with o1 ok x have "\<exists>segs. x = Inr segs" by (cases x) (auto simp: Replay_def split: if_splits)
  then have "x = Inr ?segs" using readManifest_cases x w1(2) by fastforce
  then have "run_state (replay_segments MemoryEngine_replayer ?segs) (NewMemoryEngine, w3) = (Ok (), (m, w2))"
    using o1 ok x by (simp add: Replay_def)
  moreover have "?segs ! i = segName (int i + 1)" if "i < length rss" for i
    using that rss(1) by (simp add: add.commute)
  ultimately have "store m = fold apply_record (concat rss) (store NewMemoryEngine)"
    using rss w3 assms(2) by (intro replay_segments_all_or_nothing [where segs = ?segs]) auto
  then show ?thesis using rss(2) e by (simp add: replay_store_def NewMemoryEngine_def)
qed

theorem start_all_or_nothing_witness:
  "\<exists>rs l w e w'. rs \<noteq> [] \<and> log_holds rs (l, w) \<and>
     run_state (NewWALEngine 64) (w\<lparr>faults := []\<rparr>) = (Ok e, w') \<and>
     store (mem e) = replay_store rs \<and> str (view (replay_store rs) ''k'') = Some ''v''"
proof -
  obtain e0 w0 where "lives 0 (e0, w0)" using lives_boot by blast
  then obtain e1 w where e1: "lives 1 (e1, w)" "str (view (store (mem e1)) ''k'') = Some ''v''"
    using lives_Set [of 0 e0 w0 "''k''" "''v''"] by (auto simp: short_key_def short_value_def)
  then obtain rs where rs: "log_holds rs (wal e1, w)" "list_all replayable rs"
    "store (mem e1) = replay_store rs" "length rs \<le> 1"
    using lives_recoverable by (force simp: recoverable_def)
  have "rs \<noteq> []" using e1(2) rs(3) by (auto simp: view_simps no_entry_def)
  moreover obtain e where "run_state (NewWALEngine 64) w = (Ok e, w)"
    using lives_recovers [OF e1(1), of 64] by blast
  moreover have "w\<lparr>faults := []\<rparr> = w" using log_holdsD(1) [OF rs(1)] by (cases w) simp
  ultimately have run: "run_state (NewWALEngine 64) (w\<lparr>faults := []\<rparr>) = (Ok e, w)" by simp
  show ?thesis
    using start_all_or_nothing [OF rs(1,2) run] run rs(1,3) e1(2) \<open>rs \<noteq> []\<close> by metis
qed

text \<open>C31: A key of more than eight bytes (and less than 2^16, where the length field ends). The write is
  logged, applied and acknowledged, and the start on the directory it leaves panics.\<close>

theorem long_key_blocks_restart:
  assumes "lives n (e, w)" and "8 < length k" and "length k < 2 ^ 16"
  shows "runs (WALEngine_Set k v) (e, w) = None \<and>
    runs (NewWALEngine mb) (snd (after (WALEngine_Set k v) (e, w))) = Panic"
proof -
  obtain rs where rs: "length rs \<le> n" "recoverable rs (e, w)"
    using lives_recoverable [OF assms(1)] by blast
  have room: "in_int64 (int (length rs) + 2)"
    using in_int64_room [OF lives_bound [OF assms(1)] rs(1)] by simp
  have h: "log_holds rs (wal e, w)" "list_all readable rs"
    using rs(2) by (simp_all add: recoverable_def replayable_def list_all_iff)
  obtain l w' where l: "run_state (on_wal (WAL_Write ''SET'' [k, v])) (e, w) = (None, (e\<lparr>wal := l\<rparr>, w'))"
    "log_holds (rs @ [MakeRecord (opToCode ''SET'') [k, v]]) (l, w')"
    using run_WAL_Write [OF h(1) room] by blast
  have set: "run_state (WALEngine_Set k v) (e, w) =
      (None, (e\<lparr>wal := l, mem := (mem e)\<lparr>store := Store_Set k v (store (mem e))\<rparr>\<rparr>, w'))"
    using l(1) by (simp add: WALEngine_Set_def run_on_mem MemoryEngine_Set_def exec_def)
  have "in_int64 (seq l)"
    using log_holdsD(2,3) [OF l(2)] room by (simp add: int64_defs)
  moreover have "long_key (MakeRecord (opToCode ''SET'') [k, v])"
    using assms(2,3) by (simp add: long_key_def)
  ultimately have "runs (NewWALEngine mb) w' = Panic"
    using restart_panics [OF _ h(2)] l(2) by blast
  with set show ?thesis by simp
qed

theorem long_key_blocks_restart_witness:
  "\<exists>e w. lives 0 (e, w) \<and> runs (WALEngine_Set ''user:1000'' ''v'') (e, w) = None \<and>
     runs (NewWALEngine 64) (snd (after (WALEngine_Set ''user:1000'' ''v'') (e, w))) = Panic"
proof -
  obtain e w where "lives 0 (e, w)" using lives_boot by blast
  then show ?thesis using long_key_blocks_restart [of 0 e w "''user:1000''" "''v''" 64] by auto
qed

text \<open>C29: A log that ends in a cut record, as a crash in the middle of a write leaves it: behind what any
  live engine has logged, the first \<open>m\<close> bytes of an entry. The start of the server on this directory
  fails with an unexpected end of file, although all the records in front of the cut are whole; only
  when the cut is exactly behind the 19 bytes of the header does it pass for the end of the log, and
  the start rebuilds the store.\<close>

theorem torn_tail:
  assumes "lives n (e, w)" and "readable r" and "0 < m" and "m < length (EncodeRecord r)"
    and "w' = append_file (segName (seq (wal e))) (take m (EncodeRecord r)) w"
  shows "if m = entryHeaderSize
    then \<exists>e'. run_state (NewWALEngine mb) w' = (Ok e', w') \<and> store (mem e') = store (mem e)
    else runs (NewWALEngine mb) w' = Err ErrUnexpectedEOF"
proof -
  obtain rs where rs: "length rs \<le> n" "recoverable rs (e, w)"
    using lives_recoverable [OF assms(1)] by blast
  have h: "log_holds rs (wal e, w)" "list_all replayable rs" "store (mem e) = replay_store rs"
    using rs(2) by (simp_all add: recoverable_def)
  note d = log_holds_dir [OF h(1)]
  have range: "in_int64 (seq (wal e))"
    using log_holdsD(2,3) [OF h(1)] in_int64_room [OF lives_bound [OF assms(1)] rs(1)]
    by (simp add: int64_defs)
  have "dir_holds rs ([] @ take m (EncodeRecord r)) (seq (wal e)) [] w'"
    by (rule dir_holds_appended [OF d range])
      (use log_holdsD(1,4) [OF h(1)] bytes_of_append_file assms(5) in auto)
  then have dir: "dir_holds rs (take m (EncodeRecord r)) (seq (wal e)) [] w'" by simp
  obtain l where l: "run_state (NewWAL mb) w' = (Inr l, w')" using NewWAL_dir [OF dir] by blast
  have "run_state (replay_loop MemoryEngine_replayer ErrEOF (take m (EncodeRecord r))) (\<lparr>store = replay_store rs\<rparr>, w')
      = ((if m = entryHeaderSize then Ok () else Err ErrUnexpectedEOF), (\<lparr>store = replay_store rs\<rparr>, w'))"
    using run_replay_cut [of "[]" r m MemoryEngine_replayer] assms(2-4) by simp
  then show ?thesis
    using Replay_dir [OF dir h(2)] l h(3) by (simp add: NewWALEngine_def case_prod_unfold)
qed

theorem torn_tail_witness:
  "\<exists>e w. lives 1 (e, w) \<and> str (view (store (mem e)) ''k'') = Some ''v'' \<and>
     runs (NewWALEngine 64)
       (append_file (segName (seq (wal e))) (take 5 (EncodeRecord (set_record ''a'' ''b''))) w) = Err ErrUnexpectedEOF"
proof -
  obtain e0 w0 where "lives 0 (e0, w0)" using lives_boot by blast
  then obtain e w where e: "lives 1 (e, w)" "str (view (store (mem e)) ''k'') = Some ''v''"
    using lives_Set [of 0 e0 w0 "''k''" "''v''"] by (auto simp: short_key_def short_value_def)
  with torn_tail [OF e(1), of "set_record ''a'' ''b''" 5 _ 64] show ?thesis
    by (auto simp: readable_def entryHeaderSize_def)
qed

text \<open>C36: LPUSH of several values. Memory holds them in the order given; a restart rebuilds them in
  the reverse order.\<close>

theorem lpush_order_lost:
  assumes "lives n (e, w)" and "n + 2 < 2 ^ 62" and "short_key k" and "short_value a" and "short_value b"
  shows "\<exists>e1 w1 e' old. after (WALEngine_LPush k [a, b]) (e, w) = (e1, w1) \<and>
    the_list (view (store (mem e1)) k) = a # b # old \<and>
    run_state (NewWALEngine mb) w1 = (Ok e', w1) \<and> the_list (view (store (mem e')) k) = b # a # old"
proof -
  obtain rs where rs: "length rs \<le> n" "recoverable rs (e, w)"
    using lives_recoverable [OF assms(1)] by blast
  have h: "log_holds rs (wal e, w)" "list_all replayable rs" "store (mem e) = replay_store rs"
    using rs(2) by (simp_all add: recoverable_def)
  have room: "in_int64 (int (length rs + length [a, b]) + 1)"
    using in_int64_room [OF assms(2), of "length rs + 2"] rs(1) by simp
  let ?r = "\<lambda>v. MakeRecord (opToCode ''LPUSH'') [k, v]"
  obtain l w1 where l: "run_state (for_each [a, b] (\<lambda>v. log_write ''LPUSH'' [k, v])) (e, w) = ((), (e\<lparr>wal := l\<rparr>, w1))"
    "log_holds (rs @ map ?r [a, b]) (l, w1)"
    using run_log_writes [OF h(1) room, of "''LPUSH''" "\<lambda>v. [k, v]"] by blast
  let ?e1 = "e\<lparr>wal := l, mem := (mem e)\<lparr>store := snd (Store_LPush k [a, b] (store (mem e)))\<rparr>\<rparr>"
  have "after (WALEngine_LPush k [a, b]) (e, w) = (?e1, w1)"
    using l(1) by (simp add: WALEngine_LPush_def run_on_mem MemoryEngine_LPush_def call_def
        case_prod_unfold del: for_each.simps)
  moreover have "list_all replayable (rs @ map ?r [a, b])"
    using h(2) assms(3-5) by (simp add: replayable_def readable_def short_key_def short_value_def)
  then obtain e' where e': "run_state (NewWALEngine mb) w1 = (Ok e', w1)"
    "store (mem e') = replay_store (rs @ map ?r [a, b])"
    using restart_of_log [OF l(2), of mb] room by auto
  moreover have "the_list (view (store (mem ?e1)) k) = a # b # the_list (view (replay_store rs) k)"
    using h(3) wf_replay_store by (simp add: view_simps the_list_def)
  moreover have "the_list (view (store (mem e')) k) = b # a # the_list (view (replay_store rs) k)"
    using e'(2) wf_replay_store by (simp add: view_simps wf_intros the_list_def)
  ultimately show ?thesis by blast
qed

theorem lpush_order_lost_witness:
  "\<exists>e w e1 w1 e' old. lives 0 (e, w) \<and> after (WALEngine_LPush ''l'' [''a'', ''b'']) (e, w) = (e1, w1) \<and>
    the_list (view (store (mem e1)) ''l'') = ''a'' # ''b'' # old \<and>
    run_state (NewWALEngine 64) w1 = (Ok e', w1) \<and> the_list (view (store (mem e')) ''l'') = ''b'' # ''a'' # old"
proof -
  obtain e w where live: "lives 0 (e, w)" using lives_boot by blast
  from lpush_order_lost [OF live, of "''l''" "''a''" "''b''" 64] live show ?thesis
    by (simp add: short_key_def short_value_def) blast
qed

text \<open>C37: Deadlines are not logged. After EXPIRE on a present key, a restart rebuilds the key
  without its deadline.\<close>

theorem expire_lost:
  assumes "lives n (e, w)" and "present (view (store (mem e)) k)"
  shows "\<exists>e1 w1 e'. after (WALEngine_Expire k ttl) (e, w) = (e1, w1) \<and>
    expiry (view (store (mem e1)) k) = Some (clock w + ttl) \<and>
    run_state (NewWALEngine mb) w1 = (Ok e', w1) \<and> store (mem e') = store (mem e) \<and>
    expiry (view (store (mem e')) k) = None"
proof -
  obtain rs where rs: "length rs \<le> n" "recoverable rs (e, w)"
    using lives_recoverable [OF assms(1)] by blast
  have h: "log_holds rs (wal e, w)" "list_all replayable rs" "store (mem e) = replay_store rs"
    using rs(2) by (simp_all add: recoverable_def)
  obtain t w1 where t: "run_state time_Now w = (t, w1)" by (metis prod.exhaust)
  have "t = clock w" "same_dir w w1"
    using t runs_time_Now [of w] by (auto simp: time_Now_def same_dir_def)
  let ?e1 = "e\<lparr>mem := (mem e)\<lparr>store := snd (Store_Expire t k ttl (store (mem e)))\<rparr>\<rparr>"
  have "after (WALEngine_Expire k ttl) (e, w) = (?e1, w1)"
    by (simp add: WALEngine_Expire_def run_on_mem MemoryEngine_Expire_def t call_def split: prod.split)
  moreover have "expiry (view (store (mem ?e1)) k) = Some (clock w + ttl)"
    using assms(2) h(3) wf_replay_store \<open>t = clock w\<close> by (simp add: view_simps)
  moreover obtain e' where "run_state (NewWALEngine mb) w1 = (Ok e', w1)" "store (mem e') = replay_store rs"
    using restart_of_log [of rs "wal e" w1 mb] h(1,2) log_holds_same_dir [OF \<open>same_dir w w1\<close>]
      in_int64_room [OF lives_bound [OF assms(1)] rs(1)] by blast
  ultimately show ?thesis using h(3) no_expiry_replay_store by (auto simp: no_expiry_def)
qed

theorem expire_lost_witness:
  "\<exists>e w e1 w1 e'. lives 1 (e, w) \<and> after (WALEngine_Expire ''k'' 5) (e, w) = (e1, w1) \<and>
     expiry (view (store (mem e1)) ''k'') = Some (clock w + 5) \<and>
     run_state (NewWALEngine 64) w1 = (Ok e', w1) \<and> expiry (view (store (mem e')) ''k'') = None"
proof -
  obtain e w where "lives 0 (e, w)" using lives_boot by blast
  then obtain e1 w1 where e1: "lives 1 (e1, w1)" "str (view (store (mem e1)) ''k'') = Some ''v''"
    using lives_Set [of 0 e w "''k''" "''v''"] by (auto simp: short_key_def short_value_def)
  then show ?thesis
    using expire_lost [OF e1(1), of "''k''" 5 64] by (simp add: present_def) blast
qed

text \<open>Stray bytes that make the decoder read a key length above eight.\<close>

lemma replay_loop_bad_key_length:
  assumes "entryHeaderSize \<le> length t" and "8 < unat (Uint16 (drop 5 t))"
  shows "runs (replay_loop eng ErrEOF t) s = Panic"
proof -
  let ?h = "take entryHeaderSize t"
  have kl: "slice ?h 5 7 = Some (take 2 (drop 5 t))"
    using assms(1) by (simp add: slice_def entryHeaderSize_def drop_take)
  have "slice ?h (7 + k) (11 + k) = None" if "8 < k" for k
    using that by (simp add: slice_def entryHeaderSize_def)
  moreover have "Uint16 (take 2 (drop 5 t)) = Uint16 (drop 5 t)" by (simp add: Uint16_def)
  ultimately have "fst (Decode ErrEOF t) = Panic"
    using kl assms by (simp add: Decode_def ReadFull_def)
  then show ?thesis by (cases "Decode ErrEOF t") (simp add: replay_loop.simps [of _ ErrEOF t])
qed

text \<open>Behind one stray byte the key length starts with the operation of the next entry.\<close>

lemma one_stray_byte:
  assumes "length p = 1"
  shows "8 < unat (Uint16 (drop 5 (p @ EncodeRecord (set_record b v))))"
proof -
  obtain y z where y: "PutUint16 (of_nat (length b)) = [y, z]"
    by (simp add: PutUint16_def numeral_2_eq_2)
  have "take 2 (drop 5 (p @ EncodeRecord (set_record b v))) = [1, y]"
    using assms by (simp add: EncodeRecord_def record_payload_def y op_defs)
  then have k: "Uint16 (drop 5 (p @ EncodeRecord (set_record b v))) = push_bit 8 1 OR ucast y"
    by (simp add: Uint16_def be_get_def)
  let ?k = "push_bit 8 1 OR ucast y :: 16 word"
  have "bit (unat ?k) 8" by (simp add: bit_unsigned_iff bit_simps)
  then have "odd (unat ?k div 2 ^ 8)" by (rule bit_iff_odd [THEN iffD1])
  then have "unat ?k div 2 ^ 8 \<noteq> 0" by (metis even_zero)
  then have "256 \<le> unat ?k" by (simp add: div_eq_0_iff not_less)
  then show ?thesis unfolding k by simp
qed

text \<open>A SET that fails after \<open>m\<close> bytes and a SET after it: the bytes stay behind the records of the
  segment that was open, and the second entry follows them, or goes to a new segment.\<close>

lemma cut_then_set:
  assumes "lives n (e, w)"
  shows "\<exists>e1 w1 e2 w2 rs t rest. run_state (WALEngine_Set a u) (e, w\<lparr>faults := [Some m]\<rparr>) = (Some ErrOS, (e1, w1)) \<and>
    run_state (WALEngine_Set b v) (e1, w1) = (None, (e2, w2)) \<and> list_all replayable rs \<and>
    dir_holds rs t (seq (wal e)) rest w2 \<and>
    (t = take m (EncodeRecord (set_record a u)) \<or>
     t = take m (EncodeRecord (set_record a u)) @ EncodeRecord (set_record b v))"
proof -
  obtain rs where rs: "length rs \<le> n" "recoverable rs (e, w)"
    using lives_recoverable [OF assms] by blast
  have h: "log_holds rs (wal e, w)" "list_all replayable rs" using rs(2) by (simp_all add: recoverable_def)
  note d = log_holdsD [OF h(1)]
  have range: "in_int64 (seq (wal e))" "in_int64 (seq (wal e) + 1)" "in_int64 (seq (wal e) + 1 + 1)"
    using d(2,3) lives_bound [OF assms] rs(1) by (simp_all add: int64_defs)
  let ?name = "segName (seq (wal e))" and ?p = "take m (EncodeRecord (set_record a u))"
  obtain l1 w1 segs1 where f1: "run_state (flush_batch [set_record a u]) (wal e, w\<lparr>faults := [Some m]\<rparr>) = (Some ErrOS, (l1, w1))"
    "faults w1 = []" "manifest w1 = Manifest (map segName [1..seq (wal e)] @ segs1)"
    "wal_file l1 = Some (?name, True) \<and> seq l1 = seq (wal e) \<or>
     wal_file l1 = Some (segName (seq (wal e) + 1), True) \<and> seq l1 = seq (wal e) + 1"
    "\<forall>k c. bytes_of w k = Some c \<longrightarrow> bytes_of w1 k = Some (c @ (if k = ?name then ?p else []))"
    using flush_cut [OF d(1,4,5) range(2)] by blast
  obtain name where name: "wal_file l1 = Some (name, True)" "in_int64 (seq l1 + 1)" using f1(4) range by auto
  obtain l2 w2 segs2 where f2: "run_state (flush_batch [set_record b v]) (l1, w1) = (None, (l2, w2))"
    "faults w2 = []" "manifest w2 = Manifest ((map segName [1..seq (wal e)] @ segs1) @ segs2)"
    "\<forall>k c. bytes_of w1 k = Some c \<longrightarrow>
       bytes_of w2 k = Some (c @ (if k = name then batch_bytes [set_record b v] else []))"
    using flush_extends [OF f1(2,3) name] by blast
  let ?b = "?p @ (if ?name = name then EncodeRecord (set_record b v) else [])"
  have new: "bytes_of w name = None" if "?name \<noteq> name"
    using d(6) [of "seq (wal e) + 1"] range(2) name(1) f1(4) that by (auto simp: bytes_of_def)
  have "bytes_of w2 k = Some (c @ (if k = ?name then ?b else []))" if "bytes_of w k = Some c" for k c
    using f1(5) f2(4) new that by (cases "?name = name"; cases "k = name") auto
  moreover have "manifest w2 = Manifest (map segName [1..seq (wal e)] @ segs1 @ segs2)"
    using f2(3) by simp
  ultimately have "dir_holds rs ([] @ ?b) (seq (wal e)) (segs1 @ segs2) w2"
    using dir_holds_appended [OF log_holds_dir [OF h(1)] range(1) f2(2)] by blast
  moreover have "run_state (WALEngine_Set a u) (e, w\<lparr>faults := [Some m]\<rparr>) = (Some ErrOS, (e\<lparr>wal := l1\<rparr>, w1))"
    using f1(1) by (simp add: WALEngine_Set_def run_on_wal WAL_Write_def)
  moreover have "\<exists>e2. run_state (WALEngine_Set b v) (e\<lparr>wal := l1\<rparr>, w1) = (None, (e2, w2))"
    using f2(1) by (simp add: WALEngine_Set_def run_on_wal WAL_Write_def run_on_mem MemoryEngine_Set_def exec_def)
  ultimately show ?thesis using h(2) by (cases "?name = name") fastforce+
qed

text \<open>C28: A short write poisons the log. At any point in the life of an engine a disk error breaks the
  write of an entry off, within its first six bytes: SET fails and the bytes stay in the segment. The
  next SET succeeds and is acknowledged, and the start after it does not succeed. After one byte this
  holds for all keys and values; after two to six bytes, when the two bytes that the decoder takes for
  a key length are above eight as a number, as all but nine of their 65536 values are.\<close>

theorem short_write_poisons_log:
  assumes "lives n (e, w)" and "0 < m" and "m < 7"
    and "m = 1 \<or> 8 < unat (Uint16 (drop 5
      (take m (EncodeRecord (set_record a u)) @ EncodeRecord (set_record b v))))"
  shows "\<exists>e1 w1 e2 w2. run_state (WALEngine_Set a u) (e, w\<lparr>faults := [Some m]\<rparr>) = (Some ErrOS, (e1, w1)) \<and>
    run_state (WALEngine_Set b v) (e1, w1) = (None, (e2, w2)) \<and>
    (\<forall>mb e'. runs (NewWALEngine mb) w2 \<noteq> Ok e')"
proof -
  let ?p = "take m (EncodeRecord (set_record a u))" and ?E = "EncodeRecord (set_record b v)"
  obtain e1 w1 e2 w2 rs t segs where c: "run_state (WALEngine_Set a u) (e, w\<lparr>faults := [Some m]\<rparr>) = (Some ErrOS, (e1, w1))"
    "run_state (WALEngine_Set b v) (e1, w1) = (None, (e2, w2))" "list_all replayable rs"
    "dir_holds rs t (seq (wal e)) segs w2" "t = ?p \<or> t = ?p @ ?E"
    using cut_then_set [OF assms(1), of a u m b v] by blast
  have len: "length ?p = m" using assms(3) by (simp add: entryHeaderSize_def)
  have "8 < unat (Uint16 (drop 5 (?p @ ?E)))" using assms(4) one_stray_byte [of ?p] len by auto
  then have "runs (replay_loop MemoryEngine_replayer ErrEOF (?p @ ?E)) s = Panic" for s
    by (rule replay_loop_bad_key_length [rotated]) simp
  moreover have "runs (replay_loop MemoryEngine_replayer ErrEOF ?p) s \<noteq> Ok ()" for s
  proof -
    have "?p \<noteq> []" using len assms(2) by (metis length_greater_0_conv)
    then have "Decode ErrEOF ?p = (Err ErrUnexpectedEOF, [])"
      using assms(3) len by (simp add: Decode_def ReadFull_def entryHeaderSize_def)
    then show ?thesis by (simp add: replay_loop.simps [of _ ErrEOF ?p])
  qed
  ultimately have "runs (replay_loop MemoryEngine_replayer ErrEOF t) s \<noteq> Ok ()" for s
    using c(5) by (cases s) auto
  then have "runs (NewWALEngine mb) w2 \<noteq> Ok e'" for mb e'
    by (rule stray_bytes_block_start [OF c(4,3)])
  with c(1,2) show ?thesis by blast
qed

theorem short_write_poisons_log_witness:
  "\<exists>e w e1 w1 e2 w2. lives 0 (e, w) \<and>
    run_state (WALEngine_Set ''a'' ''1'') (e, w\<lparr>faults := [Some 5]\<rparr>) = (Some ErrOS, (e1, w1)) \<and>
    run_state (WALEngine_Set ''b'' ''2'') (e1, w1) = (None, (e2, w2)) \<and>
    (\<forall>mb e'. runs (NewWALEngine mb) w2 \<noteq> Ok e')"
proof -
  have p: "record_payload (set_record ''b'' ''2'') = [1, 0, 1, 98, 0, 0, 0, 1, 50, 0, 0, 0, 0, 0, 0, 0, 0]"
    by (simp add: record_payload_def PutUint16_def PutUint32_def PutUint64_def eval_nat_numeral op_defs
        string_bytes_def)
  have "crc32 (record_payload (set_record ''b'' ''2'')) = 0x750429F8" unfolding p by (simp add: crc_eval)
  then have "take 2 (EncodeRecord (set_record ''b'' ''2'')) = [0x75, 0x04]"
    by (simp add: EncodeRecord_def take_PutUint32)
  then have "take 2 (drop 5 (take 5 (EncodeRecord (set_record ''a'' ''1'')) @ EncodeRecord (set_record ''b'' ''2'')))
      = [0x75, 0x04]"
    by (simp add: entryHeaderSize_def)
  then have long: "8 < unat (Uint16 (drop 5
      (take 5 (EncodeRecord (set_record ''a'' ''1'')) @ EncodeRecord (set_record ''b'' ''2''))))"
    by (simp only: Uint16_def) (simp add: be_get_def)
  obtain e w where live: "lives 0 (e, w)" using lives_boot by blast
  have "(0 :: nat) < 5" "(5 :: nat) < 7" by simp_all
  from short_write_poisons_log [OF live this disjI2 [OF long]] live show ?thesis by blast
qed

end
