(* ===== verification/Compaction.thy ===== *)
theory Compaction
  imports Restart
begin

section \<open>Compaction of the log\<close>

text \<open>
  What \<open>Compact\<close> leaves on disk when no fault happens: one segment with, for every key, the
  last record that mentions it, deletions applied. For a log of SET and DEL records this
  rebuilds the same store. For other records it does not: the last INCR of a key is not the
  sum of its INCRs. Compaction also removes the segment the log has open, so writes that
  follow are acknowledged and reach no file of the directory.
\<close>

subsection \<open>The surviving records\<close>

definition latest_records :: "Record list \<Rightarrow> (string, Record) fmap" where
  "latest_records rs = fold compact_record rs fmempty"

definition compacted :: "Record list \<Rightarrow> Record list" where
  "compacted rs = (let m = latest_records rs in map (\<lambda>k. the (fmlookup m k)) (map_keys m))"

lemma compact_scan_batch:
  "list_all readable rs \<Longrightarrow> compact_scan ErrEOF (batch_bytes rs) m = Ok (fold compact_record rs m)"
proof (induction rs arbitrary: m)
  case Nil
  show ?case by (simp add: compact_scan.simps [of ErrEOF "[]"])
next
  case (Cons r rs)
  have "Decode ErrEOF (batch_bytes (r # rs)) = (Ok r, batch_bytes rs)"
    using Cons.prems by (simp add: readable_def Decode_EncodeRecord)
  with Cons show ?case by (simp add: compact_scan.simps [of ErrEOF "_ @ _"])
qed

lemma run_compact_read:
  assumes "faults w = []" and "length segs = length rss"
    and "\<And>i. i < length rss \<Longrightarrow> \<exists>f. fmlookup (files w) (segs ! i) = Some f \<and>
      content f = batch_bytes (rss ! i)"
    and "list_all readable (concat rss)"
  shows "run_state (compact_read segs m) w = (Ok (fold compact_record (concat rss) m), w)"
  using assms(2-)
proof (induction segs arbitrary: rss m)
  case Nil
  then show ?case by simp
next
  case (Cons seg segs)
  then obtain rs rss' where rss: "rss = rs # rss'" by (cases rss) auto
  obtain f where f: "fmlookup (files w) seg = Some f" "content f = batch_bytes rs"
    using Cons.prems(2) [of 0] rss by auto
  have "run_state (compact_read segs (fold compact_record rs m)) w
      = (Ok (fold compact_record (concat rss') (fold compact_record rs m)), w)"
  proof (rule Cons.IH)
    show "\<exists>f. fmlookup (files w) (segs ! i) = Some f \<and> content f = batch_bytes (rss' ! i)"
      if "i < length rss'" for i
      using Cons.prems(2) [of "Suc i"] that rss by simp
  qed (use Cons.prems rss in simp_all)
  then show ?case
    using f Cons.prems(3) rss assms(1) by (simp add: run_open_read compact_scan_batch)
qed

lemma run_compact_write:
  "faults w = [] \<Longrightarrow> run_state (compact_write name rs) w = (None, append_file name (batch_bytes rs) w)"
  by (induction rs arbitrary: w) (simp_all add: run_os_call_ok append_file_Nil append_file_append)

lemma run_remove_files:
  "faults w = [] \<Longrightarrow>
   run_state (remove_files segs) w = ((), w\<lparr>files := fold fmdrop segs (files w)\<rparr>)"
  by (induction segs arbitrary: w) (simp_all add: run_os_call_ok)

lemma fold_fmdrop_lookup:
  "fmlookup (fold fmdrop ks m) k = (if k \<in> set ks then None else fmlookup m k)"
  by (induction ks arbitrary: m) auto

subsection \<open>The directory after compaction\<close>

lemma run_Compact:
  assumes log: "log_holds rs (l, w)" and rd: "list_all readable rs"
    and two: "2 \<le> seq l" and room: "in_int64 (seq l + 1)"
  shows "\<exists>w'. run_state Compact (l, w) = (Ok (), (l, w')) \<and> faults w' = [] \<and>
    manifest w' = Manifest [segName (seq l + 1)] \<and>
    (\<exists>f. fmlookup (files w') (segName (seq l + 1)) = Some f \<and>
      content f = batch_bytes (compacted rs)) \<and>
    (\<forall>i. 1 \<le> i \<and> i \<le> seq l \<longrightarrow> fmlookup (files w') (segName i) = None)"
proof -
  note h = log_holdsD [OF log]
  obtain rss where rss: "length rss = nat (seq l)" "concat rss = rs"
    "\<And>i. i < length rss \<Longrightarrow> \<exists>f. fmlookup (files w) (segName (int i + 1)) = Some f \<and>
       content f = batch_bytes (rss ! i)"
    using log_holds_segments [OF log] by blast
  let ?segs = "map segName [1..seq l]" and ?new = "segName (seq l + 1)"
  have "?segs ! i = segName (int i + 1)" if "i < length rss" for i
    using that rss(1) by (simp add: add.commute)
  then have read: "run_state (compact_read ?segs fmempty) w = (Ok (latest_records rs), w)"
    using rss h(1) rd by (subst run_compact_read [of _ _ rss]) (simp_all add: latest_records_def)
  define w1 where "w1 = w\<lparr>files := fmupd ?new \<lparr>content = [], synced = 0\<rparr> (files w)\<rparr>"
  define w2 where "w2 = sync_file ?new (append_file ?new (batch_bytes (compacted rs)) w1)"
  define w3 where "w3 = w2\<lparr>files := fold fmdrop ?segs (files w2)\<rparr>"
  have faults: "faults w1 = []" "faults w2 = []" "faults w3 = []"
    using h(1) by (simp_all add: w1_def w2_def w3_def)
  have fresh: "?new \<notin> set ?segs" using segName_fresh [OF room] h(2) by blast
  have written: "run_state (compact_write ?new (map (\<lambda>k. the (fmlookup (latest_records rs) k))
      (map_keys (latest_records rs)))) w1 = (None, append_file ?new (batch_bytes (compacted rs)) w1)"
    using run_compact_write [OF faults(1)] by (simp add: compacted_def Let_def)
  have remove: "run_state (remove_files ?segs) w2 = ((), w3)"
    using run_remove_files [OF faults(2)] by (simp add: w3_def)
  have wrap: "wrap64 (seq l + 1) = seq l + 1" using room by simp
  have run: "run_state Compact (l, w) = (Ok (), (l, w3\<lparr>manifest := Manifest [?new]\<rparr>))"
    using two h read written remove faults
    by (simp add: Compact_def run_readManifest run_os_call_ok wrap w1_def [symmetric]
        w2_def [symmetric] run_writeManifestFile Let_def)
  have "fmlookup (files w2) ?new = Some \<lparr>content = batch_bytes (compacted rs),
      synced = length (batch_bytes (compacted rs))\<rparr>"
    by (simp add: w2_def w1_def lookup_sync_file lookup_append_file)
  then have "fmlookup (files w3) ?new = Some \<lparr>content = batch_bytes (compacted rs),
      synced = length (batch_bytes (compacted rs))\<rparr>"
    using fresh by (simp add: w3_def fold_fmdrop_lookup)
  moreover have "fmlookup (files w3) (segName i) = None" if "1 \<le> i \<and> i \<le> seq l" for i
    using that by (simp add: w3_def fold_fmdrop_lookup)
  ultimately show ?thesis using run faults by auto
qed

text \<open>A write after compaction: acknowledged, and absent from every segment of the directory.\<close>

lemma append_file_missing: "fmlookup (files w) name = None \<Longrightarrow> append_file name b w = w"
  by (simp add: append_file_def)

lemma sync_file_missing: "fmlookup (files w) name = None \<Longrightarrow> sync_file name w = w"
  by (simp add: sync_file_def)

text \<open>A batch flushed to a segment that was removed. When the batch fills the log up and it
  rotates, the next segment is the compacted one: it is there, and in the manifest, already.\<close>

lemma flush_after_Compact:
  assumes "faults w = []" and "wal_file l = Some (name, True)" and "fmlookup (files w) name = None"
    and "manifest w = Manifest [segName (seq l + 1)]"
    and "fmlookup (files w) (segName (seq l + 1)) = Some f" and "in_int64 (seq l + 1)"
  shows "\<exists>l'. run_state (flush_batch batch) (l, w) = (None, (l', w))"
proof -
  have same: "create_file (segName (seq l + 1)) w = w" using assms(5) by (simp add: create_file_def)
  have "w\<lparr>manifest := Manifest [segName (seq l + 1)]\<rparr> = w" using assms(4) by (cases w) simp
  then have "\<exists>l'. run_state rotate (l\<lparr>currentSz := c\<rparr>, w) = (None, (l', w))" for c
    using assms(1,4,6) same
    by (simp add: rotate_def writeManifest_def run_os_call_ok run_readManifest run_writeManifestFile
        close_file_def)
  then obtain l' where "run_state rotate
      (l\<lparr>currentSz := wrap64 (currentSz l + int (length (batch_bytes batch)))\<rparr>, w) = (None, (l', w))"
    by blast
  then show ?thesis
    using assms(1-3)
    by (auto simp: flush_batch_def run_encode_batch run_WAL_Sync append_file_missing sync_file_missing)
qed

subsection \<open>Strings survive compaction\<close>

definition string_record :: "Record \<Rightarrow> bool" where
  "string_record r \<longleftrightarrow> Op r = OpSet \<or> Op r = OpDel"

text \<open>What a log of SET and DEL records says of a key.\<close>

definition latest_entry :: "(string, Record) fmap \<Rightarrow> db" where
  "latest_entry m k =
     (case fmlookup m k of None \<Rightarrow> no_entry | Some r \<Rightarrow> no_entry\<lparr>str := Some (Value r)\<rparr>)"

lemma set_del_neq [simp]: "OpSet \<noteq> OpDel" "OpDel \<noteq> OpSet" "OpSet \<noteq> OpFlush" "OpFlush \<noteq> OpSet"
  by (simp_all add: op_defs)

lemma apply_string_record:
  assumes "string_record r" and "wf_store st" and "view st = latest_entry m"
  shows "view (apply_record r st) = latest_entry (compact_record r m)"
proof (cases "Op r = OpSet")
  case True
  then show ?thesis
    using assms(2,3)
    by (auto simp: apply_record_def compact_record_def view_simps latest_entry_def no_entry_def
        split: option.split)
next
  case False
  then have del: "Op r = OpDel" using assms(1) by (simp add: string_record_def)
  then show ?thesis
    using assms(2,3)
    by (auto simp: apply_record_def compact_record_def view_simps latest_entry_def no_entry_def
        present_def fun_eq_iff split: option.split)
qed

lemma view_replay_strings:
  "list_all string_record rs \<Longrightarrow> view (replay_store rs) = latest_entry (latest_records rs)"
proof (induction rs rule: rev_induct)
  case Nil
  show ?case by (auto simp: view_simps latest_records_def latest_entry_def)
next
  case (snoc r rs)
  then show ?case
    using apply_string_record [of r "replay_store rs" "latest_records rs"] wf_replay_store
    by (simp add: latest_records_def)
qed

lemma latest_records_Set:
  "list_all string_record rs \<Longrightarrow> fmlookup (latest_records rs) k = Some r \<Longrightarrow> Op r = OpSet \<and> Key r = k"
proof (induction rs arbitrary: r rule: rev_induct)
  case Nil
  then show ?case by (simp add: latest_records_def)
next
  case (snoc x rs)
  have look: "fmlookup (compact_record x (latest_records rs)) k = Some r"
    using snoc.prems(2) by (simp add: latest_records_def)
  have prem: "list_all string_record rs" "string_record x" using snoc.prems(1) by simp_all
  show ?case
  proof (cases "Op x = OpSet")
    case True
    then have "fmlookup (fmupd (Key x) x (latest_records rs)) k = Some r"
      using look by (simp add: compact_record_def)
    then show ?thesis using True snoc.IH [OF prem(1), of r] by (cases "k = Key x") simp_all
  next
    case False
    then have "fmlookup (fmdrop (Key x) (latest_records rs)) k = Some r"
      using look prem(2) by (simp add: compact_record_def string_record_def)
    then show ?thesis using snoc.IH [OF prem(1), of r] by (simp split: if_splits)
  qed
qed

lemma latest_of_distinct:
  assumes "distinct ks" and "\<And>k. k \<in> set ks \<Longrightarrow> Op (g k) = OpSet \<and> Key (g k) = k"
  shows "fmlookup (fold compact_record (map g ks) m) k = (if k \<in> set ks then Some (g k) else fmlookup m k)"
  using assms
  by (induction ks arbitrary: m) (auto simp: compact_record_def)

lemma replay_compacted:
  assumes "list_all string_record rs"
  shows "replay_store (compacted rs) = replay_store rs"
proof -
  let ?m = "latest_records rs" and ?g = "\<lambda>k. the (fmlookup (latest_records rs) k)"
  have g: "Op (?g k) = OpSet \<and> Key (?g k) = k" if "k \<in> set (map_keys ?m)" for k
    using that latest_records_Set [OF assms, of k] by (auto simp: fmlookup_dom'_iff)
  then have strings: "list_all string_record (compacted rs)"
    by (simp add: compacted_def Let_def list_all_iff string_record_def)
  have "fmlookup (latest_records (compacted rs)) k = fmlookup ?m k" for k
    using latest_of_distinct [of "map_keys ?m" ?g fmempty k] g
    by (auto simp: latest_records_def compacted_def Let_def fmlookup_dom'_iff)
  then have "latest_records (compacted rs) = ?m" by (rule fmap_ext)
  then have "view (replay_store (compacted rs)) = view (replay_store rs)"
    using view_replay_strings [OF strings] view_replay_strings [OF assms] by simp
  then show ?thesis by (rule store_eqI [OF wf_replay_store wf_replay_store])
qed

subsection \<open>Opening a compacted log\<close>

lemma readable_compacted:
  assumes "list_all replayable rs"
  shows "list_all replayable (compacted rs)"
proof -
  have "replayable r" if "fmlookup (latest_records rs) k = Some r" for k r
    using assms that
    by (induction rs arbitrary: r rule: rev_induct)
      (auto simp: latest_records_def compact_record_def split: if_splits)
  then show ?thesis by (auto simp: compacted_def Let_def list_all_iff fmlookup_dom'_iff)
qed

lemma NewWALEngine_compacted:
  assumes "faults w = []" and "manifest w = Manifest [segName n]" and "0 \<le> n" and "in_int64 n"
    and "fmlookup (files w) (segName n) = Some f" and "content f = batch_bytes rs"
    and "list_all replayable rs"
  shows "\<exists>e. run_state (NewWALEngine mb) w = (Ok e, w) \<and> store (mem e) = replay_store rs"
proof -
  let ?l = "\<lparr>wal_file = Some (segName n, True), seq = n, maxSize = wrap64 (mb * 1024 * 1024),
    currentSz = int (length (content f))\<rparr>"
  have new: "run_state (NewWAL mb) w = (Inr ?l, w)"
    using assms by (simp add: NewWAL_def run_os_call_ok run_readManifest Atoi_value_segment Let_def)
  have rd: "list_all readable rs" "list_all (\<lambda>r. Op r \<noteq> OpSPop) rs"
    using assms(7) by (simp_all add: replayable_def list_all_iff)
  have "run_state (replay_segments MemoryEngine_replayer [segName n]) (NewMemoryEngine, w)
      = (Ok (), after (for_each rs (replayRecord MemoryEngine_replayer)) (NewMemoryEngine, w))"
    using assms rd by (subst rep.run_replay_segments [of _ _ "[rs]"]) auto
  then have "run_state (Replay MemoryEngine_replayer) (NewMemoryEngine, w)
      = (Ok (), (\<lparr>store = replay_store rs\<rparr>, w))"
    using assms(1,2) rd(2)
    by (simp add: Replay_def run_readManifest replay_records_pure NewMemoryEngine_def
        replay_store_def del: replay_segments.simps)
  then show ?thesis using new by (simp add: NewWALEngine_def)
qed

subsection \<open>Properties\<close>

text \<open>A log of two or more segments, for examples.\<close>

lemma rotate_keeps_maxSize: "maxSize (fst (after rotate (l, w))) = maxSize l"
  by (simp add: rotate_def writeManifest_def close_file_def get_wal_def upd_wal_def
      split: prod.split sum.split)

lemma flush_keeps_maxSize:
  assumes "faults w = []" and "wal_file l = Some (name, True)"
  shows "maxSize (fst (after (flush_batch batch) (l, w))) = maxSize l"
  using assms rotate_keeps_maxSize [of "l\<lparr>currentSz := wrap64 (currentSz l + int (length (batch_bytes batch)))\<rparr>"]
  by (simp add: flush_batch_def run_encode_batch run_WAL_Sync case_prod_unfold)

lemma two_segments:
  assumes "rs \<noteq> []" and "in_int64 (int (length rs) + 2)"
  shows "\<exists>l w. log_holds rs (l, w) \<and> maxSize l = 64 * 1024 * 1024 \<and> 2 \<le> seq l \<and> in_int64 (seq l + 1)"
proof -
  obtain l w where l: "run_state (NewWAL 64) empty_dir = (Inr l, w)" "log_holds [] (l, w)"
    using NewWAL_fresh [of empty_dir 64] by auto
  have size: "maxSize l = 64 * 1024 * 1024"
    using run_NewWAL_fresh [of empty_dir 64] l(1) by (auto simp: fresh_log_def int64_defs)
  obtain l1 w1 where s1: "after (flush_batch rs) (l, w) = (l1, w1)" by (metis prod.exhaust)
  have h1: "log_holds rs (l1, w1)"
    using log_holds_flush [OF l(2) assms(1)] s1 by (simp add: int64_defs)
  have size1: "maxSize l1 = 64 * 1024 * 1024"
    using flush_keeps_maxSize [of w l "segName (seq l)" rs] log_holdsD(1,5) [OF l(2)] s1 size by simp
  note h = log_holdsD [OF h1]
  show ?thesis
  proof (cases "2 \<le> seq l1")
    case True
    with h1 h(3) size1 assms(2) show ?thesis by (intro exI [of _ l1] exI [of _ w1]) (simp add: int64_defs)
  next
    case False
    then have one: "seq l1 = 1" using h(2) by simp
    then have "segName (seq l1 + 1) \<notin> set (map segName [1..seq l1])"
      by (intro segName_fresh) (simp_all add: int64_defs)
    then obtain l2 w2 where "run_state rotate (l1, w1) = (None, (l2, w2))" "seq l2 = 2" "maxSize l2 = maxSize l1"
      using run_rotate [OF h(1) h(4), of l1] one by (auto simp: int64_defs)
    moreover obtain s where "run_state rotate (l1, w1) = (None, s)" "log_holds rs s"
      using log_holds_rotate [OF h1] one assms(1) by (cases rs) (auto simp: int64_defs)
    ultimately show ?thesis using size1 by (intro exI [of _ l2] exI [of _ w2]) (auto simp: int64_defs)
  qed
qed

text \<open>C23: Compaction keeps strings. On a log of SET and DEL records in two or more segments,
  compaction without faults succeeds and a restart on the compacted directory rebuilds the store of
  the full log.\<close>

theorem compaction_keeps_strings:
  assumes "log_holds rs (l, w)" and "list_all replayable rs" and "list_all string_record rs"
    and "2 \<le> seq l" and "in_int64 (seq l + 1)"
  shows "\<exists>w' e. run_state Compact (l, w) = (Ok (), (l, w')) \<and>
    run_state (NewWALEngine mb) w' = (Ok e, w') \<and> store (mem e) = replay_store rs"
proof -
  have rd: "list_all readable rs" using assms(2) by (simp add: replayable_def list_all_iff)
  obtain w' f where w': "run_state Compact (l, w) = (Ok (), (l, w'))" "faults w' = []"
    "manifest w' = Manifest [segName (seq l + 1)]"
    "fmlookup (files w') (segName (seq l + 1)) = Some f" "content f = batch_bytes (compacted rs)"
    using run_Compact [OF assms(1) rd assms(4,5)] by blast
  obtain e where "run_state (NewWALEngine mb) w' = (Ok e, w')" "store (mem e) = replay_store (compacted rs)"
    using NewWALEngine_compacted [OF w'(2,3) _ assms(5) w'(4,5) readable_compacted [OF assms(2)]] assms(4)
    by force
  then show ?thesis using w'(1) replay_compacted [OF assms(3)] by auto
qed

theorem compaction_keeps_strings_witness:
  "\<exists>l w w' e. log_holds [set_record ''k'' ''v''] (l, w) \<and> run_state Compact (l, w) = (Ok (), (l, w')) \<and>
     run_state (NewWALEngine 64) w' = (Ok e, w') \<and> store (mem e) = replay_store [set_record ''k'' ''v'']"
proof -
  obtain l w where l: "log_holds [set_record ''k'' ''v''] (l, w)" "2 \<le> seq l" "in_int64 (seq l + 1)"
    using two_segments [of "[set_record ''k'' ''v'']"] by (auto simp: int64_defs)
  then show ?thesis
    using compaction_keeps_strings [OF l(1), of 64]
    by (force simp: replayable_def readable_def string_record_def)
qed

text \<open>A counter: one record for every INCR, of which compaction keeps the last.\<close>

abbreviation incr_record :: "string \<Rightarrow> Record" where
  "incr_record k \<equiv> \<lparr>Op = OpIncr, Key = k, Value = [], ExpireAt = 0\<rparr>"

lemma replay_incrs:
  assumes "in_int64 (int n + 1)"
  shows "str (view (replay_store (replicate (Suc n) (incr_record k))) k) = Some (Itoa (int n + 1))"
  using assms
proof (induction n)
  case 0
  have "Atoi ''0'' = Some 0" by code_simp
  then show ?case
    by (simp add: replay_store_def view_simps wf_intros bump_def counter_value_def no_entry_def int64_defs)
next
  case (Suc n)
  let ?st = "replay_store (replicate (Suc n) (incr_record k))"
  have room: "in_int64 (int n + 1)" "in_int64 (int n + 2)" using Suc.prems by (simp_all add: int64_defs)
  have st: "str (view ?st k) = Some (Itoa (int n + 1))" using Suc.IH room(1) by simp
  have "replicate (Suc (Suc n)) (incr_record k) = replicate (Suc n) (incr_record k) @ [incr_record k]"
    by (simp add: replicate_append_same)
  then have "replay_store (replicate (Suc (Suc n)) (incr_record k)) = snd (Store_Incr k ?st)"
    by (simp only: replay_store_append fold.simps id_apply comp_apply apply_record_ops)
  then show ?case
    using st room wf_replay_store
    by (simp add: view_simps bump_def counter_value_def Atoi_Itoa add.commute)
qed

lemma compacted_incrs: "compacted (replicate (Suc n) (incr_record k)) = [incr_record k]"
proof -
  have "latest_records (replicate (Suc n) (incr_record k)) = fmupd k (incr_record k) fmempty"
  proof (induction n)
    case 0
    show ?case by (simp add: latest_records_def compact_record_def op_defs)
  next
    case (Suc n)
    have "replicate (Suc (Suc n)) (incr_record k) = replicate (Suc n) (incr_record k) @ [incr_record k]"
      by (simp add: replicate_append_same)
    then have "latest_records (replicate (Suc (Suc n)) (incr_record k))
        = compact_record (incr_record k) (latest_records (replicate (Suc n) (incr_record k)))"
      by (simp only: latest_records_def fold_append fold.simps id_apply comp_apply)
    then show ?case unfolding Suc.IH by (simp add: compact_record_def op_defs)
  qed
  moreover have "map_keys (fmupd k (incr_record k) fmempty) = [k]"
    by (simp add: map_keys_def sorted_list_of_fset.rep_eq)
  ultimately show ?thesis by (simp add: compacted_def)
qed

text \<open>C35: Compaction loses counters. The log holds one or more INCRs of a key, in two or more segments.
  A start before the compaction finds their number; \<open>Compact\<close> succeeds, and a start after it finds
  1.\<close>

theorem compaction_loses_counter:
  assumes "log_holds (replicate (Suc n) (MakeRecord OpIncr [k])) (l, w)" and "short_key k"
    and "2 \<le> seq l" and "in_int64 (seq l + 1)" and "in_int64 (int n + 2)"
  shows "\<exists>e w' e'. run_state (NewWALEngine mb) w = (Ok e, w) \<and>
    str (view (store (mem e)) k) = Some (Itoa (int n + 1)) \<and>
    run_state Compact (l, w) = (Ok (), (l, w')) \<and> run_state (NewWALEngine mb) w' = (Ok e', w') \<and>
    str (view (store (mem e')) k) = Some ''1''"
proof -
  let ?rs = "replicate (Suc n) (incr_record k)"
  have r: "MakeRecord OpIncr [k] = incr_record k" by (simp add: MakeRecord_def op_defs)
  have log: "log_holds ?rs (l, w)" using assms(1) by (simp only: r)
  have rep: "list_all replayable ?rs" "list_all replayable [incr_record k]"
    using assms(2) by (simp_all add: list_all_iff replayable_def readable_def short_key_def)
  then have rd: "list_all readable ?rs" by (simp add: list_all_iff replayable_def)
  have room: "in_int64 (int n + 1)" "in_int64 (int (length ?rs) + 1)" "in_int64 (int 0 + 1)"
    using assms(5) by (simp_all add: int64_defs)
  obtain e where e: "run_state (NewWALEngine mb) w = (Ok e, w)" "store (mem e) = replay_store ?rs"
    using restart_of_log [OF log rep(1) room(2), of mb] by blast
  obtain w' f where w': "run_state Compact (l, w) = (Ok (), (l, w'))" "faults w' = []"
    "manifest w' = Manifest [segName (seq l + 1)]"
    "fmlookup (files w') (segName (seq l + 1)) = Some f" "content f = batch_bytes [incr_record k]"
    using run_Compact [OF log rd assms(3,4)] unfolding compacted_incrs by blast
  have "0 \<le> seq l + 1" using assms(3) by simp
  then obtain e' where e': "run_state (NewWALEngine mb) w' = (Ok e', w')"
    "store (mem e') = replay_store [incr_record k]"
    using NewWALEngine_compacted [OF w'(2,3) _ assms(4) w'(4,5) rep(2), of mb] by blast
  have "Itoa 1 = ''1''" by code_simp
  then show ?thesis
    using e e' w'(1) replay_incrs [OF room(1), of k] replay_incrs [OF room(3), of k] by auto
qed

theorem compaction_loses_counter_witness:
  "\<exists>l w e w' e'. log_holds (replicate 3 (MakeRecord OpIncr [''hits''])) (l, w) \<and>
     run_state (NewWALEngine 64) w = (Ok e, w) \<and> str (view (store (mem e)) ''hits'') = Some ''3'' \<and>
     run_state Compact (l, w) = (Ok (), (l, w')) \<and> run_state (NewWALEngine 64) w' = (Ok e', w') \<and>
     str (view (store (mem e')) ''hits'') = Some ''1''"
proof -
  let ?rs = "replicate (Suc 2) (MakeRecord OpIncr [''hits''])"
  obtain l w where l: "log_holds ?rs (l, w)" "2 \<le> seq l" "in_int64 (seq l + 1)"
    using two_segments [of ?rs] by (auto simp: int64_defs)
  have "Itoa (int 2 + 1) = ''3''" by code_simp
  moreover have "replicate 3 (MakeRecord OpIncr [''hits'']) = ?rs" by (simp add: numeral_3_eq_3 numeral_2_eq_2)
  ultimately show ?thesis
    using compaction_loses_counter [OF l(1) _ l(2,3), of 64] l(1) by (force simp: short_key_def int64_defs)
qed

text \<open>C34: Writes after compaction. Compaction removes the segment the log has open. The batch flushed next
  is acknowledged and leaves the directory as it was, whatever its size, also when it makes the log
  rotate: no later start can find it.\<close>

theorem writes_after_compaction_lost:
  assumes "log_holds rs (l, w)" and "list_all readable rs" and "2 \<le> seq l" and "in_int64 (seq l + 1)"
  shows "\<exists>w' l'. run_state Compact (l, w) = (Ok (), (l, w')) \<and>
    run_state (flush_batch batch) (l, w') = (None, (l', w'))"
proof -
  obtain w' f where w': "run_state Compact (l, w) = (Ok (), (l, w'))" "faults w' = []"
    "\<forall>i. 1 \<le> i \<and> i \<le> seq l \<longrightarrow> fmlookup (files w') (segName i) = None"
    "manifest w' = Manifest [segName (seq l + 1)]"
    "fmlookup (files w') (segName (seq l + 1)) = Some f"
    using run_Compact [OF assms(1-4)] by blast
  have l: "wal_file l = Some (segName (seq l), True)" "1 \<le> seq l" using log_holdsD [OF assms(1)] by simp_all
  with w'(3) have gone: "fmlookup (files w') (segName (seq l)) = None" by simp
  show ?thesis using flush_after_Compact [OF w'(2) l(1) gone w'(4,5) assms(4)] w'(1) by blast
qed

theorem writes_after_compaction_lost_witness:
  "\<exists>l w w' l'. log_holds [set_record ''k'' ''v''] (l, w) \<and> maxSize l = 64 * 1024 * 1024 \<and>
     run_state Compact (l, w) = (Ok (), (l, w')) \<and>
     run_state (flush_batch [set_record ''k'' ''w'']) (l, w') = (None, (l', w'))"
proof -
  obtain l w where l: "log_holds [set_record ''k'' ''v''] (l, w)" "maxSize l = 64 * 1024 * 1024"
    "2 \<le> seq l" "in_int64 (seq l + 1)"
    using two_segments [of "[set_record ''k'' ''v'']"] by (auto simp: int64_defs)
  with writes_after_compaction_lost [OF l(1) _ l(3,4), of "[set_record ''k'' ''w'']"]
  show ?thesis by (force simp: readable_def)
qed

end
