(* ===== verification/Protocol.thy ===== *)
theory Protocol
  imports Go_Strings
begin

section \<open>The wire protocol (core/protocol/protocol.go)\<close>

text \<open>
  \<open>Parse\<close> reads one request, an array of bulk strings, from the connection; the rest of the
  input stays in the reader. Errors and panics are values of \<open>outcome\<close>: \<open>make\<close> panics for a
  negative or oversized length and a slice expression panics for a negative bound. The
  \<open>Write\<close> functions are the text they print. The main lemma: what \<open>WriteArray\<close> prints,
  \<open>Parse\<close> reads back, whatever bytes the strings contain.
\<close>

subsection \<open>Reading\<close>

text \<open>\<open>bufio.Reader.ReadString('\n')\<close>: the line with its end, or \<open>io.EOF\<close>.\<close>

definition LF :: char where "LF = CHR 0x0A"
definition CR :: char where "CR = CHR 0x0D"

definition ReadString :: "string \<Rightarrow> (go_error + string) \<times> string" where
  "ReadString input =
     (if LF \<in> set input
      then (Inr (takeWhile (\<lambda>c. c \<noteq> LF) input @ [LF]), tl (dropWhile (\<lambda>c. c \<noteq> LF) input))
      else (Inl ErrEOF, []))"

text \<open>\<open>io.ReadFull\<close> on the reader.\<close>

definition read_full :: "nat \<Rightarrow> string \<Rightarrow> (go_error + string) \<times> string" where
  "read_full n input =
     (if n \<le> length input then (Inr (take n input), drop n input)
      else if input = [] then (Inl ErrEOF, [])
      else (Inl ErrUnexpectedEOF, []))"

text \<open>The largest allocation of the runtime on 64-bit Linux, in bytes; \<open>make\<close> panics beyond
  it. A string header takes 16 bytes.\<close>

definition maxAlloc :: int where
  "maxAlloc = 2 ^ 48"

definition make_ok :: "int \<Rightarrow> int \<Rightarrow> bool" where
  "make_ok elem n \<longleftrightarrow> 0 \<le> n \<and> n * elem \<le> maxAlloc"

definition scan_error :: go_error where
  "scan_error = ErrMsg ''expected integer''"

definition parse_bulk :: "string \<Rightarrow> string outcome \<times> string" where
  "parse_bulk input =
     (case ReadString input of
        (Inl err, rest) \<Rightarrow> (Err err, rest)
      | (Inr line, rest) \<Rightarrow>
          let eachLine = TrimSpace line
          in if eachLine = [] \<or> hd eachLine \<noteq> CHR ''$''
             then (Err (ErrMsg (''expected bulk string, got '' @ eachLine)), rest)
             else case Sscanf_d (tl eachLine) of
                    None \<Rightarrow> (Err scan_error, rest)
                  | Some strLength \<Rightarrow>
                      let size = wrap64 (strLength + 2)
                      in if \<not> make_ok 1 size then (Panic, rest)
                         else case read_full (nat size) rest of
                                (Inl err, rest') \<Rightarrow> (Err err, rest')
                              | (Inr dat, rest') \<Rightarrow>
                                  if strLength < 0 then (Panic, rest')
                                  else (Ok (take (nat strLength) dat), rest'))"

fun parse_args :: "nat \<Rightarrow> string list \<Rightarrow> string \<Rightarrow> string list outcome \<times> string" where
  "parse_args 0 args input = (Ok args, input)"
| "parse_args (Suc n) args input =
     (case parse_bulk input of
        (Ok arg, rest) \<Rightarrow> parse_args n (args @ [arg]) rest
      | (Err e, rest) \<Rightarrow> (Err e, rest)
      | (Panic, rest) \<Rightarrow> (Panic, rest))"

definition Parse :: "string \<Rightarrow> string list outcome \<times> string" where
  "Parse input =
     (case ReadString input of
        (Inl err, rest) \<Rightarrow> (Err err, rest)
      | (Inr l, rest) \<Rightarrow>
          let line = TrimSpace l
          in if line = [] \<or> hd line \<noteq> CHR ''*''
             then (Err (ErrMsg (''expected array got '' @ line)), rest)
             else case Sscanf_d (tl line) of
                    None \<Rightarrow> (Err scan_error, rest)
                  | Some cnt \<Rightarrow>
                      if \<not> make_ok 16 cnt then (Panic, rest)
                      else parse_args (nat cnt) [] rest)"

subsection \<open>Writing\<close>

definition crlf :: string where
  "crlf = [CR, LF]"

definition WriteSimpleString :: "string \<Rightarrow> string" where
  "WriteSimpleString msg = ''+'' @ msg @ crlf"

definition WriteError :: "string \<Rightarrow> string" where
  "WriteError msg = ''-'' @ msg @ crlf"

definition WriteInteger :: "int \<Rightarrow> string" where
  "WriteInteger n = '':'' @ Itoa n @ crlf"

definition WriteBulkString :: "string \<Rightarrow> string" where
  "WriteBulkString msg = ''$'' @ Itoa (int (length msg)) @ crlf @ msg @ crlf"

definition WriteNull :: string where
  "WriteNull = ''$-1'' @ crlf"

definition WriteArray :: "string list \<Rightarrow> string" where
  "WriteArray items =
     ''*'' @ Itoa (int (length items)) @ crlf @ concat (map WriteBulkString items)"

subsection \<open>Reading what was written\<close>

lemma ReadString_line:
  "LF \<notin> set s \<Longrightarrow> ReadString (s @ LF # rest) = (Inr (s @ [LF]), rest)"
  by (simp add: ReadString_def takeWhile_neq_append dropWhile_neq_append)

lemma read_full_append: "length s = n \<Longrightarrow> read_full n (s @ rest) = (Inr s, rest)"
  by (auto simp: read_full_def)

lemma Itoa_nat: "Itoa (int n) = nat_digits n"
  by (simp add: Itoa_def)

text \<open>A header line: one marker, a number, the line end.\<close>

lemma header_line:
  assumes "(of_char c :: nat) \<in> {33..126}"
  shows "ReadString (c # Itoa (int n) @ crlf @ rest) = (Inr (c # Itoa (int n) @ crlf), rest)"
    and "TrimSpace (c # Itoa (int n) @ crlf) = c # Itoa (int n)"
proof -
  obtain ds d where ds: "nat_digits n = ds @ [d]"
    by (metis append_butlast_last_id nat_digits_neq_Nil)
  have dig: "list_all is_digit (nat_digits n)" by simp
  then have "is_digit d" by (simp add: ds)
  then show "TrimSpace (c # Itoa (int n) @ crlf) = c # Itoa (int n)"
    using TrimSpace_line [OF assms digit_printable, of d ds]
    by (simp add: Itoa_nat ds crlf_def CR_def LF_def)
  have "LF \<notin> set (nat_digits n)"
    using dig by (auto simp: list_all_iff is_digit_def LF_def)
  moreover have "LF \<noteq> c" using assms by (auto simp: LF_def)
  ultimately have "LF \<notin> set (c # nat_digits n @ [CR])" by (auto simp: LF_def CR_def)
  from ReadString_line [OF this, of rest]
  show "ReadString (c # Itoa (int n) @ crlf @ rest) = (Inr (c # Itoa (int n) @ crlf), rest)"
    by (simp add: Itoa_nat crlf_def)
qed

lemma make_ok_int64: "make_ok e n \<Longrightarrow> 1 \<le> e \<Longrightarrow> in_int64 n"
proof -
  assume a: "make_ok e n" "1 \<le> e"
  then have "n * 1 \<le> n * e" by (intro mult_left_mono) (simp_all add: make_ok_def)
  with a show ?thesis by (simp add: make_ok_def maxAlloc_def int64_defs)
qed

lemma parse_bulk_Write:
  assumes "make_ok 1 (int (length s) + 2)"
  shows "parse_bulk (WriteBulkString s @ rest) = (Ok s, rest)"
proof -
  let ?n = "length s"
  have range: "in_int64 (int ?n + 2)" using assms by (rule make_ok_int64) simp
  then have "in_int64 (int ?n)" by (simp add: int64_defs)
  then have scan: "Sscanf_d (Itoa (int ?n)) = Some (int ?n)"
    by (simp add: Itoa_nat Sscanf_d_nat_digits)
  have "WriteBulkString s @ rest = CHR ''$'' # Itoa (int ?n) @ crlf @ (s @ crlf) @ rest"
    by (simp add: WriteBulkString_def)
  moreover have "read_full (nat (int ?n + 2)) ((s @ crlf) @ rest) = (Inr (s @ crlf), rest)"
    by (rule read_full_append) (simp add: crlf_def nat_add_distrib)
  ultimately show ?thesis
    using header_line(1) [of "CHR ''$''" ?n "(s @ crlf) @ rest"] header_line(2) [of "CHR ''$''" ?n] scan range assms
    by (simp add: parse_bulk_def)
qed

lemma parse_args_Write:
  assumes "list_all (\<lambda>s. make_ok 1 (int (length s) + 2)) items"
  shows "parse_args (length items) args (concat (map WriteBulkString items) @ rest)
    = (Ok (args @ items), rest)"
  using assms by (induction items arbitrary: args) (simp_all add: parse_bulk_Write)

lemma Parse_WriteArray:
  assumes "make_ok 16 (int (length items))"
    and "list_all (\<lambda>s. make_ok 1 (int (length s) + 2)) items"
  shows "Parse (WriteArray items @ rest) = (Ok items, rest)"
proof -
  let ?n = "length items" and ?body = "concat (map WriteBulkString items) @ rest"
  have "in_int64 (int ?n)" using assms(1) by (rule make_ok_int64) simp
  then have scan: "Sscanf_d (Itoa (int ?n)) = Some (int ?n)"
    by (simp add: Itoa_nat Sscanf_d_nat_digits)
  have "WriteArray items @ rest = CHR ''*'' # Itoa (int ?n) @ crlf @ ?body"
    by (simp add: WriteArray_def)
  then show ?thesis
    using header_line(1) [of "CHR ''*''" ?n ?body] header_line(2) [of "CHR ''*''" ?n] scan assms parse_args_Write [OF assms(2), of "[]" rest]
    by (simp add: Parse_def)
qed

subsection \<open>Progress\<close>

lemma ReadString_consumes: "ReadString input = (Inr l, rest) \<Longrightarrow> length rest < length input"
proof -
  assume a: "ReadString input = (Inr l, rest)"
  then have "LF \<in> set input" and rest: "rest = tl (dropWhile (\<lambda>c. c \<noteq> LF) input)"
    by (auto simp: ReadString_def split: if_splits)
  then have "dropWhile (\<lambda>c. c \<noteq> LF) input \<noteq> []" by (auto simp: dropWhile_eq_Nil_conv)
  then have "length (tl (dropWhile (\<lambda>c. c \<noteq> LF) input)) < length (dropWhile (\<lambda>c. c \<noteq> LF) input)"
    by simp
  also have "\<dots> \<le> length input" by (rule length_dropWhile_le)
  finally show ?thesis by (simp add: rest)
qed

lemma read_full_shortens: "read_full n input = (r, rest) \<Longrightarrow> length rest \<le> length input"
  by (auto simp: read_full_def split: if_splits)

lemma ReadString_shortens: "ReadString input = (r, rest) \<Longrightarrow> length rest \<le> length input"
proof (cases r)
  case (Inl e)
  assume "ReadString input = (r, rest)"
  with Inl show ?thesis by (simp add: ReadString_def split: if_splits)
next
  case (Inr l)
  assume "ReadString input = (r, rest)"
  with Inr show ?thesis using ReadString_consumes by fastforce
qed

lemma parse_bulk_shortens: "parse_bulk input = (r, rest) \<Longrightarrow> length rest \<le> length input"
  by (auto simp: parse_bulk_def Let_def split: prod.splits sum.splits if_splits option.splits
      dest!: read_full_shortens ReadString_shortens)

lemma parse_args_shortens: "parse_args n args input = (r, rest) \<Longrightarrow> length rest \<le> length input"
proof (induction n arbitrary: args input)
  case (Suc n)
  obtain b rest' where b: "parse_bulk input = (b, rest')" by (metis prod.exhaust)
  with parse_bulk_shortens have "length rest' \<le> length input" by blast
  with Suc b show ?case by (cases b) (auto dest: order_trans)
qed simp

lemma Parse_consumes: "Parse input = (Ok args, rest) \<Longrightarrow> length rest < length input"
  by (auto simp: Parse_def Let_def split: prod.splits sum.splits if_splits option.splits
      dest!: ReadString_consumes parse_args_shortens)


text \<open>How much input a request takes at least: three bytes for the count, and five for every argument
  beside its own bytes.\<close>

definition request_size :: "string list \<Rightarrow> nat" where
  "request_size args = 3 + sum_list (map (\<lambda>a. length a + 5) args)"

lemma ReadString_length:
  assumes "ReadString input = (Inr l, rest)"
  shows "length l + length rest = length input" "\<exists>u. l = u @ [LF]"
proof -
  have lf: "LF \<in> set input" and l: "l = takeWhile (\<lambda>c. c \<noteq> LF) input @ [LF]"
    and rest: "rest = tl (dropWhile (\<lambda>c. c \<noteq> LF) input)"
    using assms by (auto simp: ReadString_def split: if_splits)
  have "dropWhile (\<lambda>c. c \<noteq> LF) input \<noteq> []" using lf by (auto simp: dropWhile_eq_Nil_conv)
  then have "Suc (length rest) = length (dropWhile (\<lambda>c. c \<noteq> LF) input)" by (simp add: rest)
  then show "length l + length rest = length input"
    by (metis l add_Suc_right add_Suc_shift length_append length_append_singleton takeWhile_dropWhile_id)
  show "\<exists>u. l = u @ [LF]" using l by blast
qed

lemma header_size:
  assumes "ReadString input = (Inr l, rest)" and "TrimSpace l \<noteq> []" and "Sscanf_d (tl (TrimSpace l)) = Some n"
  shows "length rest + 3 \<le> length input"
proof -
  obtain u where u: "l = u @ [LF]" using ReadString_length(2) [OF assms(1)] by blast
  have "2 \<le> length (TrimSpace l)"
    using assms(2) Sscanf_d_nonempty [OF assms(3)] by (cases "TrimSpace l") (auto simp: Suc_le_eq)
  also have "\<dots> \<le> length u" using TrimSpace_shortens_line [of u] by (simp add: u LF_def)
  finally show ?thesis using ReadString_length(1) [OF assms(1)] by (simp add: u)
qed

lemma bulk_length_no_wrap:
  assumes "in_int64 n" and "0 \<le> n" and "make_ok 1 (wrap64 (n + 2))"
  shows "wrap64 (n + 2) = n + 2"
proof (rule wrap64_id, rule ccontr)
  assume "\<not> in_int64 (n + 2)"
  then have n: "n = 2 ^ 63 - 2 \<or> n = 2 ^ 63 - 1" using assms(1,2) by (auto simp: int64_defs)
  then have "wrap64 (n + 2) < 0" by (auto simp: wrap64_def)
  with assms(3) show False by (simp add: make_ok_def)
qed

lemma parse_bulk_size:
  assumes "parse_bulk input = (Ok arg, rest)"
  shows "length rest + (length arg + 5) \<le> length input"
proof -
  obtain l r n dat where p: "ReadString input = (Inr l, r)" "TrimSpace l \<noteq> []"
    "Sscanf_d (tl (TrimSpace l)) = Some n" "make_ok 1 (wrap64 (n + 2))"
    "read_full (nat (wrap64 (n + 2))) r = (Inr dat, rest)" "0 \<le> n" "arg = take (nat n) dat"
    using assms by (auto simp: parse_bulk_def Let_def split: prod.splits sum.splits if_splits option.splits)
  have "wrap64 (n + 2) = n + 2"
    using bulk_length_no_wrap [OF Sscanf_d_in_int64 [OF p(3)] p(6,4)] .
  then have "length rest + nat (n + 2) = length r" and "length arg = nat n"
    using p(5-7) by (auto simp: read_full_def split: if_splits)
  moreover have "length r + 3 \<le> length input" by (rule header_size [OF p(1-3)])
  moreover have "nat (n + 2) = nat n + 2" using p(6) by simp
  ultimately show ?thesis by simp
qed

lemma parse_args_size:
  "parse_args n acc input = (Ok args, rest) \<Longrightarrow>
    length rest + sum_list (map (\<lambda>a. length a + 5) args) \<le> length input + sum_list (map (\<lambda>a. length a + 5) acc)"
proof (induction n arbitrary: acc input)
  case (Suc n)
  obtain arg r where b: "parse_bulk input = (Ok arg, r)" "parse_args n (acc @ [arg]) r = (Ok args, rest)"
    using Suc.prems by (auto split: prod.splits outcome.splits)
  show ?case using Suc.IH [OF b(2)] parse_bulk_size [OF b(1)] by simp
qed simp

lemma Parse_size:
  assumes "Parse input = (Ok args, rest)"
  shows "length rest + request_size args \<le> length input"
proof -
  obtain l r n where p: "ReadString input = (Inr l, r)" "TrimSpace l \<noteq> []"
    "Sscanf_d (tl (TrimSpace l)) = Some n" "parse_args (nat n) [] r = (Ok args, rest)"
    using assms by (auto simp: Parse_def Let_def split: prod.splits sum.splits if_splits option.splits)
  show ?thesis using header_size [OF p(1-3)] parse_args_size [OF p(4)] by (simp add: request_size_def)
qed

subsection \<open>Properties\<close>

text \<open>C13: Requests survive the wire. A client that sends an array of bulk strings, in the format
  \<open>WriteArray\<close> prints, has it parsed back unchanged, whatever bytes the strings hold (line ends
  and NUL included), and the parser stops exactly at the end of the request.\<close>

theorem request_roundtrip:
  assumes "make_ok 16 (int (length items))" and "\<forall>s \<in> set items. make_ok 1 (int (length s) + 2)"
  shows "Parse (WriteArray items @ rest) = (Ok items, rest)"
  using Parse_WriteArray [OF assms(1)] assms(2) by (simp add: list_all_iff)

theorem request_roundtrip_witness:
  "make_ok 16 (int (length [''SET'', ''k'', [CR, LF, CHR 0x00]])) \<and>
   Parse (WriteArray [''SET'', ''k'', [CR, LF, CHR 0x00]] @ ''*'') = (Ok [''SET'', ''k'', [CR, LF, CHR 0x00]], ''*'')"
  using request_roundtrip [of "[''SET'', ''k'', [CR, LF, CHR 0x00]]" "''*''"]
  by (simp add: make_ok_def maxAlloc_def)

end
