(* ===== verification/Config.thy ===== *)
theory Config
  imports Go_Strings
begin

section \<open>Configuration (internal/config/config.go, cmd/main.go)\<close>

text \<open>
  The configuration is the record of the source. A configuration file is represented by what
  \<open>encoding/json\<close> makes of it: the fields the object sets, in order. A command line is the
  list of flags given on it.
\<close>

record Config =
  Port :: int
  WALPath :: string
  LogLevel :: string
  RequirePass :: string
  MaxClients :: int
  WalMaxSizeMB :: int
  WalAutoCompact :: bool
  TimeoutSeconds :: int
  MaxMemoryMB :: int
  Databases :: int

definition Timeout :: "Config \<Rightarrow> int" where
  "Timeout c = (if TimeoutSeconds c \<le> 0 then 0 else wrap64 (TimeoutSeconds c * 1000000000))"

definition Default :: Config where
  "Default =
     \<lparr>Port = 6379, WALPath = ''wal'', LogLevel = ''info'', RequirePass = '''', MaxClients = 10000,
      WalMaxSizeMB = 64, WalAutoCompact = True, TimeoutSeconds = 300, MaxMemoryMB = 0,
      Databases = 16\<rparr>"

subsection \<open>The configuration file\<close>

datatype json_field =
    JPort int | JWalPath string | JLogLevel string | JRequirePass string | JMaxClients int
  | JWalMaxSizeMB int | JWalAutoCompact bool | JTimeoutSeconds int | JMaxMemoryMB int
  | JDatabases int | JOther string

fun decode_field :: "json_field \<Rightarrow> Config \<Rightarrow> Config" where
  "decode_field (JPort n) c = c\<lparr>Port := n\<rparr>"
| "decode_field (JWalPath s) c = c\<lparr>WALPath := s\<rparr>"
| "decode_field (JLogLevel s) c = c\<lparr>LogLevel := s\<rparr>"
| "decode_field (JRequirePass s) c = c\<lparr>RequirePass := s\<rparr>"
| "decode_field (JMaxClients n) c = c\<lparr>MaxClients := n\<rparr>"
| "decode_field (JWalMaxSizeMB n) c = c\<lparr>WalMaxSizeMB := n\<rparr>"
| "decode_field (JWalAutoCompact b) c = c\<lparr>WalAutoCompact := b\<rparr>"
| "decode_field (JTimeoutSeconds n) c = c\<lparr>TimeoutSeconds := n\<rparr>"
| "decode_field (JMaxMemoryMB n) c = c\<lparr>MaxMemoryMB := n\<rparr>"
| "decode_field (JDatabases n) c = c\<lparr>Databases := n\<rparr>"
| "decode_field (JOther s) c = c"

text \<open>What opening and decoding the file gives: it may be missing, unreadable, or break off
  with an error after some of its fields have been stored.\<close>

datatype config_file = Missing | Unreadable | Malformed "json_field list" | Json "json_field list"

definition Load :: "config_file \<Rightarrow> Config \<times> go_error option" where
  "Load file =
     (let cfg = Default
      in case file of
           Missing \<Rightarrow> (cfg, None)
         | Unreadable \<Rightarrow> (cfg, Some ErrOS)
         | Malformed fs \<Rightarrow> (fold decode_field fs cfg, Some ErrJSON)
         | Json fs \<Rightarrow> (fold decode_field fs cfg, None))"

subsection \<open>The command line\<close>

datatype cli_flag =
    FlagPort int | FlagWal string | FlagRequirePass string | FlagMaxClients int | FlagConfig string

fun set_flag :: "cli_flag \<Rightarrow> Config \<times> string \<Rightarrow> Config \<times> string" where
  "set_flag (FlagPort n) (c, p) = (c\<lparr>Port := n\<rparr>, p)"
| "set_flag (FlagWal s) (c, p) = (c\<lparr>WALPath := s\<rparr>, p)"
| "set_flag (FlagRequirePass s) (c, p) = (c\<lparr>RequirePass := s\<rparr>, p)"
| "set_flag (FlagMaxClients n) (c, p) = (c\<lparr>MaxClients := n\<rparr>, p)"
| "set_flag (FlagConfig s) (c, p) = (c, s)"

definition ParseFlags :: "cli_flag list \<Rightarrow> Config \<times> string" where
  "ParseFlags flags = fold set_flag flags (Default, '''')"

fun flag_name :: "cli_flag \<Rightarrow> string" where
  "flag_name (FlagPort n) = ''port''"
| "flag_name (FlagWal s) = ''wal''"
| "flag_name (FlagRequirePass s) = ''requirepass''"
| "flag_name (FlagMaxClients n) = ''maxclients''"
| "flag_name (FlagConfig s) = ''config''"

text \<open>\<open>flag.Visit\<close> calls the closure for each flag that was set, in lexical order.\<close>

definition visit_flag :: "Config \<Rightarrow> string \<Rightarrow> Config \<Rightarrow> Config" where
  "visit_flag cli name cfg =
     (if name = ''port'' then cfg\<lparr>Port := Port cli\<rparr>
      else if name = ''wal'' then cfg\<lparr>WALPath := WALPath cli\<rparr>
      else if name = ''requirepass'' then cfg\<lparr>RequirePass := RequirePass cli\<rparr>
      else if name = ''maxclients'' then cfg\<lparr>MaxClients := MaxClients cli\<rparr>
      else cfg)"

definition Merge :: "string list \<Rightarrow> Config \<Rightarrow> Config \<Rightarrow> Config" where
  "Merge visited cli file = fold (visit_flag cli) visited file"

definition visited_flags :: "cli_flag list \<Rightarrow> string list" where
  "visited_flags flags =
     filter (\<lambda>n. n \<in> set (map flag_name flags))
       [''config'', ''maxclients'', ''port'', ''requirepass'', ''wal'']"

datatype slog_level = LevelDebug | LevelInfo | LevelWarn | LevelError

definition LogLevelFromString :: "string \<Rightarrow> slog_level" where
  "LogLevelFromString s =
     (if s = ''debug'' then LevelDebug
      else if s = ''warn'' then LevelWarn
      else if s = ''error'' then LevelError
      else LevelInfo)"

text \<open>\<open>main\<close> up to the call of \<open>Serve\<close>: \<open>None\<close> where it exits with status 1. The file is what
  the path of the \<open>config\<close> flag denotes.\<close>

definition main_config :: "cli_flag list \<Rightarrow> (string \<Rightarrow> config_file) \<Rightarrow> Config option" where
  "main_config flags fs =
     (case ParseFlags flags of
        (cli, path) \<Rightarrow>
          (case Load (fs path) of
             (file, Some err) \<Rightarrow> None
           | (file, None) \<Rightarrow> Some (Merge (visited_flags flags) cli file)))"

subsection \<open>Precedence\<close>

text \<open>What each flag and each field of the file says about one setting.\<close>

fun flag_port :: "cli_flag \<Rightarrow> int option" where
  "flag_port (FlagPort x) = Some x"
| "flag_port _ = None"

fun flag_wal :: "cli_flag \<Rightarrow> string option" where
  "flag_wal (FlagWal x) = Some x"
| "flag_wal _ = None"

fun flag_pass :: "cli_flag \<Rightarrow> string option" where
  "flag_pass (FlagRequirePass x) = Some x"
| "flag_pass _ = None"

fun flag_clients :: "cli_flag \<Rightarrow> int option" where
  "flag_clients (FlagMaxClients x) = Some x"
| "flag_clients _ = None"

fun flag_config :: "cli_flag \<Rightarrow> string option" where
  "flag_config (FlagConfig x) = Some x"
| "flag_config _ = None"

fun json_port :: "json_field \<Rightarrow> int option" where
  "json_port (JPort x) = Some x"
| "json_port _ = None"

fun json_wal :: "json_field \<Rightarrow> string option" where
  "json_wal (JWalPath x) = Some x"
| "json_wal _ = None"

fun json_level :: "json_field \<Rightarrow> string option" where
  "json_level (JLogLevel x) = Some x"
| "json_level _ = None"

fun json_pass :: "json_field \<Rightarrow> string option" where
  "json_pass (JRequirePass x) = Some x"
| "json_pass _ = None"

fun json_clients :: "json_field \<Rightarrow> int option" where
  "json_clients (JMaxClients x) = Some x"
| "json_clients _ = None"

fun json_size :: "json_field \<Rightarrow> int option" where
  "json_size (JWalMaxSizeMB x) = Some x"
| "json_size _ = None"

fun json_compact :: "json_field \<Rightarrow> bool option" where
  "json_compact (JWalAutoCompact x) = Some x"
| "json_compact _ = None"

fun json_timeout :: "json_field \<Rightarrow> int option" where
  "json_timeout (JTimeoutSeconds x) = Some x"
| "json_timeout _ = None"

fun json_memory :: "json_field \<Rightarrow> int option" where
  "json_memory (JMaxMemoryMB x) = Some x"
| "json_memory _ = None"

fun json_databases :: "json_field \<Rightarrow> int option" where
  "json_databases (JDatabases x) = Some x"
| "json_databases _ = None"

definition last_some :: "('a \<Rightarrow> 'b option) \<Rightarrow> 'a list \<Rightarrow> 'b \<Rightarrow> 'b" where
  "last_some f xs d = fold (\<lambda>x acc. case f x of None \<Rightarrow> acc | Some y \<Rightarrow> y) xs d"

text \<open>The documented precedence: the last flag, else the last value in the file, else the
  default.\<close>

definition settings :: "cli_flag list \<Rightarrow> json_field list \<Rightarrow> Config" where
  "settings flags js =
     \<lparr>Port = last_some flag_port flags (last_some json_port js 6379),
      WALPath = last_some flag_wal flags (last_some json_wal js ''wal''),
      LogLevel = last_some json_level js ''info'',
      RequirePass = last_some flag_pass flags (last_some json_pass js ''''),
      MaxClients = last_some flag_clients flags (last_some json_clients js 10000),
      WalMaxSizeMB = last_some json_size js 64,
      WalAutoCompact = last_some json_compact js True,
      TimeoutSeconds = last_some json_timeout js 300,
      MaxMemoryMB = last_some json_memory js 0,
      Databases = last_some json_databases js 16\<rparr>"

lemma last_some_Nil [simp]: "last_some f [] d = d"
  by (simp add: last_some_def)

lemma last_some_Cons [simp]:
  "last_some f (x # xs) d = last_some f xs (case f x of None \<Rightarrow> d | Some y \<Rightarrow> y)"
  by (simp add: last_some_def)

lemma last_some_unset: "\<forall>f \<in> set flags. g f = None \<Longrightarrow> last_some g flags d = d"
  by (induction flags arbitrary: d) simp_all

lemma last_some_set: "\<exists>f \<in> set flags. g f \<noteq> None \<Longrightarrow> last_some g flags d = last_some g flags d'"
proof (induction flags arbitrary: d d')
  case (Cons f flags)
  show ?case
  proof (cases "g f")
    case None
    with Cons show ?thesis by auto
  qed simp
qed simp

text \<open>A flag that is set wins over the file, one that is not leaves it.\<close>

lemma last_some_visited:
  assumes "\<And>f. (g f \<noteq> None) = (flag_name f = name)"
  shows "(if name \<in> flag_name ` set flags then last_some g flags d else x) = last_some g flags x"
proof (cases "name \<in> flag_name ` set flags")
  case True
  then have "\<exists>f \<in> set flags. g f \<noteq> None" using assms by auto
  from last_some_set [OF this, of d x] True show ?thesis by simp
next
  case False
  then have "\<forall>f \<in> set flags. g f = None" using assms by (metis image_eqI)
  from last_some_unset [OF this, of x] False show ?thesis by simp
qed

lemma flag_name_iff:
  "(flag_port f \<noteq> None) = (flag_name f = ''port'')" "(flag_wal f \<noteq> None) = (flag_name f = ''wal'')"
  "(flag_pass f \<noteq> None) = (flag_name f = ''requirepass'')"
  "(flag_clients f \<noteq> None) = (flag_name f = ''maxclients'')"
  by (cases f; simp)+

lemma fold_set_flag:
  "fold set_flag flags (c, p) =
     (c\<lparr>Port := last_some flag_port flags (Port c), WALPath := last_some flag_wal flags (WALPath c),
        RequirePass := last_some flag_pass flags (RequirePass c),
        MaxClients := last_some flag_clients flags (MaxClients c)\<rparr>, last_some flag_config flags p)"
proof (induction flags arbitrary: c p)
  case (Cons f flags)
  show ?case by (cases f) (simp_all add: Cons)
qed simp

lemma fold_decode_field:
  "fold decode_field js c =
     c\<lparr>Port := last_some json_port js (Port c), WALPath := last_some json_wal js (WALPath c),
       LogLevel := last_some json_level js (LogLevel c), RequirePass := last_some json_pass js (RequirePass c),
       MaxClients := last_some json_clients js (MaxClients c),
       WalMaxSizeMB := last_some json_size js (WalMaxSizeMB c),
       WalAutoCompact := last_some json_compact js (WalAutoCompact c),
       TimeoutSeconds := last_some json_timeout js (TimeoutSeconds c),
       MaxMemoryMB := last_some json_memory js (MaxMemoryMB c),
       Databases := last_some json_databases js (Databases c)\<rparr>"
proof (induction js arbitrary: c)
  case (Cons j js)
  show ?case by (cases j) (simp_all add: Cons)
qed simp

lemma Merge_visited:
  "Merge (visited_flags flags) cli file =
     file\<lparr>Port := if ''port'' \<in> flag_name ` set flags then Port cli else Port file,
          WALPath := if ''wal'' \<in> flag_name ` set flags then WALPath cli else WALPath file,
          RequirePass := if ''requirepass'' \<in> flag_name ` set flags then RequirePass cli else RequirePass file,
          MaxClients := if ''maxclients'' \<in> flag_name ` set flags then MaxClients cli else MaxClients file\<rparr>"
  by (simp add: Merge_def visited_flags_def visit_flag_def)

lemma Merge_settings:
  "Merge (visited_flags flags) (fst (ParseFlags flags)) (fold decode_field js Default) = settings flags js"
  by (simp add: Merge_visited ParseFlags_def fold_set_flag fold_decode_field settings_def Default_def
      flag_name_iff [THEN last_some_visited] split del: if_split cong del: if_weak_cong)

subsection \<open>Properties\<close>

text \<open>C25: Precedence of the settings. The start reads the file named by the last \<open>config\<close> flag (the
  empty path without one) and exits when it can not be read or parsed. Else each of the ten settings
  is the last value given on the command line, for the four that have a flag, else the last value in
  the file, else the literal default; a missing file counts as an empty one.\<close>

theorem config_precedence:
  "main_config flags fs =
     (case fs (last_some flag_config flags '''') of
        Missing \<Rightarrow> Some (settings flags [])
      | Json js \<Rightarrow> Some (settings flags js)
      | Unreadable \<Rightarrow> None
      | Malformed js \<Rightarrow> None)"
proof -
  have "snd (ParseFlags flags) = last_some flag_config flags ''''"
    by (simp add: ParseFlags_def fold_set_flag)
  then show ?thesis
    using Merge_settings [of flags "[]"] Merge_settings [of flags]
    by (auto simp: main_config_def Load_def case_prod_unfold split: config_file.split)
qed

end
