(* ===== verification/Go_Float.thy ===== *)
theory Go_Float
  imports Go_Strings
begin

section \<open>The float64 arithmetic the server uses\<close>

text \<open>
  Floating point enters the program in three places: \<open>time.Duration.Seconds\<close> (TTL replies and
  the uptime), the addition of 1 to the uptime, and the one-decimal size of \<open>formatBytes\<close>. All
  values there are non-negative and below the range where exponents overflow, so a float64 is
  a fraction \<open>m / 2 ^ k\<close> with a significand of at most 53 bits, and every operation is the
  exact rational result rounded to such a fraction, ties to even.
\<close>

definition round_half_even :: "nat \<Rightarrow> nat \<Rightarrow> nat" where
  "round_half_even p q =
     (let d = p div q; r = p mod q
      in if 2 * r < q then d
         else if 2 * r > q then d + 1
         else if even d then d else d + 1)"

text \<open>Scaling a fraction up until its integer part has 53 bits.\<close>

function scale :: "nat \<Rightarrow> nat \<Rightarrow> nat \<Rightarrow> nat \<times> nat" where
  "scale p q k = (if p = 0 \<or> 2 ^ 52 * q \<le> p then (p, k) else scale (2 * p) q (Suc k))"
  by pat_completeness auto
termination
  by (relation "measure (\<lambda>(p, q, k). 2 ^ 52 * q - p)") auto

declare scale.simps [simp del]

text \<open>The float64 nearest to \<open>p / q\<close>, for \<open>p / q < 2 ^ 53\<close>, as \<open>(m, k)\<close> for \<open>m / 2 ^ k\<close>.\<close>

definition float_div :: "nat \<Rightarrow> nat \<Rightarrow> nat \<times> nat" where
  "float_div p q = (case scale p q 0 of (p', k) \<Rightarrow> (round_half_even p' q, k))"

definition float_add :: "nat \<times> nat \<Rightarrow> nat \<Rightarrow> nat \<times> nat" where
  "float_add x n = (case x of (m, k) \<Rightarrow> float_div (n * 2 ^ k + m) (2 ^ k))"

definition float_int :: "nat \<times> nat \<Rightarrow> nat" where
  "float_int x = (case x of (m, k) \<Rightarrow> m div 2 ^ k)"

text \<open>The float64 nearest to a 64-bit unsigned integer; the result is an integer.\<close>

definition bit_length :: "nat \<Rightarrow> nat" where
  "bit_length n = length (takeWhile (\<lambda>i. 2 ^ i \<le> n) [0..<64])"

definition float_of_uint64 :: "nat \<Rightarrow> nat" where
  "float_of_uint64 n =
     (let j = bit_length n - 53 in round_half_even n (2 ^ j) * 2 ^ j)"

text \<open>\<open>fmt\<close>'s \<open>%.1f\<close> for the fraction \<open>p / q\<close>.\<close>

definition format_f1 :: "nat \<Rightarrow> nat \<Rightarrow> string" where
  "format_f1 p q =
     (let t = round_half_even (10 * p) q in nat_digits (t div 10) @ ''.'' @ [digit_char (t mod 10)])"

text \<open>\<open>time.Duration.Seconds\<close>: whole seconds plus the nanoseconds over 1e9.\<close>

definition Second :: nat where
  "Second = 1000000000"

definition Duration_Seconds :: "nat \<Rightarrow> nat \<times> nat" where
  "Duration_Seconds d = float_add (float_div (d mod Second) Second) (d div Second)"

subsection \<open>Rounding stays between integers\<close>

lemma round_half_even_ge: "0 < q \<Longrightarrow> n * q \<le> p \<Longrightarrow> n \<le> round_half_even p q"
proof -
  assume "0 < q" "n * q \<le> p"
  then have "n \<le> p div q" by (simp add: less_eq_div_iff_mult_less_eq)
  then show ?thesis by (simp add: round_half_even_def Let_def)
qed

lemma round_half_even_le: "0 < q \<Longrightarrow> p \<le> n * q \<Longrightarrow> round_half_even p q \<le> n"
proof (cases "p mod q = 0")
  case True
  assume "0 < q" "p \<le> n * q"
  then have "p div q \<le> n" by (metis div_le_mono nonzero_mult_div_cancel_right neq0_conv)
  with True \<open>0 < q\<close> show ?thesis by (simp add: round_half_even_def Let_def)
next
  case False
  assume q: "0 < q" and p: "p \<le> n * q"
  have "p div q * q < p" using False by (metis div_mult_mod_eq less_add_same_cancel1 neq0_conv)
  from this p have "p div q * q < n * q" by (rule less_le_trans)
  then have "p div q < n" using q by simp
  then show ?thesis by (simp add: round_half_even_def Let_def)
qed

lemma scale_value: "scale p q k = (p', k') \<Longrightarrow> k \<le> k' \<and> p' = p * 2 ^ (k' - k)"
proof (induction p q k rule: scale.induct)
  case (1 p q k)
  show ?case
  proof (cases "p = 0 \<or> 2 ^ 52 * q \<le> p")
    case True
    with 1 show ?thesis by (simp add: scale.simps [of p])
  next
    case False
    have "scale (2 * p) q (Suc k) = (p', k')"
      using False "1.prems" by (simp add: scale.simps [of p])
    then have IH: "Suc k \<le> k'" "p' = 2 * p * 2 ^ (k' - Suc k)" using "1.IH" [OF False] by simp_all
    then have "k' - k = Suc (k' - Suc k)" by simp
    with IH show ?thesis by simp
  qed
qed

lemma float_div_bounds:
  assumes "0 < q" and "float_div p q = (m, k)"
  shows "n * q \<le> p \<Longrightarrow> n * 2 ^ k \<le> m" and "p \<le> n * q \<Longrightarrow> m \<le> n * 2 ^ k"
proof -
  obtain p' where p': "scale p q 0 = (p', k)" "m = round_half_even p' q"
    using assms(2) by (auto simp: float_div_def split: prod.splits)
  have v: "p' = p * 2 ^ k" using scale_value [OF p'(1)] by simp
  show "n * 2 ^ k \<le> m" if "n * q \<le> p"
    unfolding p'(2) using that v by (intro round_half_even_ge assms(1)) (simp add: mult.commute mult.left_commute)
  show "m \<le> n * 2 ^ k" if "p \<le> n * q"
    unfolding p'(2) using that v by (intro round_half_even_le assms(1)) (simp add: mult.commute mult.left_commute)
qed

lemma float_int_add_bounds:
  assumes "x = (m, k)"
  shows "n + float_int x \<le> float_int (float_add x n)"
    and "m \<le> j * 2 ^ k \<Longrightarrow> float_int (float_add x n) \<le> n + j"
proof -
  obtain m' k' where a: "float_add x n = (m', k')" by (metis prod.exhaust)
  then have d: "float_div (n * 2 ^ k + m) (2 ^ k) = (m', k')" using assms by (simp add: float_add_def)
  have "(n + m div 2 ^ k) * 2 ^ k \<le> n * 2 ^ k + m" by (simp add: add_mult_distrib)
  then have "(n + m div 2 ^ k) * 2 ^ k' \<le> m'" by (rule float_div_bounds(1) [OF _ d, rotated]) simp
  then have "n + m div 2 ^ k \<le> m' div 2 ^ k'" by (simp add: less_eq_div_iff_mult_less_eq)
  then show "n + float_int x \<le> float_int (float_add x n)" using a assms by (simp add: float_int_def)
  show "float_int (float_add x n) \<le> n + j" if "m \<le> j * 2 ^ k"
  proof -
    have "n * 2 ^ k + m \<le> (n + j) * 2 ^ k" using that by (simp add: add_mult_distrib)
    then have "m' \<le> (n + j) * 2 ^ k'" by (rule float_div_bounds(2) [OF _ d, rotated]) simp
    then have "m' div 2 ^ k' \<le> (n + j) * 2 ^ k' div 2 ^ k'" by (rule div_le_mono)
    then show ?thesis using a by (simp add: float_int_def)
  qed
qed

text \<open>Truncating the float64 number of seconds gives the whole seconds, or one more when the
  fraction rounds up to 1.\<close>

lemma Duration_Seconds_bounds:
  "d div Second \<le> float_int (Duration_Seconds d)"
  "float_int (Duration_Seconds d) \<le> d div Second + 1"
proof -
  obtain m k where mk: "float_div (d mod Second) Second = (m, k)" by (metis prod.exhaust)
  have "d mod Second \<le> 1 * Second" by (simp add: Second_def)
  then have "m \<le> 1 * 2 ^ k" by (rule float_div_bounds(2) [OF _ mk, rotated]) (simp add: Second_def)
  then show "float_int (Duration_Seconds d) \<le> d div Second + 1"
    unfolding Duration_Seconds_def mk by (intro float_int_add_bounds(2)) simp_all
  show "d div Second \<le> float_int (Duration_Seconds d)"
    using float_int_add_bounds(1) [OF mk, of "d div Second"] unfolding Duration_Seconds_def mk
    by (rule add_leD1)
qed

end
