(* ===== verification/Stats.thy ===== *)
theory Stats
  imports Go_Float
begin

section \<open>Server statistics (internal/stats/stats.go)\<close>

text \<open>
  The three counters are atomic 64-bit integers; \<open>Add\<close> wraps around. What the Go runtime
  reports (operating system, architecture, version, memory) and the time since the start are
  a record the INFO text is computed from.
\<close>

record ServerStats =
  TotalConnections :: int
  TotalCommands :: int
  ActiveConnections :: int

definition New :: ServerStats where
  "New = \<lparr>TotalConnections = 0, TotalCommands = 0, ActiveConnections = 0\<rparr>"

definition add_TotalConnections :: "int \<Rightarrow> ServerStats \<Rightarrow> ServerStats" where
  "add_TotalConnections n s = s\<lparr>TotalConnections := wrap64 (TotalConnections s + n)\<rparr>"

definition add_TotalCommands :: "int \<Rightarrow> ServerStats \<Rightarrow> ServerStats" where
  "add_TotalCommands n s = s\<lparr>TotalCommands := wrap64 (TotalCommands s + n)\<rparr>"

definition add_ActiveConnections :: "int \<Rightarrow> ServerStats \<Rightarrow> ServerStats" where
  "add_ActiveConnections n s = s\<lparr>ActiveConnections := wrap64 (ActiveConnections s + n)\<rparr>"

record runtime_env =
  GOOS :: string
  GOARCH :: string
  go_version :: string
  since_started :: nat
  mem_Alloc :: "64 word"
  mem_Sys :: "64 word"

subsection \<open>Sizes for people\<close>

function unit_loop :: "nat \<Rightarrow> nat \<Rightarrow> nat \<Rightarrow> nat \<times> nat" where
  \<comment> \<open>\<open>for n := b / unit; n >= unit; n /= unit\<close>, returning \<open>(div, exp)\<close>\<close>
  "unit_loop n dv ex =
     (if n \<ge> 1024 then unit_loop (n div 1024) (dv * 1024 mod 2 ^ 64) (ex + 1) else (dv, ex))"
  by pat_completeness auto
termination
  by (relation "measure (\<lambda>(n, dv, ex). n)") auto

declare unit_loop.simps [simp del]

definition formatBytes :: "64 word \<Rightarrow> string option" where
  \<comment> \<open>\<open>None\<close> where the index into the unit letters is out of range\<close>
  "formatBytes b =
     (if unat b < 1024 then Some (nat_digits (unat b) @ ''B'')
      else case unit_loop (unat b div 1024) 1024 0 of
             (dv, ex) \<Rightarrow>
               if ex < length ''KMGTPE''
               then Some (format_f1 (float_of_uint64 (unat b)) dv @ [''KMGTPE'' ! ex] @ ''B'')
               else None)"

subsection \<open>The INFO text\<close>

text \<open>Go's integer division truncates toward zero.\<close>

definition go_quot :: "int \<Rightarrow> int \<Rightarrow> int" where
  "go_quot a b = sgn a * sgn b * (\<bar>a\<bar> div \<bar>b\<bar>)"

definition uptime :: "runtime_env \<Rightarrow> nat \<times> nat" where
  "uptime env = Duration_Seconds (since_started env)"

definition ops_divisor :: "runtime_env \<Rightarrow> nat" where
  "ops_divisor env = float_int (float_add (uptime env) 1)"

definition line :: "string \<Rightarrow> string" where
  "line s = s @ [CHR 0x0D, CHR 0x0A]"

definition InfoSection :: "runtime_env \<Rightarrow> nat \<Rightarrow> ServerStats \<Rightarrow> string option" where
  \<comment> \<open>\<open>None\<close> where a division by zero or an index panics\<close>
  "InfoSection env engineKeyCount s =
     (if ops_divisor env = 0 then None
      else case formatBytes (mem_Alloc env) of
             None \<Rightarrow> None
           | Some human \<Rightarrow> Some (
               line ''# Server'' @
               line ''warpdb_version:1.0.0'' @
               line (''os:'' @ GOOS env) @
               line (''arch:'' @ GOARCH env) @
               line (''go_version:'' @ go_version env) @
               line (''process_id:'' @ Itoa 0) @
               line '''' @
               line ''# Clients'' @
               line (''connected_clients:'' @ Itoa (ActiveConnections s)) @
               line (''total_connections_received:'' @ Itoa (TotalConnections s)) @
               line '''' @
               line ''# Stats'' @
               line (''total_commands_processed:'' @ Itoa (TotalCommands s)) @
               line (''uptime_in_seconds:'' @ Itoa (int (float_int (uptime env)))) @
               line (''instantaneous_ops_per_sec:'' @
                 Itoa (go_quot (TotalCommands s) (int (ops_divisor env)))) @
               line '''' @
               line ''# Keyspace'' @
               line (''db0:keys='' @ Itoa (int engineKeyCount) @ '',expires=0,avg_ttl=0'') @
               line '''' @
               line ''# Memory'' @
               line (''used_memory:'' @ nat_digits (unat (mem_Alloc env))) @
               line (''used_memory_human:'' @ human) @
               line (''used_memory_rss:'' @ nat_digits (unat (mem_Sys env))) @
               line '''' @
               line ''# CPU'' @
               line ''used_cpu_sys:0.00'' @
               line ''used_cpu_user:0.00''))"

subsection \<open>The index and the divisor are in range\<close>

lemma unit_loop_bound:
  "n < 1024 ^ Suc m \<Longrightarrow> snd (unit_loop n dv ex) \<le> ex + m"
proof (induction m arbitrary: n dv ex)
  case 0
  then show ?case by (simp add: unit_loop.simps)
next
  case (Suc m)
  show ?case
  proof (cases "n \<ge> 1024")
    case True
    have "n div 1024 < 1024 ^ Suc m" using Suc.prems by (simp add: less_mult_imp_div_less mult.commute)
    from Suc.IH [OF this, of "dv * 1024 mod 2 ^ 64" "ex + 1"]
    show ?thesis using True by (simp add: unit_loop.simps [of n])
  next
    case False
    then show ?thesis by (simp add: unit_loop.simps [of n])
  qed
qed

lemma unit_loop_value:
  "dv * 1024 ^ m \<le> 2 ^ 60 \<Longrightarrow> n < 1024 ^ Suc m \<Longrightarrow> unit_loop n dv ex = (dv', ex') \<Longrightarrow>
   ex \<le> ex' \<and> dv' = dv * 1024 ^ (ex' - ex)"
proof (induction m arbitrary: n dv ex)
  case 0
  then show ?case by (simp add: unit_loop.simps)
next
  case (Suc m)
  show ?case
  proof (cases "n \<ge> 1024")
    case True
    have "dv * 1024 \<le> dv * 1024 * 1024 ^ m" by simp
    also have "\<dots> \<le> 2 ^ 60" using Suc.prems(1) by (simp add: mult.assoc)
    finally have fits: "dv * 1024 mod 2 ^ 64 = dv * 1024" by simp
    have "n div 1024 < 1024 ^ Suc m" using Suc.prems(2) by (simp add: less_mult_imp_div_less mult.commute)
    moreover have "unit_loop (n div 1024) (dv * 1024) (ex + 1) = (dv', ex')"
      using Suc.prems(3) True fits by (simp add: unit_loop.simps [of n])
    ultimately have IH: "ex + 1 \<le> ex'" "dv' = dv * 1024 * 1024 ^ (ex' - (ex + 1))"
      using Suc.IH [of "dv * 1024" "n div 1024" "ex + 1"] Suc.prems(1) by (simp_all add: mult.assoc)
    then have "ex' - ex = Suc (ex' - (ex + 1))" by simp
    with IH show ?thesis by simp
  next
    case False
    with Suc.prems(3) show ?thesis by (simp add: unit_loop.simps [of n])
  qed
qed

lemma unat_div_1024: "unat (b :: 64 word) div 1024 < 1024 ^ Suc 5"
proof -
  have "unat b < 2 ^ 64" using unsigned_less [of b] by simp
  then have "unat b div 1024 < 2 ^ 54" by (simp add: less_mult_imp_div_less)
  then show ?thesis by simp
qed

lemma formatBytes_total: "formatBytes b \<noteq> None"
  using unit_loop_bound [OF unat_div_1024, of b 1024 0]
  by (auto simp: formatBytes_def split: prod.split)

lemma ops_divisor_pos: "1 \<le> ops_divisor env"
proof -
  obtain m k where "uptime env = (m, k)" by (metis prod.exhaust)
  then show ?thesis using float_int_add_bounds(1) [of "uptime env" m k 1] by (simp add: ops_divisor_def)
qed

lemma unit_loop_range:
  "unit_loop n dv ex = (dv', ex') \<Longrightarrow> 0 < n \<Longrightarrow>
   ex \<le> ex' \<and> 1024 ^ (ex' - ex) \<le> n \<and> n < 1024 ^ Suc (ex' - ex)"
proof (induction n dv ex rule: unit_loop.induct)
  case (1 n dv ex)
  show ?case
  proof (cases "n \<ge> 1024")
    case True
    let ?j = "ex' - (ex + 1)"
    have "unit_loop (n div 1024) (dv * 1024 mod 2 ^ 64) (ex + 1) = (dv', ex')" "0 < n div 1024"
      using "1.prems"(1) True by (simp_all add: unit_loop.simps [of n] div_greater_zero_iff)
    from "1.IH" [OF True this]
    have IH: "ex + 1 \<le> ex'" "1024 ^ ?j \<le> n div 1024" "n div 1024 < 1024 ^ Suc ?j" by simp_all
    then have "ex' - ex = Suc ?j" by simp
    moreover have "1024 ^ ?j * 1024 \<le> n" using IH(2) by (simp add: less_eq_div_iff_mult_less_eq)
    moreover have "n < 1024 ^ Suc ?j * 1024" using IH(3) by (simp add: div_less_iff_less_mult)
    ultimately show ?thesis using IH(1) by (simp add: mult.commute)
  next
    case False
    with 1 show ?thesis by (simp add: unit_loop.simps [of n])
  qed
qed

subsection \<open>Properties\<close>

text \<open>C26: Sizes for people. For every 64-bit size of at least 1024 the loop of \<open>formatBytes\<close> ends with
  the power of 1024 the size lies above, its divisor does not wrap around, the index into the six unit
  letters is in range (the function does not panic), and the size is less than 1024 of the units.\<close>

theorem formatBytes_unit:
  assumes "1024 \<le> unat b"
  shows "\<exists>ex < 6. 1024 ^ Suc ex \<le> unat b \<and> unat b < 1024 * 1024 ^ Suc ex \<and>
    formatBytes b = Some (format_f1 (float_of_uint64 (unat b)) (1024 ^ Suc ex) @ [''KMGTPE'' ! ex] @ ''B'')"
proof -
  let ?n = "unat b div 1024"
  obtain dv ex where u: "unit_loop ?n 1024 0 = (dv, ex)" by (metis prod.exhaust)
  have pos: "0 < ?n" using assms by (simp add: div_greater_zero_iff)
  have r: "1024 ^ ex \<le> ?n" "?n < 1024 ^ Suc ex" using unit_loop_range [OF u pos] by simp_all
  have ex: "ex < 6" using unit_loop_bound [OF unat_div_1024, of b 1024 0] u by simp
  have dv: "dv = 1024 ^ Suc ex" using unit_loop_value [OF _ unat_div_1024 u] by simp
  have "1024 ^ ex * 1024 \<le> unat b" using r(1) by (simp add: less_eq_div_iff_mult_less_eq)
  moreover have "unat b < 1024 ^ Suc ex * 1024" using r(2) by (simp add: div_less_iff_less_mult)
  moreover have "formatBytes b =
      Some (format_f1 (float_of_uint64 (unat b)) (1024 ^ Suc ex) @ [''KMGTPE'' ! ex] @ ''B'')"
    using assms ex u dv by (simp add: formatBytes_def)
  ultimately show ?thesis using ex by (intro exI [of _ ex]) (simp add: mult.commute)
qed

theorem formatBytes_unit_witness:
  "\<exists>ex < 6. 1024 ^ Suc ex \<le> unat (2048 :: 64 word) \<and> unat (2048 :: 64 word) < 1024 * 1024 ^ Suc ex \<and>
    formatBytes 2048 = Some (format_f1 (float_of_uint64 (unat (2048 :: 64 word))) (1024 ^ Suc ex) @ [''KMGTPE'' ! ex] @ ''B'')"
  by (rule formatBytes_unit) simp

end
