(* ===== verification/Commands.thy ===== *)
theory Commands
  imports Engine Protocol Config Stats
begin

section \<open>The command handler (core/commands/commands.go)\<close>

text \<open>
  A handler holds the storage engine, the shared configuration and the shared statistics, and
  writes replies to the connection. Its state is a record of these, with the bytes written so
  far and the iteration orders of the maps it ranges over. Every \<open>case\<close> of \<open>Handle\<close> is a
  definition of its own, over an arbitrary table of engine methods; \<open>Handle\<close> dispatches on the
  command name as the source does.
\<close>

record 's Handler =
  engine :: 's
  cfg :: Config
  stats :: ServerStats
  out :: string
  orders :: "nat list list"

definition NewHandler :: "'s \<Rightarrow> Config \<Rightarrow> ServerStats \<Rightarrow> nat list list \<Rightarrow> 's Handler" where
  "NewHandler eng c st ords = \<lparr>engine = eng, cfg = c, stats = st, out = [], orders = ords\<rparr>"

definition call_engine :: "('s, 'r) state \<Rightarrow> ('s Handler, 'r) state" where
  "call_engine m = on_part engine (\<lambda>e h. h\<lparr>engine := e\<rparr>) m"

definition reply :: "string \<Rightarrow> ('s Handler, unit) state" where
  "reply text = modify (\<lambda>h. h\<lparr>out := out h @ text\<rparr>)"

lemma run_reply [simp]: "run_state (reply text) h = ((), h\<lparr>out := out h @ text\<rparr>)"
  by (simp add: reply_def)

lemma run_call_engine [simp]:
  "run_state (call_engine m) h =
     (case run_state m (engine h) of (r, e) \<Rightarrow> (r, h\<lparr>engine := e\<rparr>))"
  by (simp add: call_engine_def)

subsection \<open>Keys and strings\<close>

definition handle_PING :: "'s StorageEngine \<Rightarrow> string list \<Rightarrow> ('s Handler, unit) state" where
  "handle_PING eng args =
     (if length args = 1 then reply (WriteSimpleString ''PONG'')
      else reply (WriteBulkString (args ! 1)))"

definition handle_SET :: "'s StorageEngine \<Rightarrow> string list \<Rightarrow> ('s Handler, unit) state" where
  "handle_SET eng args =
     (if length args < 3 then reply (WriteError ''ERR wrong number of arguments for SET'')
      else do {
        call_engine (eSet eng (args ! 1) (args ! 2));
        reply (WriteSimpleString ''OK'') })"

definition handle_GET :: "'s StorageEngine \<Rightarrow> string list \<Rightarrow> ('s Handler, unit) state" where
  "handle_GET eng args =
     (if length args \<noteq> 2 then reply (WriteError ''ERR wrong number of arguments for GET'')
      else do {
        r \<leftarrow> call_engine (eGet eng (args ! 1));
        (case r of Inl err \<Rightarrow> reply WriteNull | Inr val \<Rightarrow> reply (WriteBulkString val)) })"

fun del_loop :: "'s StorageEngine \<Rightarrow> string list \<Rightarrow> nat \<Rightarrow> ('s Handler, nat) state" where
  "del_loop eng [] deleted = ret deleted"
| "del_loop eng (key # keys) deleted = do {
     err \<leftarrow> call_engine (eDel eng key);
     del_loop eng keys (if err = None then deleted + 1 else deleted)
   }"

definition handle_DEL :: "'s StorageEngine \<Rightarrow> string list \<Rightarrow> ('s Handler, unit) state" where
  "handle_DEL eng args =
     (if length args < 2 then reply (WriteError ''ERR wrong number of arguments for DEL'')
      else do {
        deleted \<leftarrow> del_loop eng (tl args) 0;
        reply (WriteInteger (int deleted)) })"

definition handle_EXISTS :: "'s StorageEngine \<Rightarrow> string list \<Rightarrow> ('s Handler, unit) state" where
  "handle_EXISTS eng args =
     (if length args \<noteq> 2 then reply (WriteError ''ERR wrong number of arguments for EXISTS'')
      else do { b \<leftarrow> call_engine (eExists eng (args ! 1)); reply (WriteInteger (if b then 1 else 0)) })"

definition handle_INCR :: "'s StorageEngine \<Rightarrow> string list \<Rightarrow> ('s Handler, unit) state" where
  "handle_INCR eng args =
     (if length args \<noteq> 2 then reply (WriteError ''ERR wrong number of arguments for INCR'')
      else do {
        r \<leftarrow> call_engine (eIncr eng (args ! 1));
        (case r of
           Inl err \<Rightarrow> reply (WriteError ''ERR value is not an integer or out of range'')
         | Inr res \<Rightarrow> reply (WriteInteger res)) })"

definition handle_DECR :: "'s StorageEngine \<Rightarrow> string list \<Rightarrow> ('s Handler, unit) state" where
  "handle_DECR eng args =
     (if length args \<noteq> 2 then reply (WriteError ''ERR wrong number of arguments for DECR'')
      else do {
        r \<leftarrow> call_engine (eDecr eng (args ! 1));
        (case r of
           Inl err \<Rightarrow> reply (WriteError ''ERR value is not an integer or out of range'')
         | Inr res \<Rightarrow> reply (WriteInteger res)) })"

text \<open>The loop of INCRBY and DECRBY: one step of the counter per iteration; the result is the last
  value returned, or 0 if there was no iteration.\<close>

fun step_loop :: "('s, go_error + int) state \<Rightarrow> nat \<Rightarrow> int \<Rightarrow> ('s Handler, go_error + int) state" where
  "step_loop m 0 result = ret (Inr result)"
| "step_loop m (Suc n) result = do {
     r \<leftarrow> call_engine m;
     (case r of Inl err \<Rightarrow> ret (Inl err) | Inr res \<Rightarrow> step_loop m n res)
   }"

definition handle_INCRBY :: "'s StorageEngine \<Rightarrow> string list \<Rightarrow> ('s Handler, unit) state" where
  "handle_INCRBY eng args =
     (if length args \<noteq> 3 then reply (WriteError ''ERR wrong number of arguments for INCRBY'')
      else case Atoi (args ! 2) of
             None \<Rightarrow> reply (WriteError ''ERR value is not an integer or out of range'')
           | Some n \<Rightarrow> do {
               r \<leftarrow> step_loop (eIncr eng (args ! 1)) (nat n) 0;
               (case r of
                  Inl err \<Rightarrow> reply (WriteError ''ERR value is not an integer or out of range'')
                | Inr res \<Rightarrow> reply (WriteInteger res)) })"

definition handle_DECRBY :: "'s StorageEngine \<Rightarrow> string list \<Rightarrow> ('s Handler, unit) state" where
  "handle_DECRBY eng args =
     (if length args \<noteq> 3 then reply (WriteError ''ERR wrong number of arguments for DECRBY'')
      else case Atoi (args ! 2) of
             None \<Rightarrow> reply (WriteError ''ERR value is not an integer or out of range'')
           | Some n \<Rightarrow> do {
               r \<leftarrow> step_loop (eDecr eng (args ! 1)) (nat n) 0;
               (case r of
                  Inl err \<Rightarrow> reply (WriteError ''ERR value is not an integer or out of range'')
                | Inr res \<Rightarrow> reply (WriteInteger res)) })"

definition handle_EXPIRE :: "'s StorageEngine \<Rightarrow> string list \<Rightarrow> ('s Handler, unit) state" where
  "handle_EXPIRE eng args =
     (if length args \<noteq> 3 then reply (WriteError ''ERR wrong number of arguments for EXPIRE'')
      else case Atoi (args ! 2) of
             None \<Rightarrow> reply (WriteError ''ERR value is not an integer or out of range'')
           | Some secs \<Rightarrow>
               if secs < 0 then reply (WriteError ''ERR value is not an integer or out of range'')
               else do {
                 err \<leftarrow> call_engine (eExpire eng (args ! 1) (wrap64 (secs * 1000000000)));
                 reply (WriteInteger (if err \<noteq> None then 0 else 1)) })"

definition handle_TTL :: "'s StorageEngine \<Rightarrow> string list \<Rightarrow> ('s Handler, unit) state" where
  "handle_TTL eng args =
     (if length args \<noteq> 2 then reply (WriteError ''ERR wrong number of arguments for TTL'')
      else do {
        remaining \<leftarrow> call_engine (eTTL eng (args ! 1));
        (if remaining = -2 then reply (WriteInteger (-2))
         else if remaining = -1 then reply (WriteInteger (-1))
         else reply (WriteInteger (int (float_int (Duration_Seconds (nat remaining)))))) })"

definition handle_PERSIST :: "'s StorageEngine \<Rightarrow> string list \<Rightarrow> ('s Handler, unit) state" where
  "handle_PERSIST eng args =
     (if length args \<noteq> 2 then reply (WriteError ''ERR wrong number of arguments for PERSIST'')
      else do {
        err \<leftarrow> call_engine (ePersist eng (args ! 1));
        reply (WriteInteger (if err \<noteq> None then 0 else 1)) })"

definition handle_KEYS :: "'s StorageEngine \<Rightarrow> string list \<Rightarrow> ('s Handler, unit) state" where
  "handle_KEYS eng args =
     (if length args \<noteq> 2 then reply (WriteError ''ERR wrong number of arguments for KEYS'')
      else do { xs \<leftarrow> call_engine (eKeys eng (args ! 1)); reply (WriteArray xs) })"

definition handle_FLUSHALL :: "'s StorageEngine \<Rightarrow> string list \<Rightarrow> ('s Handler, unit) state" where
  "handle_FLUSHALL eng args =
     do { call_engine (eFlushAll eng); reply (WriteSimpleString ''OK'') }"

definition handle_DBSIZE :: "'s StorageEngine \<Rightarrow> string list \<Rightarrow> ('s Handler, unit) state" where
  "handle_DBSIZE eng args =
     do { n \<leftarrow> call_engine (eSize eng); reply (WriteInteger (int n)) }"

definition handle_COMMAND :: "'s StorageEngine \<Rightarrow> string list \<Rightarrow> ('s Handler, unit) state" where
  "handle_COMMAND eng args =
     reply (WriteSimpleString ''OK'')"

definition handle_RENAME :: "'s StorageEngine \<Rightarrow> string list \<Rightarrow> ('s Handler, unit) state" where
  "handle_RENAME eng args =
     (if length args \<noteq> 3 then reply (WriteError ''ERR wrong number of arguments for RENAME'')
      else do {
        r \<leftarrow> call_engine (eGet eng (args ! 1));
        (case r of
           Inl err \<Rightarrow> reply (WriteError ''ERR no such key'')
         | Inr val \<Rightarrow> do {
             call_engine (eSet eng (args ! 2) val);
             call_engine (eDel eng (args ! 1));
             reply (WriteSimpleString ''OK'') }) })"

text \<open>A condition \<open>n > 0 || engine.Exists(key)\<close>: the second operand is evaluated only if the first
  one is false.\<close>

definition or_exists :: "'s StorageEngine \<Rightarrow> ('s, nat) state \<Rightarrow> string \<Rightarrow> ('s Handler, bool) state" where
  "or_exists eng m key = do {
     n \<leftarrow> call_engine m;
     (if n > 0 then ret True else call_engine (eExists eng key))
   }"

definition handle_TYPE :: "'s StorageEngine \<Rightarrow> string list \<Rightarrow> ('s Handler, unit) state" where
  "handle_TYPE eng args =
     (if length args \<noteq> 2 then reply (WriteError ''ERR wrong number of arguments for TYPE'')
      else do {
        r \<leftarrow> call_engine (eGet eng (args ! 1));
        (if \<not> isl r then reply (WriteSimpleString ''string'')
         else do {
           l \<leftarrow> or_exists eng (eLLen eng (args ! 1)) (args ! 1);
           (if l then reply (WriteSimpleString ''list'')
            else do {
              s \<leftarrow> or_exists eng (eSCard eng (args ! 1)) (args ! 1);
              (if s then reply (WriteSimpleString ''set'')
               else do {
                 h \<leftarrow> or_exists eng (eHLen eng (args ! 1)) (args ! 1);
                 (if h then reply (WriteSimpleString ''hash'')
                  else reply (WriteSimpleString ''none'')) }) }) }) })"

definition handle_APPEND :: "'s StorageEngine \<Rightarrow> string list \<Rightarrow> ('s Handler, unit) state" where
  "handle_APPEND eng args =
     (if length args \<noteq> 3 then reply (WriteError ''ERR wrong number of arguments for APPEND'')
      else do {
        r \<leftarrow> call_engine (eGet eng (args ! 1));
        (case r of
           Inl err \<Rightarrow> do {
             call_engine (eSet eng (args ! 1) (args ! 2));
             reply (WriteInteger (int (length (args ! 2)))) }
         | Inr existing \<Rightarrow> do {
             call_engine (eSet eng (args ! 1) (existing @ args ! 2));
             reply (WriteInteger (int (length (existing @ args ! 2)))) }) })"

definition handle_STRLEN :: "'s StorageEngine \<Rightarrow> string list \<Rightarrow> ('s Handler, unit) state" where
  "handle_STRLEN eng args =
     (if length args \<noteq> 2 then reply (WriteError ''ERR wrong number of arguments for STRLEN'')
      else do {
        r \<leftarrow> call_engine (eGet eng (args ! 1));
        (case r of
           Inl err \<Rightarrow> reply (WriteInteger 0)
         | Inr val \<Rightarrow> reply (WriteInteger (int (length val)))) })"

text \<open>Loops that step over the arguments in pairs; the guard of the command makes their number
  even.\<close>

fun mset_loop :: "'s StorageEngine \<Rightarrow> string list \<Rightarrow> ('s Handler, unit) state" where
  "mset_loop eng (k # v # rest) = do {
     call_engine (eSet eng k v);
     mset_loop eng rest
   }"
| "mset_loop eng _ = ret ()"

definition handle_MSET :: "'s StorageEngine \<Rightarrow> string list \<Rightarrow> ('s Handler, unit) state" where
  "handle_MSET eng args =
     (if length args < 3 \<or> length args mod 2 \<noteq> 1 then reply (WriteError ''ERR wrong number of arguments for MSET'')
      else do {
        mset_loop eng (tl args);
        reply (WriteSimpleString ''OK'') })"

fun mget_loop :: "'s StorageEngine \<Rightarrow> string list \<Rightarrow> string list \<Rightarrow> ('s Handler, string list) state" where
  "mget_loop eng [] result = ret result"
| "mget_loop eng (key # keys) result = do {
     r \<leftarrow> call_engine (eGet eng key);
     mget_loop eng keys (result @ [case r of Inl err \<Rightarrow> [] | Inr val \<Rightarrow> val])
   }"

definition handle_MGET :: "'s StorageEngine \<Rightarrow> string list \<Rightarrow> ('s Handler, unit) state" where
  "handle_MGET eng args =
     (if length args < 2 then reply (WriteError ''ERR wrong number of arguments for MGET'')
      else do {
        result \<leftarrow> mget_loop eng (tl args) [];
        reply (WriteArray result) })"

definition handle_RANDOMKEY :: "'s StorageEngine \<Rightarrow> string list \<Rightarrow> ('s Handler, unit) state" where
  "handle_RANDOMKEY eng args =
     do {
        keys \<leftarrow> call_engine (eKeys eng ''*'');
        (case keys of [] \<Rightarrow> reply WriteNull | k # ks \<Rightarrow> reply (WriteBulkString k)) }"

subsection \<open>Lists\<close>

definition handle_LPUSH :: "'s StorageEngine \<Rightarrow> string list \<Rightarrow> ('s Handler, unit) state" where
  "handle_LPUSH eng args =
     (if length args < 3 then reply (WriteError ''ERR wrong number of arguments for LPUSH'')
      else do { n \<leftarrow> call_engine (eLPush eng (args ! 1) (drop 2 args)); reply (WriteInteger (int n)) })"

definition handle_RPUSH :: "'s StorageEngine \<Rightarrow> string list \<Rightarrow> ('s Handler, unit) state" where
  "handle_RPUSH eng args =
     (if length args < 3 then reply (WriteError ''ERR wrong number of arguments for RPUSH'')
      else do { n \<leftarrow> call_engine (eRPush eng (args ! 1) (drop 2 args)); reply (WriteInteger (int n)) })"

definition handle_LPOP :: "'s StorageEngine \<Rightarrow> string list \<Rightarrow> ('s Handler, unit) state" where
  "handle_LPOP eng args =
     (if length args < 2 then reply (WriteError ''ERR wrong number of arguments for LPOP'')
      else do {
        r \<leftarrow> call_engine (eLPop eng (args ! 1));
        (case r of Inl err \<Rightarrow> reply WriteNull | Inr val \<Rightarrow> reply (WriteBulkString val)) })"

definition handle_RPOP :: "'s StorageEngine \<Rightarrow> string list \<Rightarrow> ('s Handler, unit) state" where
  "handle_RPOP eng args =
     (if length args < 2 then reply (WriteError ''ERR wrong number of arguments for RPOP'')
      else do {
        r \<leftarrow> call_engine (eRPop eng (args ! 1));
        (case r of Inl err \<Rightarrow> reply WriteNull | Inr val \<Rightarrow> reply (WriteBulkString val)) })"

definition handle_LLEN :: "'s StorageEngine \<Rightarrow> string list \<Rightarrow> ('s Handler, unit) state" where
  "handle_LLEN eng args =
     (if length args \<noteq> 2 then reply (WriteError ''ERR wrong number of arguments for LLEN'')
      else do { n \<leftarrow> call_engine (eLLen eng (args ! 1)); reply (WriteInteger (int n)) })"

definition handle_LRANGE :: "'s StorageEngine \<Rightarrow> string list \<Rightarrow> ('s Handler, unit) state" where
  "handle_LRANGE eng args =
     (if length args \<noteq> 4 then reply (WriteError ''ERR wrong number of arguments for LRANGE'')
      else case Atoi (args ! 2) of
             None \<Rightarrow> reply (WriteError ''ERR value is not an integer'')
           | Some start \<Rightarrow>
               (case Atoi (args ! 3) of
                  None \<Rightarrow> reply (WriteError ''ERR value is not an integer'')
                | Some stop \<Rightarrow> do {
                    xs \<leftarrow> call_engine (eLRange eng (args ! 1) start stop);
                    reply (WriteArray xs) }))"

definition handle_LINDEX :: "'s StorageEngine \<Rightarrow> string list \<Rightarrow> ('s Handler, unit) state" where
  "handle_LINDEX eng args =
     (if length args \<noteq> 3 then reply (WriteError ''ERR wrong number of arguments for LINDEX'')
      else case Atoi (args ! 2) of
             None \<Rightarrow> reply (WriteError ''ERR value is not an integer'')
           | Some index \<Rightarrow> do {
        r \<leftarrow> call_engine (eLIndex eng (args ! 1) index);
        (case r of Inl err \<Rightarrow> reply WriteNull | Inr val \<Rightarrow> reply (WriteBulkString val)) })"

subsection \<open>Sets\<close>

definition handle_SADD :: "'s StorageEngine \<Rightarrow> string list \<Rightarrow> ('s Handler, unit) state" where
  "handle_SADD eng args =
     (if length args < 3 then reply (WriteError ''ERR wrong number of arguments for SADD'')
      else do { n \<leftarrow> call_engine (eSAdd eng (args ! 1) (drop 2 args)); reply (WriteInteger (int n)) })"

definition handle_SREM :: "'s StorageEngine \<Rightarrow> string list \<Rightarrow> ('s Handler, unit) state" where
  "handle_SREM eng args =
     (if length args < 3 then reply (WriteError ''ERR wrong number of arguments for SREM'')
      else do { n \<leftarrow> call_engine (eSRem eng (args ! 1) (drop 2 args)); reply (WriteInteger (int n)) })"

definition handle_SMEMBERS :: "'s StorageEngine \<Rightarrow> string list \<Rightarrow> ('s Handler, unit) state" where
  "handle_SMEMBERS eng args =
     (if length args \<noteq> 2 then reply (WriteError ''ERR wrong number of arguments for SMEMBERS'')
      else do { xs \<leftarrow> call_engine (eSMembers eng (args ! 1)); reply (WriteArray xs) })"

definition handle_SISMEMBER :: "'s StorageEngine \<Rightarrow> string list \<Rightarrow> ('s Handler, unit) state" where
  "handle_SISMEMBER eng args =
     (if length args \<noteq> 3 then reply (WriteError ''ERR wrong number of arguments for SISMEMBER'')
      else do { b \<leftarrow> call_engine (eSIsMember eng (args ! 1) (args ! 2)); reply (WriteInteger (if b then 1 else 0)) })"

definition handle_SCARD :: "'s StorageEngine \<Rightarrow> string list \<Rightarrow> ('s Handler, unit) state" where
  "handle_SCARD eng args =
     (if length args \<noteq> 2 then reply (WriteError ''ERR wrong number of arguments for SCARD'')
      else do { n \<leftarrow> call_engine (eSCard eng (args ! 1)); reply (WriteInteger (int n)) })"

definition handle_SPOP :: "'s StorageEngine \<Rightarrow> string list \<Rightarrow> ('s Handler, unit) state" where
  "handle_SPOP eng args =
     (if length args \<noteq> 2 then reply (WriteError ''ERR wrong number of arguments for SPOP'')
      else do {
        r \<leftarrow> call_engine (eSPop eng (args ! 1));
        (case r of Inl err \<Rightarrow> reply WriteNull | Inr val \<Rightarrow> reply (WriteBulkString val)) })"

definition handle_SRANDMEMBER :: "'s StorageEngine \<Rightarrow> string list \<Rightarrow> ('s Handler, unit) state" where
  "handle_SRANDMEMBER eng args =
     (if length args \<noteq> 2 then reply (WriteError ''ERR wrong number of arguments for SRANDMEMBER'')
      else do {
        r \<leftarrow> call_engine (eSRandMember eng (args ! 1));
        (case r of Inl err \<Rightarrow> reply WriteNull | Inr val \<Rightarrow> reply (WriteBulkString val)) })"

subsection \<open>Hashes\<close>

fun hset_loop :: "'s StorageEngine \<Rightarrow> string \<Rightarrow> string list \<Rightarrow> nat \<Rightarrow> ('s Handler, nat) state" where
  "hset_loop eng key (f # v # rest) added = do {
     n \<leftarrow> call_engine (eHSet eng key f v);
     hset_loop eng key rest (added + n)
   }"
| "hset_loop eng key _ added = ret added"

definition handle_HSET :: "'s StorageEngine \<Rightarrow> string list \<Rightarrow> ('s Handler, unit) state" where
  "handle_HSET eng args =
     (if length args < 4 \<or> (length args - 2) mod 2 \<noteq> 0 then reply (WriteError ''ERR wrong number of arguments for HSET'')
      else do {
        added \<leftarrow> hset_loop eng (args ! 1) (drop 2 args) 0;
        reply (WriteInteger (int added)) })"

definition handle_HGET :: "'s StorageEngine \<Rightarrow> string list \<Rightarrow> ('s Handler, unit) state" where
  "handle_HGET eng args =
     (if length args \<noteq> 3 then reply (WriteError ''ERR wrong number of arguments for HGET'')
      else do {
        r \<leftarrow> call_engine (eHGet eng (args ! 1) (args ! 2));
        (case r of Inl err \<Rightarrow> reply WriteNull | Inr val \<Rightarrow> reply (WriteBulkString val)) })"

definition handle_HDEL :: "'s StorageEngine \<Rightarrow> string list \<Rightarrow> ('s Handler, unit) state" where
  "handle_HDEL eng args =
     (if length args < 3 then reply (WriteError ''ERR wrong number of arguments for HDEL'')
      else do { n \<leftarrow> call_engine (eHDel eng (args ! 1) (drop 2 args)); reply (WriteInteger (int n)) })"

definition handle_HGETALL :: "'s StorageEngine \<Rightarrow> string list \<Rightarrow> ('s Handler, unit) state" where
  "handle_HGETALL eng args =
     (if length args \<noteq> 2 then reply (WriteError ''ERR wrong number of arguments for HGETALL'')
      else do { xs \<leftarrow> call_engine (eHGetAll eng (args ! 1)); reply (WriteArray xs) })"

definition handle_HKEYS :: "'s StorageEngine \<Rightarrow> string list \<Rightarrow> ('s Handler, unit) state" where
  "handle_HKEYS eng args =
     (if length args \<noteq> 2 then reply (WriteError ''ERR wrong number of arguments for HKEYS'')
      else do { xs \<leftarrow> call_engine (eHKeys eng (args ! 1)); reply (WriteArray xs) })"

definition handle_HVALS :: "'s StorageEngine \<Rightarrow> string list \<Rightarrow> ('s Handler, unit) state" where
  "handle_HVALS eng args =
     (if length args \<noteq> 2 then reply (WriteError ''ERR wrong number of arguments for HVALS'')
      else do { xs \<leftarrow> call_engine (eHVals eng (args ! 1)); reply (WriteArray xs) })"

definition handle_HEXISTS :: "'s StorageEngine \<Rightarrow> string list \<Rightarrow> ('s Handler, unit) state" where
  "handle_HEXISTS eng args =
     (if length args \<noteq> 3 then reply (WriteError ''ERR wrong number of arguments for HEXISTS'')
      else do { b \<leftarrow> call_engine (eHExists eng (args ! 1) (args ! 2)); reply (WriteInteger (if b then 1 else 0)) })"

definition handle_HLEN :: "'s StorageEngine \<Rightarrow> string list \<Rightarrow> ('s Handler, unit) state" where
  "handle_HLEN eng args =
     (if length args \<noteq> 2 then reply (WriteError ''ERR wrong number of arguments for HLEN'')
      else do { n \<leftarrow> call_engine (eHLen eng (args ! 1)); reply (WriteInteger (int n)) })"

fun hmset_fields :: "string list \<Rightarrow> (string, string) fmap \<Rightarrow> (string, string) fmap" where
  "hmset_fields (f # v # rest) m = hmset_fields rest (fmupd f v m)"
| "hmset_fields _ m = m"

definition handle_HMSET :: "'s StorageEngine \<Rightarrow> string list \<Rightarrow> ('s Handler, unit) state" where
  "handle_HMSET eng args =
     (if length args < 4 \<or> (length args - 2) mod 2 \<noteq> 0 then reply (WriteError ''ERR wrong number of arguments for HMSET'')
      else do {
        call_engine (eHMSet eng (args ! 1) (hmset_fields (drop 2 args) fmempty));
        reply (WriteSimpleString ''OK'') })"

definition handle_HMGET :: "'s StorageEngine \<Rightarrow> string list \<Rightarrow> ('s Handler, unit) state" where
  "handle_HMGET eng args =
     (if length args < 3 then reply (WriteError ''ERR wrong number of arguments for HMGET'')
      else do { xs \<leftarrow> call_engine (eHMGet eng (args ! 1) (drop 2 args)); reply (WriteArray xs) })"

subsection \<open>CONFIG and INFO\<close>

definition matchSimple :: "string \<Rightarrow> string \<Rightarrow> bool" where
  "matchSimple pattern key = (if pattern = ''*'' then True else EqualFold pattern key)"

text \<open>The table \<open>configGet\<close> builds, as an association list; \<open>range\<close> visits it in any order.\<close>

definition cfgMap :: "Config \<Rightarrow> (string \<times> string) list" where
  "cfgMap c =
     [(''port'', Itoa (Port c)),
      (''wal_path'', WALPath c),
      (''log_level'', LogLevel c),
      (''requirepass'', RequirePass c),
      (''maxclients'', Itoa (MaxClients c)),
      (''timeout'', Itoa (TimeoutSeconds c)),
      (''maxmemory'', Itoa (MaxMemoryMB c)),
      (''databases'', Itoa (Databases c)),
      (''wal_max_size_mb'', Itoa (WalMaxSizeMB c)),
      (''wal_auto_compact'', if WalAutoCompact c then ''true'' else ''false'')]"

fun configGet_loop :: "string list \<Rightarrow> string list \<Rightarrow> ('s Handler, string list) state" where
  "configGet_loop [] result = ret result"
| "configGet_loop (pattern # patterns) result = do {
     h \<leftarrow> State_Monad.get;
     modify (\<lambda>h. h\<lparr>orders := tl (orders h)\<rparr>);
     let kvs = go_order (case orders h of [] \<Rightarrow> [] | p # _ \<Rightarrow> p) (cfgMap (cfg h));
     configGet_loop patterns
       (result @ concat (map (\<lambda>(k, v). if matchSimple pattern k then [k, v] else []) kvs))
   }"

definition configGet :: "string list \<Rightarrow> ('s Handler, unit) state" where
  "configGet patterns = do { result \<leftarrow> configGet_loop patterns []; reply (WriteArray result) }"

definition set_cfg :: "(Config \<Rightarrow> Config) \<Rightarrow> ('s Handler, unit) state" where
  "set_cfg f = do { modify (\<lambda>h. h\<lparr>cfg := f (cfg h)\<rparr>); reply (WriteSimpleString ''OK'') }"

definition configSet :: "string \<Rightarrow> string \<Rightarrow> ('s Handler, unit) state" where
  "configSet key value =
     (let name = ToLower key
      in if name = ''requirepass'' then set_cfg (\<lambda>c. c\<lparr>RequirePass := value\<rparr>)
         else if name = ''maxclients'' then
           (case Atoi value of
              None \<Rightarrow> reply (WriteError ''ERR invalid value'')
            | Some v \<Rightarrow>
                if v \<le> 0 then reply (WriteError ''ERR invalid value'')
                else set_cfg (\<lambda>c. c\<lparr>MaxClients := v\<rparr>))
         else if name = ''timeout'' then
           (case Atoi value of
              None \<Rightarrow> reply (WriteError ''ERR invalid value'')
            | Some v \<Rightarrow>
                if v < 0 then reply (WriteError ''ERR invalid value'')
                else set_cfg (\<lambda>c. c\<lparr>TimeoutSeconds := v\<rparr>))
         else if name = ''log_level'' then
           (if value \<notin> {''debug'', ''info'', ''warn'', ''error''}
            then reply (WriteError ''ERR invalid log level'')
            else set_cfg (\<lambda>c. c\<lparr>LogLevel := value\<rparr>))
         else reply (WriteError ''ERR Unsupported CONFIG parameter''))"

definition handle_CONFIG :: "'s StorageEngine \<Rightarrow> string list \<Rightarrow> ('s Handler, unit) state" where
  "handle_CONFIG eng args =
     (if length args < 3 then reply (WriteError ''ERR wrong number of arguments for CONFIG'')
      else if ToUpper (args ! 1) = ''GET'' then configGet (drop 2 args)
      else if ToUpper (args ! 1) = ''SET'' then
        (if length args < 4 then reply (WriteError ''ERR wrong number of arguments for CONFIG SET'')
         else configSet (args ! 2) (args ! 3))
      else reply (WriteError ''ERR CONFIG subcommand must be GET or SET''))"

definition handle_INFO :: "runtime_env \<Rightarrow> 's StorageEngine \<Rightarrow> ('s Handler, unit outcome) state" where
  "handle_INFO env eng = do {
     n \<leftarrow> call_engine (eSize eng);
     h \<leftarrow> State_Monad.get;
     (case InfoSection env n (stats h) of
        None \<Rightarrow> ret Panic
      | Some text \<Rightarrow> do { reply (WriteBulkString text); ret (Ok ()) })
   }"

subsection \<open>Dispatch\<close>

definition handle_default :: "string list \<Rightarrow> ('s Handler, unit) state" where
  "handle_default args = reply (WriteError (''ERR unknown command '' @ [CHR 39] @ args ! 0 @ [CHR 39]))"

definition dispatch :: "'s StorageEngine \<Rightarrow> string \<Rightarrow> string list \<Rightarrow> ('s Handler, unit) state" where
  "dispatch eng cmd args =
     (if cmd = ''PING'' then handle_PING eng args
      else if cmd = ''CONFIG'' then handle_CONFIG eng args
      else if cmd = ''SET'' then handle_SET eng args
      else if cmd = ''GET'' then handle_GET eng args
      else if cmd = ''DEL'' then handle_DEL eng args
      else if cmd = ''EXISTS'' then handle_EXISTS eng args
      else if cmd = ''INCR'' then handle_INCR eng args
      else if cmd = ''DECR'' then handle_DECR eng args
      else if cmd = ''INCRBY'' then handle_INCRBY eng args
      else if cmd = ''DECRBY'' then handle_DECRBY eng args
      else if cmd = ''EXPIRE'' then handle_EXPIRE eng args
      else if cmd = ''TTL'' then handle_TTL eng args
      else if cmd = ''PERSIST'' then handle_PERSIST eng args
      else if cmd = ''KEYS'' then handle_KEYS eng args
      else if cmd = ''FLUSHALL'' then handle_FLUSHALL eng args
      else if cmd = ''DBSIZE'' then handle_DBSIZE eng args
      else if cmd = ''COMMAND'' then handle_COMMAND eng args
      else if cmd = ''RENAME'' then handle_RENAME eng args
      else if cmd = ''TYPE'' then handle_TYPE eng args
      else if cmd = ''APPEND'' then handle_APPEND eng args
      else if cmd = ''STRLEN'' then handle_STRLEN eng args
      else if cmd = ''MSET'' then handle_MSET eng args
      else if cmd = ''MGET'' then handle_MGET eng args
      else if cmd = ''RANDOMKEY'' then handle_RANDOMKEY eng args
      else if cmd = ''LPUSH'' then handle_LPUSH eng args
      else if cmd = ''RPUSH'' then handle_RPUSH eng args
      else if cmd = ''LPOP'' then handle_LPOP eng args
      else if cmd = ''RPOP'' then handle_RPOP eng args
      else if cmd = ''LLEN'' then handle_LLEN eng args
      else if cmd = ''LRANGE'' then handle_LRANGE eng args
      else if cmd = ''LINDEX'' then handle_LINDEX eng args
      else if cmd = ''SADD'' then handle_SADD eng args
      else if cmd = ''SREM'' then handle_SREM eng args
      else if cmd = ''SMEMBERS'' then handle_SMEMBERS eng args
      else if cmd = ''SISMEMBER'' then handle_SISMEMBER eng args
      else if cmd = ''SCARD'' then handle_SCARD eng args
      else if cmd = ''SPOP'' then handle_SPOP eng args
      else if cmd = ''SRANDMEMBER'' then handle_SRANDMEMBER eng args
      else if cmd = ''HSET'' then handle_HSET eng args
      else if cmd = ''HGET'' then handle_HGET eng args
      else if cmd = ''HDEL'' then handle_HDEL eng args
      else if cmd = ''HGETALL'' then handle_HGETALL eng args
      else if cmd = ''HKEYS'' then handle_HKEYS eng args
      else if cmd = ''HVALS'' then handle_HVALS eng args
      else if cmd = ''HEXISTS'' then handle_HEXISTS eng args
      else if cmd = ''HLEN'' then handle_HLEN eng args
      else if cmd = ''HMSET'' then handle_HMSET eng args
      else if cmd = ''HMGET'' then handle_HMGET eng args
      else handle_default args)"

definition Handle ::
    "runtime_env \<Rightarrow> 's StorageEngine \<Rightarrow> string list \<Rightarrow> ('s Handler, unit outcome) state" where
  "Handle env eng args =
     (if args = [] then do { reply (WriteError ''ERR empty command''); ret (Ok ()) }
      else do {
        modify (\<lambda>h. h\<lparr>stats := add_TotalCommands 1 (stats h)\<rparr>);
        let cmd = ToUpper (args ! 0);
        (if cmd = ''INFO'' then handle_INFO env eng
         else do { dispatch eng cmd args; ret (Ok ()) })
      })"

end
