(* ===== verification/Server.thy ===== *)
theory Server
  imports Commands
begin

section \<open>The server: connections and authentication (cmd/server/server.go)\<close>

text \<open>
  One connection is a loop over the requests of its input: parse, check authentication,
  handle. The input is the whole byte sequence the client sends; the loop ends when parsing
  fails, which the end of the input makes it do. A panic in a connection's goroutine ends the
  process and is the result of the loop. The deadline the loop sets when a timeout is
  configured is the zero time of a context without deadline, which means no deadline; it has
  no effect on the state. The accept loop with its semaphore is a step relation over the
  numbers of goroutines in each phase.
\<close>

subsection \<open>One connection\<close>

definition isUnauthenticatedCommand :: "string list \<Rightarrow> bool" where
  "isUnauthenticatedCommand args =
     (if args = [] then False
      else let cmd = ToUpper (args ! 0)
           in cmd = ''PING'' \<or> cmd = ''QUIT'' \<or> cmd = ''COMMAND'')"

text \<open>One request: authentication, the refusal of a client without it, and the handler. The result is
  whether the client is authenticated afterwards.\<close>

definition serve_request ::
    "runtime_env \<Rightarrow> 's StorageEngine \<Rightarrow> bool \<Rightarrow> string list \<Rightarrow> ('s Handler, bool outcome) state" where
  "serve_request env eng authenticated args = do {
     h \<leftarrow> State_Monad.get;
     (if \<not> authenticated \<and> args \<noteq> [] \<and> ToUpper (args ! 0) = ''AUTH'' then
        (if length args = 2 \<and> args ! 1 = RequirePass (cfg h)
         then do { reply (WriteSimpleString ''OK''); ret (Ok True) }
         else do { reply (WriteError ''ERR invalid password''); ret (Ok authenticated) })
      else if \<not> authenticated \<and> \<not> isUnauthenticatedCommand args then do {
        reply (WriteError ''NOAUTH Authentication required.'');
        ret (Ok authenticated)
      }
      else do {
        r \<leftarrow> Handle env eng args;
        ret (case r of Ok _ \<Rightarrow> Ok authenticated | Err e \<Rightarrow> Err e | Panic \<Rightarrow> Panic)
      })
   }"

function client_loop ::
    "(nat \<Rightarrow> runtime_env) \<Rightarrow> 's StorageEngine \<Rightarrow> nat \<Rightarrow> bool \<Rightarrow> string \<Rightarrow>
      ('s Handler, unit outcome) state" where
  \<comment> \<open>\<open>env n\<close> is what the runtime reports when the \<open>n\<close>-th request is handled\<close>
  "client_loop env eng n authenticated input =
     (case Parse input of
        (Err e, rest) \<Rightarrow> ret (Ok ())
      | (Panic, rest) \<Rightarrow> ret Panic
      | (Ok args, rest) \<Rightarrow> do {
          r \<leftarrow> serve_request (env n) eng authenticated args;
          (case r of
             Ok authenticated' \<Rightarrow> client_loop env eng (Suc n) authenticated' rest
           | Err e \<Rightarrow> ret (Err e)
           | Panic \<Rightarrow> ret Panic)
        })"
  by pat_completeness auto
termination
  by (relation "measure (\<lambda>(env, eng, n, a, input). length input)") (auto dest: Parse_consumes [OF sym])

declare client_loop.simps [simp del]

text \<open>One request that parses, when the handler answers it without a panic.\<close>

lemma client_loop_request:
  assumes "Parse input = (Ok args, rest)" and "run_state (Handle (env n) eng args) h = (Ok (), h')"
  defines "say \<equiv> \<lambda>t b. run_state (client_loop env eng (Suc n) b rest) (h\<lparr>out := out h @ t\<rparr>)"
  shows "run_state (client_loop env eng n authenticated input) h =
    (if \<not> authenticated \<and> args \<noteq> [] \<and> ToUpper (args ! 0) = ''AUTH'' then
       (if length args = 2 \<and> args ! 1 = RequirePass (cfg h)
        then say (WriteSimpleString ''OK'') True
        else say (WriteError ''ERR invalid password'') authenticated)
     else if \<not> authenticated \<and> \<not> isUnauthenticatedCommand args
     then say (WriteError ''NOAUTH Authentication required.'') authenticated
     else run_state (client_loop env eng (Suc n) authenticated rest) h')"
  using assms(1,2) by (auto simp: say_def client_loop.simps [of _ _ _ _ input] serve_request_def)

definition handleClient ::
    "(nat \<Rightarrow> runtime_env) \<Rightarrow> 's StorageEngine \<Rightarrow> string \<Rightarrow> ('s Handler, unit outcome) state" where
  "handleClient env eng input = do {
     modify (\<lambda>h. h\<lparr>stats := add_ActiveConnections 1 (add_TotalConnections 1 (stats h))\<rparr>);
     h \<leftarrow> State_Monad.get;
     r \<leftarrow> client_loop env eng 0 (RequirePass (cfg h) = '''') input;
     (case r of
        Panic \<Rightarrow> ret Panic
      | _ \<Rightarrow> do {
          modify (\<lambda>h. h\<lparr>stats := add_ActiveConnections (-1) (stats h)\<rparr>);
          ret r
        })
   }"

subsection \<open>The accept loop\<close>

text \<open>
  \<open>Serve\<close> builds the engine, listens and makes the semaphore, a channel with room for
  \<open>MaxClients\<close> tokens: \<open>make\<close> panics for a negative size. \<open>Err\<close> stands for the exit with
  status 1. What \<open>net.Listen\<close> returns is a parameter.
\<close>

record Server =
  srv_cfg :: Config
  srv_engine :: WALEngine
  srv_sem :: nat
  srv_stats :: ServerStats

definition Serve_setup :: "go_error option \<Rightarrow> Config \<Rightarrow> (os_world, Server outcome) state" where
  "Serve_setup listen c = do {
     r \<leftarrow> NewWALEngine (WalMaxSizeMB c);
     ret (case r of
            Err err \<Rightarrow> Err err
          | Panic \<Rightarrow> Panic
          | Ok eng \<Rightarrow>
              (case listen of
                 Some err \<Rightarrow> Err err
               | None \<Rightarrow>
                   if MaxClients c < 0 then Panic
                   else Ok \<lparr>srv_cfg = c, srv_engine = eng, srv_sem = nat (MaxClients c), srv_stats = New\<rparr>))
   }"

text \<open>
  The accept loop. A connection takes a token before its goroutine is started; the goroutine
  counts itself as active, serves, stops counting itself and gives the token back, in this
  order. A signal cancels the context and closes the listener; the loop then returns, from
  the failing \<open>Accept\<close> or from the second case of the inner \<open>select\<close>, which may also choose
  its first case when both are ready. When \<open>Serve\<close> returns the process ends.
\<close>

record accept_state =
  sem :: nat
  spawned :: nat
  serving :: nat
  leaving :: nat
  conn_stats :: ServerStats
  refused_conns :: nat
  cancelled :: bool
  returned :: bool

definition accept_start :: accept_state where
  "accept_start =
     \<lparr>sem = 0, spawned = 0, serving = 0, leaving = 0, conn_stats = New, refused_conns = 0,
      cancelled = False, returned = False\<rparr>"

inductive accept_step :: "nat \<Rightarrow> accept_state \<Rightarrow> accept_state \<Rightarrow> bool" for cap where
  admit: "\<not> returned s \<Longrightarrow> sem s < cap \<Longrightarrow>
    accept_step cap s (s\<lparr>sem := sem s + 1, spawned := spawned s + 1\<rparr>)"
| refuse: "\<not> returned s \<Longrightarrow> \<not> sem s < cap \<Longrightarrow> \<not> cancelled s \<Longrightarrow>
    accept_step cap s (s\<lparr>refused_conns := refused_conns s + 1\<rparr>)"
| begin_serving: "\<not> returned s \<Longrightarrow> 0 < spawned s \<Longrightarrow>
    accept_step cap s
      (s\<lparr>spawned := spawned s - 1, serving := serving s + 1,
         conn_stats := add_ActiveConnections 1 (add_TotalConnections 1 (conn_stats s))\<rparr>)"
| end_serving: "\<not> returned s \<Longrightarrow> 0 < serving s \<Longrightarrow>
    accept_step cap s
      (s\<lparr>serving := serving s - 1, leaving := leaving s + 1,
         conn_stats := add_ActiveConnections (-1) (conn_stats s)\<rparr>)"
| release: "\<not> returned s \<Longrightarrow> 0 < leaving s \<Longrightarrow>
    accept_step cap s (s\<lparr>leaving := leaving s - 1, sem := sem s - 1\<rparr>)"
| signal: "\<not> returned s \<Longrightarrow> \<not> cancelled s \<Longrightarrow> accept_step cap s (s\<lparr>cancelled := True\<rparr>)"
| stop: "\<not> returned s \<Longrightarrow> cancelled s \<Longrightarrow> accept_step cap s (s\<lparr>returned := True\<rparr>)"

inductive_cases accept_stepE: "accept_step cap s t"

inductive accept_reach :: "nat \<Rightarrow> accept_state \<Rightarrow> bool" for cap where
  start: "accept_reach cap accept_start"
| step: "accept_reach cap s \<Longrightarrow> accept_step cap s t \<Longrightarrow> accept_reach cap t"

definition accept_inv :: "nat \<Rightarrow> accept_state \<Rightarrow> bool" where
  "accept_inv cap s \<longleftrightarrow>
     sem s = spawned s + serving s + leaving s \<and> sem s \<le> cap \<and>
     ActiveConnections (conn_stats s) = int (serving s) \<and> (returned s \<longrightarrow> cancelled s)"

lemma int_less_power63: "n < 2 ^ 63 \<Longrightarrow> int n < 2 ^ 63"
  by (metis of_nat_less_iff of_nat_numeral of_nat_power)

lemma accept_inv_step:
  assumes "accept_step cap s t" and "accept_inv cap s" and "cap < 2 ^ 63"
  shows "accept_inv cap t"
proof -
  have "int (serving s) + 1 < 2 ^ 63" if "0 < spawned s"
    using int_less_power63 [of "serving s + 1"] that assms(2,3) by (simp add: accept_inv_def)
  moreover have "int (serving s) < 2 ^ 63"
    using int_less_power63 [of "serving s"] assms(2,3) by (simp add: accept_inv_def)
  ultimately show ?thesis
    using assms(1,2)
    by (elim accept_stepE)
      (auto simp: accept_inv_def add_ActiveConnections_def add_TotalConnections_def int64_defs
        of_nat_diff)
qed

lemma accept_reach_inv:
  assumes "accept_reach cap s" and "cap < 2 ^ 63"
  shows "accept_inv cap s"
  using assms(1)
proof (induction rule: accept_reach.induct)
  case start
  show ?case by (simp add: accept_inv_def accept_start_def New_def)
next
  case (step s t)
  then show ?case using accept_inv_step assms(2) by blast
qed

subsection \<open>Clients without the password\<close>

text \<open>The requests of an input, as the loop parses them.\<close>

function requests :: "string \<Rightarrow> string list list" where
  "requests input =
     (case Parse input of
        (Ok args, rest) \<Rightarrow> args # requests rest
      | (Err e, rest) \<Rightarrow> []
      | (Panic, rest) \<Rightarrow> [])"
  by pat_completeness auto
termination
  by (relation "measure length") (auto dest: Parse_consumes [OF sym])

declare requests.simps [simp del]

lemma one_request:
  assumes "Parse (WriteArray args @ []) = (Ok args, [])"
  shows "requests (WriteArray args) = [args]"
proof -
  have "Parse [] = (Err ErrEOF, [])" by (simp add: Parse_def ReadString_def)
  then show ?thesis using assms by (simp add: requests.simps [of "WriteArray args"] requests.simps [of "[]"])
qed

definition presents :: "string \<Rightarrow> string list \<Rightarrow> bool" where
  "presents pass args \<longleftrightarrow> length args = 2 \<and> ToUpper (args ! 0) = ''AUTH'' \<and> args ! 1 = pass"

lemma dispatch_unauthenticated:
  assumes "isUnauthenticatedCommand args"
  shows "run_state (Handle env eng args) h = (Ok (), after (Handle env eng args) h) \<and>
    engine (after (Handle env eng args) h) = engine h \<and> cfg (after (Handle env eng args) h) = cfg h"
proof -
  have ne: "args \<noteq> []" and cmd: "ToUpper (args ! 0) \<in> {''PING'', ''QUIT'', ''COMMAND''}"
    using assms by (auto simp: isUnauthenticatedCommand_def Let_def split: if_splits)
  then show ?thesis
    by (auto simp: Handle_def dispatch_def handle_PING_def handle_COMMAND_def handle_default_def)
qed

lemma client_loop_unauthenticated:
  assumes "\<forall>args \<in> set (requests input). \<not> presents (RequirePass (cfg h)) args"
  shows "engine (after (client_loop env eng n False input) h) = engine h \<and>
    cfg (after (client_loop env eng n False input) h) = cfg h"
  using assms
proof (induction input arbitrary: n h rule: requests.induct)
  case (1 input)
  obtain p rest where p: "Parse input = (p, rest)" by (metis prod.exhaust)
  show ?case
  proof (cases p)
    case (Ok args)
    have no: "\<not> presents (RequirePass (cfg h)) args"
      and later: "\<forall>args \<in> set (requests rest). \<not> presents (RequirePass (cfg h)) args"
      using "1.prems" p Ok by (simp_all add: requests.simps [of input])
    note IH = "1.IH" [OF p [symmetric] Ok]
    have said: "engine (after (client_loop env eng m False rest) (h\<lparr>out := t\<rparr>)) = engine h \<and>
        cfg (after (client_loop env eng m False rest) (h\<lparr>out := t\<rparr>)) = cfg h" for m t
      using IH [of "h\<lparr>out := t\<rparr>" m] later by simp
    have handled: "engine (after (client_loop env eng m False rest) (after (Handle (env n) eng args) h)) = engine h \<and>
        cfg (after (client_loop env eng m False rest) (after (Handle (env n) eng args) h)) = cfg h"
      if "isUnauthenticatedCommand args" for m
      using IH [of "after (Handle (env n) eng args) h" m] later dispatch_unauthenticated [OF that, of "env n" eng h]
      by simp
    show ?thesis
      using no said handled dispatch_unauthenticated [of args "env n" eng h] p Ok
      by (auto simp: client_loop.simps [of _ _ _ _ input] serve_request_def presents_def split: prod.split)
  qed (simp_all add: client_loop.simps [of _ _ _ _ input] p)
qed


text \<open>Nor does such a client learn anything of the database: the run is the same, replies included,
  whatever the engine holds.\<close>

lemma engine_out_upd: "h\<lparr>out := t, engine := e\<rparr> = h\<lparr>engine := e, out := t\<rparr>"
  by (cases h) simp

lemma Handle_unauthenticated_blind:
  assumes "isUnauthenticatedCommand args"
  shows "run_state (Handle env eng args) (h\<lparr>engine := e\<rparr>) =
    (Ok (), (after (Handle env eng args) h)\<lparr>engine := e\<rparr>)"
proof -
  have ne: "args \<noteq> []" and cmd: "ToUpper (args ! 0) \<in> {''PING'', ''QUIT'', ''COMMAND''}"
    using assms by (auto simp: isUnauthenticatedCommand_def Let_def split: if_splits)
  then show ?thesis
    by (auto simp: Handle_def dispatch_def handle_PING_def handle_COMMAND_def handle_default_def)
qed

lemma client_loop_blind:
  assumes "\<forall>args \<in> set (requests input). \<not> presents (RequirePass (cfg h)) args"
  shows "run_state (client_loop env eng n False input) (h\<lparr>engine := e\<rparr>) =
    (runs (client_loop env eng n False input) h, (after (client_loop env eng n False input) h)\<lparr>engine := e\<rparr>)"
  using assms
proof (induction input arbitrary: n h rule: requests.induct)
  case (1 input)
  obtain p rest where p: "Parse input = (p, rest)" by (metis prod.exhaust)
  show ?case
  proof (cases p)
    case (Ok args)
    have no: "\<not> presents (RequirePass (cfg h)) args"
      and later: "\<forall>args \<in> set (requests rest). \<not> presents (RequirePass (cfg h)) args"
      using "1.prems" p Ok by (simp_all add: requests.simps [of input])
    note IH = "1.IH" [OF p [symmetric] Ok]
    have said: "run_state (client_loop env eng m False rest) (h\<lparr>engine := e, out := t\<rparr>) =
        (runs (client_loop env eng m False rest) (h\<lparr>out := t\<rparr>),
         (after (client_loop env eng m False rest) (h\<lparr>out := t\<rparr>))\<lparr>engine := e\<rparr>)" for m t
      using IH [of "h\<lparr>out := t\<rparr>" m] later by (simp add: engine_out_upd)
    show ?thesis
    proof (cases "isUnauthenticatedCommand args")
      case True
      obtain h' where h': "run_state (Handle (env n) eng args) h = (Ok (), h')" "cfg h' = cfg h"
        using dispatch_unauthenticated [OF True, of "env n" eng h] by metis
      have e: "run_state (Handle (env n) eng args) (h\<lparr>engine := e\<rparr>) = (Ok (), h'\<lparr>engine := e\<rparr>)"
        using Handle_unauthenticated_blind [OF True, of "env n" eng e h] h'(1) by simp
      have "ToUpper (args ! 0) \<noteq> ''AUTH''"
        using True by (auto simp: isUnauthenticatedCommand_def Let_def split: if_splits)
      then show ?thesis
        using IH [of h' "Suc n"] later h' e p Ok True by (simp add: client_loop.simps [of _ _ _ _ input] serve_request_def)
    next
      case False
      then show ?thesis
        using no said p Ok by (auto simp: client_loop.simps [of _ _ _ _ input] serve_request_def presents_def)
    qed
  qed (simp_all add: client_loop.simps [of _ _ _ _ input] p)
qed

end
