(* ===== verification/Commands_Spec.thy ===== *)
theory Commands_Spec
  imports Commands Engine_Spec
begin

section \<open>What the command handler promises\<close>

text \<open>
  First the framing of replies, which holds for every engine: each request is answered with
  exactly one reply. Then, inside the contract of the storage engine, what the commands do to
  the database and what they answer. The facts carry over to both engines through the
  interpretations of the contract.
\<close>

subsection \<open>One reply per request\<close>

datatype resp =
    Simple string | Error string | Integer int | Bulk string | Null | Array "string list"

fun render :: "resp \<Rightarrow> string" where
  "render (Simple s) = WriteSimpleString s"
| "render (Error s) = WriteError s"
| "render (Integer n) = WriteInteger n"
| "render (Bulk s) = WriteBulkString s"
| "render Null = WriteNull"
| "render (Array xs) = WriteArray xs"

text \<open>The client's side: reading the replies off the stream. A status line must have no line end in
  it, else what the client reads is not what was meant.\<close>

definition plain :: "string \<Rightarrow> bool" where
  "plain s \<longleftrightarrow> CR \<notin> set s \<and> LF \<notin> set s"

fun framed :: "resp \<Rightarrow> bool" where
  "framed (Simple s) = plain s"
| "framed (Error s) = plain s"
| "framed r = True"

fun read_line :: "string \<Rightarrow> (string \<times> string) option" where
  "read_line (c # d # s) =
     (if c = CR \<and> d = LF then Some ([], s)
      else map_option (\<lambda>(l, r). (c # l, r)) (read_line (d # s)))"
| "read_line s = None"

fun read_number :: "string \<Rightarrow> int" where
  "read_number (c # s) = (if c = CHR ''-'' then - int (digits_val s) else int (digits_val (c # s)))"
| "read_number [] = 0"

definition read_body :: "nat \<Rightarrow> string \<Rightarrow> (string \<times> string) option" where
  "read_body n s = (if take 2 (drop n s) = crlf then Some (take n s, drop (n + 2) s) else None)"

primrec read_items :: "nat \<Rightarrow> string \<Rightarrow> (string list \<times> string) option" where
  "read_items 0 s = Some ([], s)"
| "read_items (Suc n) s =
     (case s of
        [] \<Rightarrow> None
      | c # t \<Rightarrow>
          if c \<noteq> CHR ''$'' then None
          else (case read_line t of
                  None \<Rightarrow> None
                | Some (l, u) \<Rightarrow>
                    (case read_body (nat (read_number l)) u of
                       None \<Rightarrow> None
                     | Some (x, v) \<Rightarrow> map_option (\<lambda>(xs, w). (x # xs, w)) (read_items n v))))"

definition read_reply :: "string \<Rightarrow> (resp \<times> string) option" where
  "read_reply s =
     (case s of
        [] \<Rightarrow> None
      | c # t \<Rightarrow>
          (case read_line t of
             None \<Rightarrow> None
           | Some (l, u) \<Rightarrow>
               if c = CHR ''+'' then Some (Simple l, u)
               else if c = CHR ''-'' then Some (Error l, u)
               else if c = CHR '':'' then Some (Integer (read_number l), u)
               else if c = CHR ''$'' then
                 (if read_number l < 0 then Some (Null, u)
                  else map_option (\<lambda>(x, v). (Bulk x, v)) (read_body (nat (read_number l)) u))
               else if c = CHR ''*'' then
                 map_option (\<lambda>(xs, v). (Array xs, v)) (read_items (nat (read_number l)) u)
               else None))"

lemma read_line_shorter: "read_line s = Some (l, u) \<Longrightarrow> length u < length s"
  by (induction s arbitrary: l rule: read_line.induct) (auto split: if_splits)

lemma read_body_shorter: "read_body n s = Some (x, u) \<Longrightarrow> length u \<le> length s"
  by (auto simp: read_body_def split: if_splits)

lemma read_items_shorter: "read_items n s = Some (xs, u) \<Longrightarrow> length u \<le> length s"
proof (induction n arbitrary: s xs u)
  case (Suc n)
  then show ?case
    by (auto split: list.splits if_splits option.splits dest!: read_line_shorter read_body_shorter)
      (meson Suc.IH le_trans less_imp_le_nat le_SucI)
qed simp

lemma read_reply_shorter: "read_reply s = Some (r, u) \<Longrightarrow> length u < length s"
  by (auto simp: read_reply_def split: list.splits option.splits if_splits
      dest!: read_line_shorter read_body_shorter read_items_shorter)

text \<open>All the replies of a text: \<open>None\<close> when something is left that is not a reply.\<close>

function read_replies :: "string \<Rightarrow> resp list option" where
  "read_replies s =
     (if s = [] then Some []
      else case read_reply s of
             None \<Rightarrow> None
           | Some (r, u) \<Rightarrow> map_option (Cons r) (read_replies u))"
  by pat_completeness auto
termination
  by (relation "measure length") (auto dest: read_reply_shorter)

declare read_replies.simps [simp del]

lemma read_line_plain: "CR \<notin> set l \<Longrightarrow> read_line (l @ crlf @ s) = Some (l, s)"
proof (induction l)
  case (Cons c l)
  then show ?case by (cases l) (auto simp: crlf_def)
qed (simp add: crlf_def)

lemma CR_Itoa: "CR \<notin> set (Itoa n)"
proof -
  have "c \<noteq> CR" if "c \<in> set (nat_digits m)" for c m
    using that nat_digits_all_digits [of m] by (auto simp: list_all_iff is_digit_def CR_def)
  then show ?thesis by (auto simp: Itoa_def CR_def)
qed

lemma read_number_Itoa: "read_number (Itoa n) = n"
proof -
  have "read_number (nat_digits m) = int m" for m
  proof -
    obtain c s where cs: "nat_digits m = c # s" by (cases "nat_digits m") simp_all
    then have "c \<noteq> CHR ''-''" using nat_digits_all_digits [of m] digit_not_sign by simp
    then show ?thesis using digits_val_nat_digits [of m] cs by simp
  qed
  then show ?thesis by (simp add: Itoa_def)
qed

lemma read_body_append: "length x = n \<Longrightarrow> read_body n (x @ crlf @ s) = Some (x, s)"
  by (simp add: read_body_def crlf_def)

lemma read_items_bulks:
  "read_items (length xs) (concat (map WriteBulkString xs) @ s) = Some (xs, s)"
  by (induction xs)
    (simp_all add: WriteBulkString_def read_line_plain [OF CR_Itoa] read_number_Itoa read_body_append)

lemma read_reply_render: "framed r \<Longrightarrow> read_reply (render r @ s) = Some (r, s)"
proof (cases r)
  case Null
  have "read_line (''-1'' @ crlf @ s) = Some (''-1'', s)" by (rule read_line_plain) (simp add: CR_def)
  then show ?thesis
    using Null by (simp add: read_reply_def WriteNull_def digits_val_def digit_val_def)
qed (simp_all add: read_reply_def plain_def WriteSimpleString_def WriteError_def WriteInteger_def
    WriteBulkString_def WriteArray_def read_line_plain CR_Itoa read_number_Itoa read_body_append
    read_items_bulks)

lemma render_not_Nil [simp]: "render r \<noteq> []"
  by (cases r) (simp_all add: WriteSimpleString_def WriteError_def WriteInteger_def
    WriteBulkString_def WriteNull_def WriteArray_def)

lemma read_replies_render: "list_all framed rs \<Longrightarrow> read_replies (concat (map render rs)) = Some rs"
  by (induction rs) (simp_all add: read_replies.simps [of "[]"] read_replies.simps [of "_ @ _"] read_reply_render)

text \<open>A handler that writes one reply; a framed one under the condition \<open>ok\<close>.\<close>

definition replies :: "bool \<Rightarrow> ('s Handler, 'r) state \<Rightarrow> bool" where
  "replies ok m \<longleftrightarrow> (\<forall>h. \<exists>r. (ok \<longrightarrow> framed r) \<and> out (after m h) = out h @ render r)"

definition silent :: "('s Handler, 'r) state \<Rightarrow> bool" where
  "silent m \<longleftrightarrow> (\<forall>h. out (after m h) = out h)"

named_theorems reply_intros \<open>what writes one reply, what writes none\<close>

lemma replies_reply [reply_intros]:
  "(ok \<Longrightarrow> plain s) \<Longrightarrow> replies ok (reply (WriteSimpleString s))"
  "(ok \<Longrightarrow> plain s) \<Longrightarrow> replies ok (reply (WriteError s))"
  "replies ok (reply (WriteInteger n))" "replies ok (reply (WriteBulkString s))"
  "replies ok (reply WriteNull)" "replies ok (reply (WriteArray xs))"
  unfolding replies_def run_reply
  by (auto intro: exI [of _ "Simple s"] exI [of _ "Error s"] exI [of _ "Integer n"]
      exI [of _ "Bulk s"] exI [of _ Null] exI [of _ "Array xs"])

lemma silent_basic [reply_intros]:
  "silent (call_engine m)" "silent (ret x)" "silent State_Monad.get"
  "silent (modify (\<lambda>h. h\<lparr>stats := f h\<rparr>))" "silent (modify (\<lambda>h. h\<lparr>cfg := g h\<rparr>))"
  "silent (modify (\<lambda>h. h\<lparr>orders := k h\<rparr>))"
  by (simp_all add: silent_def case_prod_unfold)

lemma replies_bind [reply_intros]:
  assumes "silent m" and "\<And>x. replies ok (f x)"
  shows "replies ok (m \<bind> f)"
  using assms unfolding replies_def silent_def by (simp add: case_prod_unfold) metis

lemma replies_then_ret [reply_intros]: "replies ok m \<Longrightarrow> replies ok (m \<bind> (\<lambda>_. ret x))"
  by (simp add: replies_def case_prod_unfold)

lemma silent_bind [reply_intros]: "silent m \<Longrightarrow> (\<And>x. silent (f x)) \<Longrightarrow> silent (m \<bind> f)"
  by (simp add: silent_def case_prod_unfold)

lemma silent_loops [reply_intros]:
  "silent (del_loop eng ks n)" "silent (step_loop m j i)" "silent (mset_loop eng kvs)"
  "silent (mget_loop eng ks rs)" "silent (hset_loop eng k kvs n)"
  subgoal by (induction ks arbitrary: n) (auto intro!: reply_intros)
  subgoal by (induction j arbitrary: i) (auto intro!: reply_intros split: sum.split)
  subgoal by (induction eng kvs rule: mset_loop.induct) (auto intro!: reply_intros)
  subgoal by (induction ks arbitrary: rs) (auto intro!: reply_intros)
  subgoal by (induction eng k kvs n rule: hset_loop.induct) (auto intro!: reply_intros)
  done

lemma silent_configGet_loop [reply_intros]: "silent (configGet_loop ps rs :: ('s Handler, _) state)"
  by (induction ps arbitrary: rs) (auto simp: Let_def intro!: reply_intros)

lemma silent_or_exists [reply_intros]: "silent (or_exists eng m k)"
  by (auto simp: or_exists_def intro!: reply_intros)

lemmas handle_defs =
  handle_PING_def handle_SET_def handle_GET_def handle_DEL_def handle_EXISTS_def handle_INCR_def
  handle_DECR_def handle_INCRBY_def handle_DECRBY_def handle_EXPIRE_def handle_TTL_def
  handle_PERSIST_def handle_KEYS_def handle_FLUSHALL_def handle_DBSIZE_def handle_COMMAND_def
  handle_RENAME_def handle_TYPE_def handle_APPEND_def handle_STRLEN_def handle_MSET_def
  handle_MGET_def handle_RANDOMKEY_def handle_LPUSH_def handle_RPUSH_def handle_LPOP_def
  handle_RPOP_def handle_LLEN_def handle_LRANGE_def handle_LINDEX_def handle_SADD_def
  handle_SREM_def handle_SMEMBERS_def handle_SISMEMBER_def handle_SCARD_def handle_SPOP_def
  handle_SRANDMEMBER_def handle_HSET_def handle_HGET_def handle_HDEL_def handle_HGETALL_def
  handle_HKEYS_def handle_HVALS_def handle_HEXISTS_def handle_HLEN_def handle_HMSET_def
  handle_HMGET_def

lemma replies_if: "(b \<Longrightarrow> replies ok m) \<Longrightarrow> (\<not> b \<Longrightarrow> replies ok n) \<Longrightarrow> replies ok (if b then m else n)"
  by simp

lemma replies_case [reply_intros]:
  "(\<And>x. replies ok (f x)) \<Longrightarrow> (\<And>y. replies ok (g y)) \<Longrightarrow> replies ok (case s of Inl x \<Rightarrow> f x | Inr y \<Rightarrow> g y)"
  "replies ok m \<Longrightarrow> (\<And>y. replies ok (k y)) \<Longrightarrow> replies ok (case op of None \<Rightarrow> m | Some y \<Rightarrow> k y)"
  "replies ok m \<Longrightarrow> (\<And>y ys. replies ok (c y ys)) \<Longrightarrow> replies ok (case xs of [] \<Rightarrow> m | y # ys \<Rightarrow> c y ys)"
  by (simp_all split: sum.split option.split list.split)

lemmas plain_defs = plain_def CR_def LF_def

lemma replies_configSet: "replies ok (configSet k v)"
  unfolding configSet_def set_cfg_def Let_def
  by (intro replies_if reply_intros; simp add: plain_defs)

lemma replies_CONFIG: "replies ok (handle_CONFIG eng args)"
  unfolding handle_CONFIG_def configGet_def
  by (intro replies_if reply_intros replies_configSet; simp add: plain_defs)

text \<open>The one reply with text of the client in it is that to an unknown command.\<close>

lemma replies_dispatch: "replies (plain (args ! 0)) (dispatch eng cmd args)"
  unfolding dispatch_def handle_default_def
  by (intro replies_if replies_CONFIG; (unfold handle_defs)?, (intro replies_if reply_intros)?;
      simp add: plain_defs)

lemma InfoSection_total [simp]: "InfoSection env n s \<noteq> None"
  using ops_divisor_pos [of env] formatBytes_total [of "mem_Alloc env"]
  by (auto simp: InfoSection_def)

lemma Handle_Ok: "runs (Handle env eng args) h = Ok ()"
  by (auto simp: Handle_def handle_INFO_def Let_def case_prod_unfold split: option.split)

definition plain_name :: "string list \<Rightarrow> bool" where
  "plain_name args \<longleftrightarrow> args = [] \<or> plain (args ! 0)"

lemma Handle_replies:
  "\<exists>r. (plain_name args \<longrightarrow> framed r) \<and> out (after (Handle env eng args) h) = out h @ render r"
proof -
  have "replies ok (handle_INFO env eng)" for ok
    unfolding handle_INFO_def
  proof (rule replies_bind, rule reply_intros, rule replies_bind, rule reply_intros)
    fix n and h :: "'a Handler"
    obtain t where "InfoSection env n (stats h) = Some t" using InfoSection_total by blast
    then show "replies ok (case InfoSection env n (stats h) of None \<Rightarrow> ret Panic
        | Some text \<Rightarrow> do { reply (WriteBulkString text); ret (Ok ()) })"
      by (simp add: reply_intros)
  qed
  moreover have "replies (plain_name args) (dispatch eng cmd args)" if "args \<noteq> []" for cmd
    using replies_dispatch [of args eng cmd] that by (simp add: plain_name_def)
  ultimately have "replies (plain_name args) (Handle env eng args)"
    unfolding Handle_def Let_def
    by (intro replies_if replies_then_ret reply_intros; simp add: plain_defs)
  then show ?thesis by (simp add: replies_def)
qed

subsection \<open>Commands on keys and strings\<close>

lemma call_engine_bind:
  "run_state (call_engine m \<bind> f) h = run_state (f (runs m (engine h))) (h\<lparr>engine := after m (engine h)\<rparr>)"
  by (simp add: case_prod_unfold)

text \<open>The number a counter holds after a step.\<close>

lemma counter_value_bump:
  "counter_value e = Some n \<Longrightarrow> counter_value (bump i e) = Some (wrap64 (n + i))"
  using Atoi_Itoa [of "wrap64 (n + i)"] by (simp add: bump_def counter_value_def)

definition bumped :: "int \<Rightarrow> entry \<Rightarrow> entry" where
  "bumped n e = e\<lparr>str := Some (Itoa (wrap64 n))\<rparr>"

context keyspace_engine
begin

lemma GET_effect:
  assumes "ok (engine h)" and "length args = 2"
  defines "h' \<equiv> after (handle_GET eng args) h"
  shows "ok (engine h')"
    "out h' = out h @ (case get_result (clk (engine h)) (db (engine h) (args ! 1)) of
       Inl err \<Rightarrow> WriteNull | Inr v \<Rightarrow> WriteBulkString v)"
    "db (engine h') = (db (engine h))(args ! 1 := get_entry (clk (engine h)) (db (engine h) (args ! 1)))"
  using doesD [OF Get assms(1), of "args ! 1"] assms(2)
  by (simp_all add: h'_def handle_GET_def spec_Get_def case_prod_unfold split: sum.split)

lemma SET_effect:
  assumes "ok (engine h)" and "3 \<le> length args"
  defines "h' \<equiv> after (handle_SET eng args) h"
  shows "ok (engine h')" "clk (engine h) \<le> clk (engine h')"
    "out h' = out h @ WriteSimpleString ''OK''"
    "db (engine h') =
       (if runs (eSet eng (args ! 1) (args ! 2)) (engine h) = None
        then (db (engine h))(args ! 1 := set_entry (args ! 2) (db (engine h) (args ! 1)))
        else db (engine h))"
  using doesD [OF Set assms(1), of "args ! 1" "args ! 2"] assms(2)
  by (simp_all add: h'_def handle_SET_def spec_Set_def case_prod_unfold)

lemma SET_GET_reply:
  fixes c c' :: string
  assumes "ok (engine h)" and "runs (eSet eng k v) (engine h) = None"
  defines "h' \<equiv> after (handle_SET eng [c, k, v]) h"
  shows "out (after (handle_GET eng [c', k]) h') = out h' @ WriteBulkString v"
proof -
  note set = SET_effect [of h "[c, k, v]", OF assms(1), folded h'_def]
  have "db (engine h') k = set_entry v (db (engine h) k)" using set(4) assms(2) by simp
  then have "get_result t (db (engine h') k) = Inr v" for t
    by (simp add: get_result_def set_entry_def expired_def)
  then show ?thesis using GET_effect(2) [of h' "[c', k]"] set(1) by simp
qed

lemma del_loop_effect:
  assumes "ok (engine h)"
  shows "\<exists>D. D \<subseteq> set ks \<and> (\<forall>k \<in> D. present (db (engine h) k)) \<and>
    runs (del_loop eng ks n) h = n + card D \<and> ok (engine (after (del_loop eng ks n) h)) \<and>
    out (after (del_loop eng ks n) h) = out h \<and>
    db (engine (after (del_loop eng ks n) h)) = (\<lambda>k. if k \<in> D then no_entry else db (engine h) k)"
  using assms
proof (induction ks arbitrary: n h)
  case Nil
  then show ?case by (intro exI [of _ "{}"]) simp
next
  case (Cons k ks)
  let ?r = "runs (eDel eng k) (engine h)" and ?h = "h\<lparr>engine := after (eDel eng k) (engine h)\<rparr>"
  let ?n = "if ?r = None then n + 1 else n"
  have d: "ok (engine ?h)" "db (engine ?h) = (if ?r = None then (db (engine h))(k := no_entry) else db (engine h))"
    "?r = None \<Longrightarrow> present (db (engine h) k)"
    using doesD [OF Del Cons.prems, of k] by (simp_all add: spec_Del_def)
  obtain D where D: "D \<subseteq> set ks" "\<forall>k \<in> D. present (db (engine ?h) k)"
    "runs (del_loop eng ks ?n) ?h = ?n + card D" "ok (engine (after (del_loop eng ks ?n) ?h))"
    "out (after (del_loop eng ks ?n) ?h) = out ?h"
    "db (engine (after (del_loop eng ks ?n) ?h)) = (\<lambda>k. if k \<in> D then no_entry else db (engine ?h) k)"
    using Cons.IH [OF d(1), of ?n] by blast
  have run: "run_state (del_loop eng (k # ks) n) h = run_state (del_loop eng ks ?n) ?h"
    by (simp only: del_loop.simps call_engine_bind)
  have fin: "finite D" using D(1) finite_subset by blast
  show ?case
  proof (cases "?r = None")
    case True
    have "k \<notin> D" using D(2) d(2) True by (auto simp: present_def no_entry_def)
    moreover have "\<forall>j \<in> D. present (db (engine h) j)"
      using D(2) d(2) True by (auto simp: present_def no_entry_def split: if_splits)
    ultimately show ?thesis
      unfolding run using D d True fin
      by (intro exI [of _ "insert k D"]) (auto simp: fun_eq_iff)
  next
    case False
    then show ?thesis unfolding run using D d by (intro exI [of _ D]) auto
  qed
qed

text \<open>INCRBY and DECRBY: repeated steps add up, and an error leaves what was done so far.\<close>

lemma step_loop_effect:
  assumes "\<And>s. ok s \<Longrightarrow> ok (after m s) \<and> spec_bump i k (clk s) (db s) (runs m s) (db (after m s))"
    and "ok (engine h)" and "runs (step_loop m n r0) h = Inr r" and "0 < n"
  shows "\<exists>v. counter_value (db (engine h) k) = Some v \<and> r = wrap64 (v + int n * i) \<and>
    db (engine (after (step_loop m n r0) h)) =
      (db (engine h))(k := bumped (v + int n * i) (db (engine h) k))"
  using assms(2-)
proof (induction n arbitrary: h r0)
  case (Suc n)
  let ?h = "h\<lparr>engine := after m (engine h)\<rparr>"
  have run: "run_state (step_loop m (Suc n) r0) h =
      run_state (case runs m (engine h) of Inl err \<Rightarrow> ret (Inl err) | Inr res \<Rightarrow> step_loop m n res) ?h"
    by (simp only: step_loop.simps call_engine_bind)
  obtain x where x: "runs m (engine h) = Inr x"
    using Suc.prems(2) run by (cases "runs m (engine h)") auto
  have spec: "ok (engine ?h)" "bump_result i (db (engine h) k) = Inr x"
    "db (engine ?h) = (db (engine h))(k := bump i (db (engine h) k))"
    using assms(1) [OF Suc.prems(1)] x by (simp_all add: spec_bump_def)
  obtain v where v: "counter_value (db (engine h) k) = Some v" "x = wrap64 (v + i)"
    using spec(2) by (auto simp: bump_result_def split: option.splits)
  have b: "bump i (db (engine h) k) = bumped (v + i) (db (engine h) k)"
    using v(1) by (simp add: bump_def bumped_def)
  show ?case
  proof (cases "0 < n")
    case False
    then show ?thesis using run x spec v b Suc.prems(2) by simp
  next
    case True
    have "runs (step_loop m n x) ?h = Inr r" using run x Suc.prems(2) by simp
    then obtain v' where v': "counter_value (db (engine ?h) k) = Some v'" "r = wrap64 (v' + int n * i)"
      "db (engine (after (step_loop m n x) ?h)) = (db (engine ?h))(k := bumped (v' + int n * i) (db (engine ?h) k))"
      using Suc.IH [OF spec(1) _ True] by blast
    have "v' = wrap64 (v + i)"
      using v'(1) spec(3) counter_value_bump [OF v(1), of i] by simp
    then have "wrap64 (v' + int n * i) = wrap64 (v + int (Suc n) * i)"
      using wrap64_add_wrap64 [of "v + i" "int n * i"] by (simp add: algebra_simps)
    then show ?thesis
      using run x v v' spec(3) b by (simp add: bumped_def fun_upd_def fun_eq_iff)
  qed
qed simp

lemma Incr_step: "ok s \<Longrightarrow> ok (after (eIncr eng k) s) \<and>
    spec_bump 1 k (clk s) (db s) (runs (eIncr eng k) s) (db (after (eIncr eng k) s))"
  using doesD [OF Incr] by blast

lemma Decr_step: "ok s \<Longrightarrow> ok (after (eDecr eng k) s) \<and>
    spec_bump (-1) k (clk s) (db s) (runs (eDecr eng k) s) (db (after (eDecr eng k) s))"
  using doesD [OF Decr] by blast

end

context keyspace_engine
begin

lemma RENAME_effect:
  fixes a b c v :: string
  assumes "ok (engine h)" and "get_result (clk (engine h)) (db (engine h) a) = Inr v"
  defines "s1 \<equiv> after (eGet eng a) (engine h)"
  defines "s2 \<equiv> after (eSet eng b v) s1"
  assumes "runs (eSet eng b v) s1 = None" and "runs (eDel eng a) s2 = None"
  shows "out (after (handle_RENAME eng [c, a, b]) h) = out h @ WriteSimpleString ''OK''"
    "db (engine (after (handle_RENAME eng [c, a, b]) h)) =
      (db (engine h))(b := set_entry v (db (engine h) b), a := no_entry)"
proof -
  have g: "ok s1" "runs (eGet eng a) (engine h) = Inr v"
    "db s1 = (db (engine h))(a := get_entry (clk (engine h)) (db (engine h) a))"
    using doesD [OF Get assms(1), of a] assms(2) by (simp_all add: s1_def spec_Get_def)
  have live: "get_entry (clk (engine h)) (db (engine h) a) = db (engine h) a"
    using assms(2) by (auto simp: get_result_def get_entry_def split: option.splits if_splits)
  have s: "ok s2" "db s2 = (db s1)(b := set_entry v (db s1 b))"
    using doesD [OF Set g(1), of b v] assms(5) by (simp_all add: s2_def spec_Set_def)
  have d: "db (after (eDel eng a) s2) = (db s2)(a := no_entry)"
    using doesD [OF Del s(1), of a] assms(6) by (simp add: spec_Del_def)
  have run: "after (handle_RENAME eng [c, a, b]) h =
      h\<lparr>engine := after (eDel eng a) s2, out := out h @ WriteSimpleString ''OK''\<rparr>"
    using g(2) by (simp add: handle_RENAME_def case_prod_unfold s1_def s2_def)
  show "out (after (handle_RENAME eng [c, a, b]) h) = out h @ WriteSimpleString ''OK''"
    unfolding run by simp
  show "db (engine (after (handle_RENAME eng [c, a, b]) h)) =
      (db (engine h))(b := set_entry v (db (engine h) b), a := no_entry)"
    unfolding run using g(3) live s(2) d by simp
qed

lemma EXPIRE_effect:
  fixes c k n :: string
  assumes "ok (engine h)" and "Atoi n = Some secs" and "0 \<le> secs"
  defines "h' \<equiv> after (handle_EXPIRE eng [c, k, n]) h"
  shows "ok (engine h')" "clk (engine h) \<le> clk (engine h')"
    "out h' = out h @ WriteInteger (if present (db (engine h) k) then 1 else 0)"
    "db (engine h') = (if present (db (engine h) k)
       then (db (engine h))(k := (db (engine h) k)\<lparr>expiry := Some (clk (engine h) + wrap64 (secs * 1000000000))\<rparr>)
       else db (engine h))"
  using doesD [OF Expire assms(1), of k "wrap64 (secs * 1000000000)"] assms(2,3)
  by (simp_all add: h'_def handle_EXPIRE_def spec_Expire_def case_prod_unfold)

lemma TTL_effect:
  assumes "ok (engine h)"
  shows "out (after (handle_TTL eng [c, k]) h) = out h @ WriteInteger
    (let r = ttl_of (clk (engine h)) (db (engine h) k)
     in if r \<in> {-2, -1} then r else int (float_int (Duration_Seconds (nat r))))"
  using doesD [OF TTL assms, of k]
  by (auto simp: handle_TTL_def spec_TTL_def case_prod_unfold Let_def)

lemma EXISTS_effect:
  assumes "ok (engine h)"
  shows "out (after (handle_EXISTS eng [c, k]) h) =
    out h @ WriteInteger (if live (clk (engine h)) (db (engine h) k) then 1 else 0)"
  using doesD [OF Exists assms, of k]
  by (simp add: handle_EXISTS_def spec_Exists_def case_prod_unfold)

end

context storage_engine
begin

lemma or_exists_effect:
  assumes "ok (engine h)" and "does ok db clk m (\<lambda>t d r d'. r = f (d k) \<and> d' = d)"
  defines "b \<equiv> runs (or_exists eng m k) h" and "h' \<equiv> after (or_exists eng m k) h"
  shows "ok (engine h')" "out h' = out h" "clk (engine h) \<le> clk (engine h')"
    "\<not> b \<Longrightarrow> f (db (engine h) k) = 0 \<and> \<not> present (db (engine h') k)"
    "b \<Longrightarrow> 0 < f (db (engine h) k) \<or> present (db (engine h) k)"
proof -
  let ?s = "after m (engine h)"
  have m: "ok ?s" "clk (engine h) \<le> clk ?s" "runs m (engine h) = f (db (engine h) k)" "db ?s = db (engine h)"
    using doesD [OF assms(2,1)] by simp_all
  have e: "ok (after (eExists eng k) ?s)" "clk ?s \<le> clk (after (eExists eng k) ?s)"
    "runs (eExists eng k) ?s = live (clk ?s) (db (engine h) k)"
    "db (after (eExists eng k) ?s) = (db (engine h))(k := if present (db (engine h) k) \<and>
       expired (clk ?s) (db (engine h) k) then no_entry else db (engine h) k)"
    using doesD [OF Exists m(1), of k] m(4) by (simp_all add: spec_Exists_def)
  have run: "run_state (or_exists eng m k) h =
      (if f (db (engine h) k) > 0 then (True, h\<lparr>engine := ?s\<rparr>)
       else (live (clk ?s) (db (engine h) k), h\<lparr>engine := after (eExists eng k) ?s\<rparr>))"
    using m(3) e(3) by (simp add: or_exists_def case_prod_unfold)
  show "ok (engine h')" "out h' = out h" "clk (engine h) \<le> clk (engine h')"
    using m e unfolding h'_def run by simp_all
  show "f (db (engine h) k) = 0 \<and> \<not> present (db (engine h') k)" if "\<not> b"
    using that m(4) e(4) unfolding b_def h'_def run
    by (auto simp: live_def present_def no_entry_def split: if_splits)
  show "0 < f (db (engine h) k) \<or> present (db (engine h) k)" if "b"
    using that unfolding b_def run by (auto simp: live_def split: if_splits)
qed

lemma or_exists_value:
  assumes "ok (engine h)" and "does ok db clk m (\<lambda>t d r d'. r = f (d k) \<and> d' = d)"
  shows "\<exists>t. runs (or_exists eng m k) h \<longleftrightarrow> 0 < f (db (engine h) k) \<or> live t (db (engine h) k)"
proof -
  let ?s = "after m (engine h)"
  have m: "ok ?s" "runs m (engine h) = f (db (engine h) k)" "db ?s = db (engine h)"
    using doesD [OF assms(2,1)] by simp_all
  then have "runs (eExists eng k) ?s = live (clk ?s) (db (engine h) k)"
    using doesD [OF Exists m(1), of k] by (simp add: spec_Exists_def)
  then show ?thesis using m(2) by (intro exI [of _ "clk ?s"]) (simp add: or_exists_def case_prod_unfold)
qed

text \<open>TYPE answers string, list or none; a live set or hash is called a list.\<close>

lemma TYPE_effect:
  assumes "ok (engine h)"
  shows "out (after (handle_TYPE eng [c, k]) h) =
    out h @ WriteSimpleString
      (if \<not> isl (get_result (clk (engine h)) (db (engine h) k)) then ''string''
       else if runs (or_exists eng (eLLen eng k) k) (h\<lparr>engine := after (eGet eng k) (engine h)\<rparr>) then ''list''
       else ''none'')"
proof -
  let ?h1 = "h\<lparr>engine := after (eGet eng k) (engine h)\<rparr>"
  let ?h2 = "after (or_exists eng (eLLen eng k) k) ?h1"
  let ?h3 = "after (or_exists eng (eSCard eng k) k) ?h2"
  have ok1: "ok (engine ?h1)" using doesD [OF Get assms, of k] by simp
  have g: "runs (eGet eng k) (engine h) = get_result (clk (engine h)) (db (engine h) k)"
    using doesD [OF Get assms, of k] by (simp add: spec_Get_def)
  have len: "does ok db clk (eLLen eng k) (\<lambda>t d r d'. r = length (the_list (d k)) \<and> d' = d)"
    and card: "does ok db clk (eSCard eng k) (\<lambda>t d r d'. r = fcard (the_mems (d k)) \<and> d' = d)"
    and hlen: "does ok db clk (eHLen eng k) (\<lambda>t d r d'. r = map_len (the_flds (d k)) \<and> d' = d)"
    using LLen SCard HLen by (simp_all add: spec_LLen_def [abs_def] spec_SCard_def [abs_def] spec_HLen_def [abs_def])
  note l = or_exists_effect [OF ok1 len]
  note s = or_exists_effect [OF l(1) card]
  note f = or_exists_effect [OF s(1) hlen]
  have none: "fcard (the_mems e) = 0 \<and> map_len (the_flds e) = 0" if "\<not> present e" for e
    using that by (simp add: present_def the_mems_def the_flds_def)
  have "\<not> runs (or_exists eng (eSCard eng k) k) ?h2 \<and> \<not> runs (or_exists eng (eHLen eng k) k) ?h3"
    if no: "\<not> runs (or_exists eng (eLLen eng k) k) ?h1"
  proof -
    have 2: "\<not> present (db (engine ?h2) k)" using l(4) no by simp
    then have b: "\<not> runs (or_exists eng (eSCard eng k) k) ?h2" using s(5) none by auto
    then have "\<not> present (db (engine ?h3) k)" using s(4) by simp
    then have "\<not> runs (or_exists eng (eHLen eng k) k) ?h3" using f(5) none by auto
    with b show ?thesis by simp
  qed
  then show ?thesis
    using g l(2) s(2) f(2) by (simp add: handle_TYPE_def case_prod_unfold)
qed

end

subsection \<open>Engines that never refuse a write\<close>

text \<open>The last value a list of pairs gives a key.\<close>

fun last_value :: "string list \<Rightarrow> string \<Rightarrow> string option" where
  "last_value (k # v # rest) x =
     (case last_value rest x of Some w \<Rightarrow> Some w | None \<Rightarrow> if x = k then Some v else None)"
| "last_value _ x = None"

text \<open>The memory engine also promises that writes succeed; batches of writes then behave as
  one.\<close>

locale reliable_engine = keyspace_engine eng ok db clk
  for eng :: "'s StorageEngine" and ok db clk +
  assumes Set_ok: "ok s \<Longrightarrow> runs (eSet eng k v) s = None"
    and Del_ok: "ok s \<Longrightarrow> runs (eDel eng k) s = None \<longleftrightarrow> present (db s k)"
    and Incr_ok: "ok s \<Longrightarrow> isl (runs (eIncr eng k) s) \<longleftrightarrow> counter_value (db s k) = None"
begin

lemma del_loop_exact:
  assumes "ok (engine h)"
  shows "runs (del_loop eng ks n) h = n + card {k \<in> set ks. present (db (engine h) k)}"
  using assms
proof (induction ks arbitrary: n h)
  case (Cons k ks)
  let ?r = "runs (eDel eng k) (engine h)" and ?h = "h\<lparr>engine := after (eDel eng k) (engine h)\<rparr>"
  let ?n = "if ?r = None then n + 1 else n"
  have d: "ok (engine ?h)" "db (engine ?h) = (if ?r = None then (db (engine h))(k := no_entry) else db (engine h))"
    using doesD [OF Del Cons.prems, of k] by (simp_all add: spec_Del_def)
  have r: "?r = None \<longleftrightarrow> present (db (engine h) k)" using Del_ok Cons.prems by simp
  have "runs (del_loop eng (k # ks) n) h = ?n + card {j \<in> set ks. present (db (engine ?h) j)}"
    unfolding del_loop.simps call_engine_bind by (rule Cons.IH [OF d(1)])
  also have "\<dots> = n + card {j \<in> set (k # ks). present (db (engine h) j)}"
  proof (cases "present (db (engine h) k)")
    case True
    have "{j \<in> set (k # ks). present (db (engine h) j)}
        = insert k {j \<in> set ks. present (db (engine ?h) j)}"
      using True r d(2) by (auto simp: present_def no_entry_def)
    moreover have "k \<notin> {j \<in> set ks. present (db (engine ?h) j)}"
      using True r d(2) by (simp add: present_def no_entry_def)
    ultimately show ?thesis using True r by simp
  next
    case False
    then have "{j \<in> set (k # ks). present (db (engine h) j)} = {j \<in> set ks. present (db (engine ?h) j)}"
      using r d(2) by auto
    then show ?thesis using False r by simp
  qed
  finally show ?case .
qed simp

lemma Incr_step_ok:
  assumes "ok (engine h)" and "counter_value (db (engine h) k) = Some v"
  defines "h' \<equiv> h\<lparr>engine := after (eIncr eng k) (engine h)\<rparr>"
  shows "\<exists>x. runs (eIncr eng k) (engine h) = Inr x" "ok (engine h')"
    "counter_value (db (engine h') k) \<noteq> None"
proof -
  show x: "\<exists>x. runs (eIncr eng k) (engine h) = Inr x"
    using Incr_ok [OF assms(1), of k] assms(2) by (cases "runs (eIncr eng k) (engine h)") auto
  show "ok (engine h')" using Incr_step [OF assms(1), of k] by (simp add: h'_def)
  have "db (engine h') k = bump 1 (db (engine h) k)"
    using Incr_step [OF assms(1), of k] x by (auto simp: h'_def spec_bump_def)
  then show "counter_value (db (engine h') k) \<noteq> None"
    using counter_value_bump [OF assms(2), of 1] by simp
qed

lemma step_loop_succeeds:
  assumes "ok (engine h)" and "counter_value (db (engine h) k) \<noteq> None"
  shows "\<exists>r. runs (step_loop (eIncr eng k) n r0) h = Inr r"
  using assms
proof (induction n arbitrary: h r0)
  case (Suc n)
  then obtain v where "counter_value (db (engine h) k) = Some v" by blast
  note s = Incr_step_ok [OF Suc.prems(1) this]
  then show ?case
    using Suc.IH [OF s(2,3)] by (auto simp only: step_loop.simps call_engine_bind sum.case)
qed simp

lemma step_loop_fails:
  assumes "ok (engine h)" and "counter_value (db (engine h) k) = None" and "0 < n"
  shows "isl (runs (step_loop (eIncr eng k) n r0) h)"
    "db (engine (after (step_loop (eIncr eng k) n r0) h)) = db (engine h)"
proof -
  obtain e where e: "runs (eIncr eng k) (engine h) = Inl e"
    using Incr_ok [OF assms(1), of k] assms(2) by (auto simp: isl_def)
  then have same: "db (after (eIncr eng k) (engine h)) = db (engine h)"
    using Incr_step [OF assms(1), of k] by (simp add: spec_bump_def)
  obtain m where "n = Suc m" using assms(3) gr0_conv_Suc by blast
  then have "run_state (step_loop (eIncr eng k) n r0) h = (Inl e, h\<lparr>engine := after (eIncr eng k) (engine h)\<rparr>)"
    using e by (simp only: step_loop.simps call_engine_bind sum.case) simp
  then show "isl (runs (step_loop (eIncr eng k) n r0) h)"
    "db (engine (after (step_loop (eIncr eng k) n r0) h)) = db (engine h)"
    using same by simp_all
qed

lemma mset_loop_effect:
  assumes "ok (engine h)"
  shows "ok (engine (after (mset_loop eng kvs) h))"
    "db (engine (after (mset_loop eng kvs) h)) =
      (\<lambda>k. case last_value kvs k of None \<Rightarrow> db (engine h) k | Some v \<Rightarrow> set_entry v (db (engine h) k))"
proof -
  have "ok (engine (after (mset_loop eng kvs) h)) \<and>
    db (engine (after (mset_loop eng kvs) h)) =
      (\<lambda>k. case last_value kvs k of None \<Rightarrow> db (engine h) k | Some v \<Rightarrow> set_entry v (db (engine h) k))"
    using assms
  proof (induction kvs arbitrary: h rule: induct_list012)
    case (3 k v rest)
    let ?h = "h\<lparr>engine := after (eSet eng k v) (engine h)\<rparr>"
    have s: "ok (engine ?h)" "db (engine ?h) = (db (engine h))(k := set_entry v (db (engine h) k))"
      using doesD [OF Set "3.prems", of k v] Set_ok [OF "3.prems", of k v] by (simp_all add: spec_Set_def)
    have "run_state (mset_loop eng (k # v # rest)) h = run_state (mset_loop eng rest) ?h"
      by (simp add: case_prod_unfold)
    with "3.IH"(1) [OF s(1)] s(2) show ?case
      by (auto simp: fun_eq_iff set_entry_def split: option.split)
  qed simp_all
  then show "ok (engine (after (mset_loop eng kvs) h))"
    "db (engine (after (mset_loop eng kvs) h)) =
      (\<lambda>k. case last_value kvs k of None \<Rightarrow> db (engine h) k | Some v \<Rightarrow> set_entry v (db (engine h) k))"
    by simp_all
qed

end

interpretation memr: reliable_engine MemoryEngine_methods mem_ok mem_db mem_clk
proof unfold_locales
  fix s :: "'a mem_state" and k v
  show "runs (eSet MemoryEngine_methods k v) s = None"
    by (cases s) (simp add: MemoryEngine_methods_def MemoryEngine_Set_def exec_def)
  show "runs (eDel MemoryEngine_methods k) s = None \<longleftrightarrow> present (mem_db s k)"
    by (cases s) (simp add: MemoryEngine_methods_def MemoryEngine_Del_def call_def mem_db_def
        Store_Del_result case_prod_unfold)
  show "isl (runs (eIncr MemoryEngine_methods k) s) \<longleftrightarrow> counter_value (mem_db s k) = None"
    by (cases s) (simp add: MemoryEngine_methods_def MemoryEngine_Incr_def call_def mem_db_def
        Store_Incr_result bump_result_def case_prod_unfold split: option.split)
qed


subsection \<open>Properties\<close>

text \<open>A handler on the memory engine, for examples: one string in the store, the clock at 0.\<close>

definition example_handler :: "(unit mem_state) Handler" where
  "example_handler = NewHandler
     (\<lparr>store = Store_Set ''k'' ''5'' NewStore\<rparr>, \<lparr>clock = 0, ticks = [], picks = []\<rparr>) Default New []"

lemma example_handler_ok: "mem_ok (engine example_handler)"
  by (simp add: example_handler_def NewHandler_def mem_ok_def wf_intros)

lemma example_handler_db:
  "mem_db (engine example_handler) = (\<lambda>_. no_entry)(''k'' := no_entry\<lparr>str := Some ''5''\<rparr>)"
  by (simp add: example_handler_def NewHandler_def mem_db_def view_simps wf_intros no_entry_def fun_eq_iff)

lemma example_handler_clk: "mem_clk (engine example_handler) = 0"
  by (simp add: example_handler_def NewHandler_def mem_clk_def)

lemmas example_handler = example_handler_ok example_handler_db example_handler_clk

text \<open>DEL on the memory engine. The reply is the number of different keys among the arguments that
  were present; exactly these keys are gone afterwards, with the values of every type and the deadline,
  and no other key is touched.\<close>

theorem del_counts_present:
  fixes c :: string
  assumes "mem_ok (engine h)" and "ks \<noteq> []"
  defines "h' \<equiv> after (handle_DEL MemoryEngine_methods (c # ks)) h"
  shows "out h' = out h @ WriteInteger (int (card {k \<in> set ks. present (mem_db (engine h) k)})) \<and>
    mem_db (engine h') = (\<lambda>k. if k \<in> set ks \<and> present (mem_db (engine h) k) then no_entry else mem_db (engine h) k)"
proof -
  let ?P = "{k \<in> set ks. present (mem_db (engine h) k)}"
  obtain D where D: "D \<subseteq> set ks" "\<forall>k \<in> D. present (mem_db (engine h) k)"
    "runs (del_loop MemoryEngine_methods ks 0) h = card D"
    "out (after (del_loop MemoryEngine_methods ks 0) h) = out h"
    "mem_db (engine (after (del_loop MemoryEngine_methods ks 0) h)) = (\<lambda>k. if k \<in> D then no_entry else mem_db (engine h) k)"
    using mem.del_loop_effect [OF assms(1), of ks 0] by auto
  have "card D = card ?P" using memr.del_loop_exact [OF assms(1), of ks 0] D(3) by simp
  moreover have "D \<subseteq> ?P" using D(1,2) by blast
  ultimately have "D = ?P" by (intro card_subset_eq) simp_all
  with D(3-5) assms(2) show ?thesis
    by (auto simp: h'_def handle_DEL_def case_prod_unfold Suc_le_eq)
qed

theorem del_counts_present_witness:
  "out (after (handle_DEL MemoryEngine_methods [''DEL'', ''k'', ''x'', ''k'']) example_handler) =
     out example_handler @ WriteInteger 1"
proof -
  have "{k \<in> set [''k'', ''x'', ''k'']. present (mem_db (engine example_handler) k)} = {''k''}"
    by (auto simp: example_handler present_def no_entry_def)
  then show ?thesis
    using del_counts_present [OF example_handler_ok, of "[''k'', ''x'', ''k'']" "''DEL''"] by simp
qed

text \<open>INCRBY on the memory engine. A positive amount is added modulo \<open>2 ^ 64\<close> in the two's
  complement range and the sum is both stored and answered, the deadline of the key being kept; a key
  that holds no number gives an error and no change. An amount of zero or less is answered with 0,
  whatever the key holds, and changes nothing.\<close>

theorem incrby_exact:
  fixes c k :: string
  assumes "mem_ok (engine h)" and "Atoi n = Some i"
  defines "h' \<equiv> after (handle_INCRBY MemoryEngine_methods [c, k, n]) h"
  shows "if i \<le> 0 then out h' = out h @ WriteInteger 0 \<and> mem_db (engine h') = mem_db (engine h)
    else case counter_value (mem_db (engine h) k) of
      None \<Rightarrow> out h' = out h @ WriteError ''ERR value is not an integer or out of range'' \<and>
        mem_db (engine h') = mem_db (engine h)
    | Some v \<Rightarrow> out h' = out h @ WriteInteger (wrap64 (v + i)) \<and>
        mem_db (engine h') = (mem_db (engine h))(k := bumped (v + i) (mem_db (engine h) k))"
proof -
  let ?m = "eIncr MemoryEngine_methods k"
  let ?loop = "step_loop ?m (nat i) 0"
  have quiet: "out (after ?loop h) = out h" using silent_loops(2) unfolding silent_def by blast
  have run: "h' = after (do { r \<leftarrow> ?loop;
      (case r of Inl err \<Rightarrow> reply (WriteError ''ERR value is not an integer or out of range'')
       | Inr res \<Rightarrow> reply (WriteInteger res)) }) h"
    using assms(2) by (simp add: h'_def handle_INCRBY_def)
  show ?thesis
  proof (cases "0 < i")
    case False
    then show ?thesis by (simp add: run)
  next
    case pos: True
    show ?thesis
    proof (cases "counter_value (mem_db (engine h) k)")
      case None
      with memr.step_loop_fails [OF assms(1) None, of "nat i" 0] pos quiet show ?thesis
        by (auto simp: run case_prod_unfold isl_def)
    next
      case (Some v)
      then obtain r where r: "runs ?loop h = Inr r"
        using memr.step_loop_succeeds [OF assms(1)] by fastforce
      with mem.step_loop_effect [OF mem.Incr_step assms(1) r] Some pos quiet show ?thesis
        by (auto simp: run case_prod_unfold)
    qed
  qed
qed

theorem incrby_exact_witness:
  "out (after (handle_INCRBY MemoryEngine_methods [''INCRBY'', ''k'', ''3'']) example_handler) = out example_handler @ WriteInteger 8 \<and>
   out (after (handle_INCRBY MemoryEngine_methods [''INCRBY'', ''k'', ''-3'']) example_handler) = out example_handler @ WriteInteger 0"
proof -
  have atoi: "Atoi ''3'' = Some 3" "Atoi ''-3'' = Some (-3)" "Atoi ''5'' = Some 5" by code_simp+
  have "counter_value (mem_db (engine example_handler) ''k'') = Some 5"
    using atoi(3) by (simp add: example_handler_db counter_value_def del: Atoi.simps)
  moreover have "wrap64 8 = 8" by (simp add: int64_defs)
  ultimately show ?thesis
    using incrby_exact [OF example_handler_ok atoi(1), of "''INCRBY''" "''k''"]
      incrby_exact [OF example_handler_ok atoi(2), of "''INCRBY''" "''k''"] by simp
qed

text \<open>RENAME on the memory engine, for a key with a live string: the new name holds the string
  without deadline and the old name is gone, in this order. So a RENAME of a key to itself is
  answered with OK and deletes the key.\<close>

theorem rename_moves:
  fixes b c :: string
  assumes "mem_ok (engine h)" and "get_result (mem_clk (engine h)) (mem_db (engine h) a) = Inr v"
  defines "h' \<equiv> after (handle_RENAME MemoryEngine_methods [c, a, b]) h"
  shows "out h' = out h @ WriteSimpleString ''OK'' \<and>
    mem_db (engine h') = (mem_db (engine h))(b := set_entry v (mem_db (engine h) b), a := no_entry)"
proof -
  let ?s1 = "after (eGet MemoryEngine_methods a) (engine h)"
  let ?s2 = "after (eSet MemoryEngine_methods b v) ?s1"
  have s1: "mem_ok ?s1" "mem_db ?s1 = (mem_db (engine h))(a := get_entry (mem_clk (engine h)) (mem_db (engine h) a))"
    using doesD [OF mem.Get assms(1), of a] by (simp_all add: spec_Get_def)
  have live: "str (get_entry (mem_clk (engine h)) (mem_db (engine h) a)) \<noteq> None"
    using assms(2) by (auto simp: get_result_def get_entry_def split: option.splits if_splits)
  have set: "runs (eSet MemoryEngine_methods b v) ?s1 = None" by (rule memr.Set_ok [OF s1(1)])
  have s2: "mem_ok ?s2" "mem_db ?s2 = (mem_db ?s1)(b := set_entry v (mem_db ?s1 b))"
    using doesD [OF mem.Set s1(1), of b v] set by (simp_all add: spec_Set_def)
  have "present (mem_db ?s2 a)" using s1(2) s2(2) live by (simp add: present_def set_entry_def)
  then have del: "runs (eDel MemoryEngine_methods a) ?s2 = None" using memr.Del_ok [OF s2(1)] by simp
  show ?thesis unfolding h'_def using mem.RENAME_effect [OF assms(1,2) set del] by blast
qed

theorem rename_moves_witness:
  "mem_db (engine (after (handle_RENAME MemoryEngine_methods [''RENAME'', ''k'', ''k'']) example_handler)) ''k'' = no_entry"
proof -
  have "get_result (mem_clk (engine example_handler)) (mem_db (engine example_handler) ''k'') = Inr ''5''"
    by (simp add: example_handler get_result_def expired_def no_entry_def)
  from rename_moves [OF example_handler_ok this, of "''RENAME''" "''k''"] show ?thesis by simp
qed


text \<open>C39: EXPIRE with a large number of seconds. For 9223372037 to 18446744073 seconds (292 to 584
  years) the product with the number of nanoseconds of a second wraps to a negative duration: the
  command answers 1, and the key is expired at once.\<close>

theorem expire_overflow:
  fixes c c' k n :: string
  assumes "wal_ok (engine h)" and "present (wal_db (engine h) k)"
    and "Atoi n = Some secs" and "9223372037 \<le> secs" and "secs \<le> 18446744073"
  defines "h' \<equiv> after (handle_EXPIRE WALEngine_methods [c, k, n]) h"
  shows "out h' = out h @ WriteInteger 1 \<and>
    out (after (handle_EXISTS WALEngine_methods [c', k]) h') = out h' @ WriteInteger 0"
proof -
  have "secs * 1000000000 + 2 ^ 63 = (secs * 1000000000 - 2 ^ 63) + 2 ^ 64" by simp
  then have "(secs * 1000000000 + 2 ^ 63) mod 2 ^ 64 = secs * 1000000000 - 2 ^ 63"
    using assms(4,5) by (simp only: mod_add_self2) (simp add: mod_pos_pos_trivial)
  then have neg: "wrap64 (secs * 1000000000) < 0" using assms(5) by (simp add: wrap64_def)
  note e = wal.EXPIRE_effect [OF assms(1,3), of c k, folded h'_def]
  have "0 \<le> secs" using assms(4) by simp
  note e = e [OF this]
  have "wal_db (engine h') k =
      (wal_db (engine h) k)\<lparr>expiry := Some (wal_clk (engine h) + wrap64 (secs * 1000000000))\<rparr>"
    using e(4) assms(2) by simp
  then have "\<not> live (wal_clk (engine h')) (wal_db (engine h') k)"
    using neg e(2) by (simp add: live_def expired_def)
  then show ?thesis using e(3) wal.EXISTS_effect [OF e(1), of c' k] assms(2) by simp
qed

text \<open>TYPE of lists, sets and hashes. A key that holds no string but any other value, without
  deadline, is called a list: the test of the second branch asks whether the key exists at all.\<close>

theorem type_calls_it_list:
  fixes c k :: string
  assumes "wal_ok (engine h)" and "str (wal_db (engine h) k) = None"
    and "present (wal_db (engine h) k)" and "expiry (wal_db (engine h) k) = None"
  shows "out (after (handle_TYPE WALEngine_methods [c, k]) h) = out h @ WriteSimpleString ''list''"
proof -
  let ?h1 = "h\<lparr>engine := after (eGet WALEngine_methods k) (engine h)\<rparr>"
  have g: "wal_ok (engine ?h1)" "wal_db (engine ?h1) k = wal_db (engine h) k"
    using doesD [OF wal.Get assms(1), of k] assms(2) by (simp_all add: spec_Get_def get_entry_def)
  have len: "does wal_ok wal_db wal_clk (eLLen WALEngine_methods k) (\<lambda>t d r d'. r = length (the_list (d k)) \<and> d' = d)"
    using wal.LLen [of k] by (simp add: spec_LLen_def [abs_def])
  obtain t where "runs (or_exists WALEngine_methods (eLLen WALEngine_methods k) k) ?h1 \<longleftrightarrow>
      0 < length (the_list (wal_db (engine h) k)) \<or> live t (wal_db (engine h) k)"
    using wal.or_exists_value [OF g(1) len] g(2) by auto
  moreover have "live t (wal_db (engine h) k)" using assms(3,4) by (simp add: live_def expired_def)
  ultimately show ?thesis
    using wal.TYPE_effect [OF assms(1), of c k] assms(2) by (simp add: get_result_def)
qed

text \<open>A logging engine over an empty directory, for examples; \<open>k\<close> holds a set.\<close>

definition example_wal_handler :: "wal_engine_state Handler" where
  "example_wal_handler = NewHandler
     (\<lparr>mem = \<lparr>store = snd (Store_SAdd ''k'' [''m''] NewStore)\<rparr>,
       wal = \<lparr>wal_file = None, seq = 0, maxSize = 0, currentSz = 0\<rparr>\<rparr>, empty_dir) Default New []"

lemma example_wal_handler_ok: "wal_ok (engine example_wal_handler)"
  by (simp add: example_wal_handler_def NewHandler_def wal_ok_def wf_intros)

lemma example_wal_handler_db:
  "wal_db (engine example_wal_handler) ''k'' = no_entry\<lparr>mems := Some {|''m''|}\<rparr>"
  by (simp add: example_wal_handler_def NewHandler_def wal_db_def view_simps wf_intros no_entry_def the_mems_def)

theorem expire_overflow_witness:
  "out (after (handle_EXPIRE WALEngine_methods [''EXPIRE'', ''k'', ''10000000000'']) example_wal_handler)
     = out example_wal_handler @ WriteInteger 1 \<and>
   out (after (handle_EXISTS WALEngine_methods [''EXISTS'', ''k''])
     (after (handle_EXPIRE WALEngine_methods [''EXPIRE'', ''k'', ''10000000000'']) example_wal_handler))
     = out (after (handle_EXPIRE WALEngine_methods [''EXPIRE'', ''k'', ''10000000000'']) example_wal_handler) @ WriteInteger 0"
proof -
  have atoi: "Atoi ''10000000000'' = Some 10000000000"
    by (simp add: signed_decimal_def digits_val_def digit_val_def is_digit_def int64_defs)
  have "present (wal_db (engine example_wal_handler) ''k'')"
    by (simp add: example_wal_handler_db present_def)
  from expire_overflow [OF example_wal_handler_ok this atoi] show ?thesis by simp
qed

theorem type_calls_it_list_witness:
  "out (after (handle_TYPE WALEngine_methods [''TYPE'', ''k'']) example_wal_handler)
     = out example_wal_handler @ WriteSimpleString ''list''"
  by (rule type_calls_it_list [OF example_wal_handler_ok])
    (simp_all add: example_wal_handler_db present_def no_entry_def)

lemma CR_ToUpper: "CR \<in> set s \<Longrightarrow> CR \<in> set (ToUpper s)"
  by (induction s rule: ToUpper.induct) (auto simp: CR_def ascii_upper_def Let_def)

lemma dispatch_unknown: "CR \<in> set cmd \<Longrightarrow> dispatch eng cmd args = handle_default args"
  unfolding dispatch_def by (intro if_not_P [THEN trans] refl notI; simp add: CR_def)

text \<open>C40: Unknown commands. The error reply repeats the name of the command as it came. A name with a
  line end in it forges replies: here the client, or whoever chose the name for it, reads three
  replies to one request, the second one of any content.\<close>

theorem unknown_command_forges_replies:
  "out (after (Handle env eng [a @ crlf @ WriteSimpleString msg @ ''-'']) h) =
     out h @ WriteError (''ERR unknown command '' @ [CHR 39] @ a) @ WriteSimpleString msg @ WriteError [CHR 39]"
proof -
  let ?cmd = "a @ crlf @ WriteSimpleString msg @ ''-''"
  have cr: "CR \<in> set (ToUpper ?cmd)" by (rule CR_ToUpper) (simp add: crlf_def)
  then have "ToUpper ?cmd \<noteq> ''INFO''" by (auto simp: CR_def)
  then show ?thesis
    by (simp add: Handle_def dispatch_unknown [OF cr] handle_default_def Let_def WriteError_def)
qed

end
