(* ===== verification/Sessions.thy ===== *)
theory Sessions
  imports Server Commands_Spec
begin

section \<open>Connections side by side\<close>

text \<open>
  The connections of a server share its configuration and its statistics; each has its own
  authentication flag and output. A step of the relation below is one request of one
  connection, a new connection or the end of one. The engine is not part of the state: the
  handlers' calls on it interleave, so a request may find it in any state \<open>e\<close>. A request reads
  or writes the password at one point, so taking requests as atomic loses no behaviour of the
  authentication. With every connection go the password it was opened under and the requests
  it made, each with the password that was in force then; \<open>asked\<close> collects the requests of all
  connections, the closed ones included.
\<close>

record conn =
  conn_auth :: bool
  written :: string
  opened_under :: string
  history :: "(string list \<times> string) list"

record server_state =
  shared_cfg :: Config
  shared_stats :: ServerStats
  conns :: "nat \<rightharpoonup> conn"
  asked :: "string list list"

definition new_conn :: "Config \<Rightarrow> conn" where
  "new_conn c = \<lparr>conn_auth = (RequirePass c = ''''), written = '''', opened_under = RequirePass c, history = []\<rparr>"

definition handler_for :: "server_state \<Rightarrow> conn \<Rightarrow> 's \<Rightarrow> nat list list \<Rightarrow> 's Handler" where
  "handler_for s c e ords =
     \<lparr>engine = e, cfg = shared_cfg s, stats = shared_stats s, out = written c, orders = ords\<rparr>"

definition after_request :: "server_state \<Rightarrow> nat \<Rightarrow> conn \<Rightarrow> string list \<Rightarrow> bool \<Rightarrow> 's Handler \<Rightarrow> server_state" where
  "after_request s i c args a h =
     s\<lparr>shared_cfg := cfg h, shared_stats := stats h,
       conns := (conns s)(i \<mapsto> c\<lparr>conn_auth := a, written := out h,
         history := history c @ [(args, RequirePass (shared_cfg s))]\<rparr>),
       asked := asked s @ [args]\<rparr>"

inductive session_step :: "'s StorageEngine \<Rightarrow> server_state \<Rightarrow> server_state \<Rightarrow> bool" for eng where
  connect: "conns s i = None \<Longrightarrow>
    session_step eng s
      (s\<lparr>shared_stats := add_ActiveConnections 1 (add_TotalConnections 1 (shared_stats s)),
         conns := (conns s)(i \<mapsto> new_conn (shared_cfg s))\<rparr>)"
| request: "conns s i = Some c \<Longrightarrow>
    run_state (serve_request env eng (conn_auth c) args) (handler_for s c e ords) = (Ok a, h) \<Longrightarrow>
    session_step eng s (after_request s i c args a h)"
| disconnect: "conns s i = Some c \<Longrightarrow>
    session_step eng s
      (s\<lparr>shared_stats := add_ActiveConnections (-1) (shared_stats s), conns := (conns s)(i := None)\<rparr>)"

inductive_cases session_stepE: "session_step eng s t"

inductive session_reach :: "'s StorageEngine \<Rightarrow> Config \<Rightarrow> server_state \<Rightarrow> bool" for eng c0 where
  start: "session_reach eng c0 \<lparr>shared_cfg = c0, shared_stats = New, conns = Map.empty, asked = []\<rparr>"
| step: "session_reach eng c0 s \<Longrightarrow> session_step eng s t \<Longrightarrow> session_reach eng c0 t"

subsection \<open>One request\<close>

text \<open>What a request makes of the flag and of the configuration.\<close>

lemma serve_request_flag:
  assumes "run_state (serve_request env eng b args) h = (Ok a, h')"
  shows "a \<longleftrightarrow> b \<or> presents (RequirePass (cfg h)) args"
  using assms Handle_Ok [of env eng args h]
  by (auto simp: serve_request_def presents_def isUnauthenticatedCommand_def Let_def
      split: if_splits prod.splits outcome.splits)

lemma serve_request_unauthenticated:
  assumes "run_state (serve_request env eng False args) h = (Ok a, h')"
  shows "cfg h' = cfg h"
  using assms dispatch_unauthenticated [of args env eng h]
  by (auto simp: serve_request_def split: if_splits prod.splits)

lemma serve_request_replies:
  assumes "run_state (serve_request env eng b args) h = (Ok a, h')"
  shows "\<exists>r. (plain_name args \<longrightarrow> framed r) \<and> out h' = out h @ render r"
proof -
  have handled: "replies (plain_name args) (Handle env eng args \<bind> (\<lambda>r. ret (f r)))" for f :: "_ \<Rightarrow> bool outcome"
    using Handle_replies [of args env eng] by (simp add: replies_def case_prod_unfold)
  have "replies (plain_name args) (serve_request env eng b args)"
    unfolding serve_request_def
    by (intro replies_bind replies_if replies_then_ret handled reply_intros; simp add: plain_defs)
  then show ?thesis using assms unfolding replies_def by (metis snd_conv)
qed

lemma serve_request_Ok: "\<exists>a. runs (serve_request env eng b args) h = Ok a"
  using Handle_Ok [of env eng args h] by (auto simp: serve_request_def split: prod.split)

text \<open>A connection by itself.\<close>

lemma client_loop_replies:
  fixes h :: "'s Handler"
  assumes "\<forall>args \<in> set (requests input). plain_name args"
  shows "\<exists>rs. length rs = length (requests input) \<and> list_all framed rs \<and>
     out (after (client_loop env eng n authenticated input) h) = out h @ concat (map render rs)"
  using assms
proof (induction input arbitrary: n authenticated h rule: requests.induct)
  case (1 input)
  obtain p rest where p: "Parse input = (p, rest)" by (metis prod.exhaust)
  show ?case
  proof (cases p)
    case (Ok args)
    have reqs: "requests input = args # requests rest"
      using p Ok by (simp add: requests.simps [of input])
    obtain a g where run: "run_state (serve_request (env n) eng authenticated args) h = (Ok a, g)"
      using serve_request_Ok [of "env n" eng authenticated args h] by (metis prod.collapse)
    obtain r where r: "framed r" "out g = out h @ render r"
      using serve_request_replies [OF run] "1.prems" reqs by auto
    obtain rs where rs: "length rs = length (requests rest)" "list_all framed rs"
      "out (after (client_loop env eng (Suc n) a rest) g) = out g @ concat (map render rs)"
      using "1.IH" [OF p [symmetric] Ok, of "Suc n" a g] "1.prems" reqs by auto
    have "after (client_loop env eng n authenticated input) h = after (client_loop env eng (Suc n) a rest) g"
      using p Ok run by (simp add: client_loop.simps [of _ _ _ _ input])
    then show ?thesis using r rs reqs by (intro exI [of _ "r # rs"]) simp
  qed (simp_all add: client_loop.simps [of _ _ _ _ input] requests.simps [of input] p)
qed

subsection \<open>Invariants\<close>

text \<open>A connection is authenticated exactly if there was no password when it was opened or it has
  presented the one in force.\<close>

definition conn_inv :: "conn \<Rightarrow> bool" where
  "conn_inv c \<longleftrightarrow>
     (conn_auth c \<longleftrightarrow> opened_under c = '''' \<or> (\<exists>(args, pass) \<in> set (history c). presents pass args)) \<and>
     (\<exists>rs. length rs = length (history c) \<and> written c = concat (map render rs) \<and>
        ((\<forall>(args, pass) \<in> set (history c). plain_name args) \<longrightarrow> list_all framed rs))"

definition sessions_inv :: "server_state \<Rightarrow> bool" where
  "sessions_inv s \<longleftrightarrow> (\<forall>i c. conns s i = Some c \<longrightarrow> conn_inv c)"

lemma conn_inv_new: "conn_inv (new_conn c)"
  by (auto simp: conn_inv_def new_conn_def)

lemma conn_inv_request:
  assumes "conn_inv c" and run: "run_state (serve_request env eng (conn_auth c) args) (handler_for s c e ords) = (Ok a, h)"
  shows "conn_inv (c\<lparr>conn_auth := a, written := out h, history := history c @ [(args, RequirePass (shared_cfg s))]\<rparr>)"
proof -
  obtain rs where rs: "length rs = length (history c)" "written c = concat (map render rs)"
    "(\<forall>(args, pass) \<in> set (history c). plain_name args) \<longrightarrow> list_all framed rs"
    using assms(1) by (auto simp: conn_inv_def)
  obtain r where r: "plain_name args \<longrightarrow> framed r" "out h = concat (map render (rs @ [r]))"
    using serve_request_replies [OF run] rs(2) by (auto simp: handler_for_def)
  have "\<exists>qs. length qs = Suc (length (history c)) \<and> out h = concat (map render qs) \<and>
      (plain_name args \<and> (\<forall>(args, pass) \<in> set (history c). plain_name args) \<longrightarrow> list_all framed qs)"
    using rs(1,3) r by (intro exI [of _ "rs @ [r]"]) simp
  then show ?thesis
    using assms(1) serve_request_flag [OF run] by (auto simp: conn_inv_def handler_for_def)
qed

lemma sessions_inv_step: "session_step eng s t \<Longrightarrow> sessions_inv s \<Longrightarrow> sessions_inv t"
  by (elim session_stepE)
    (auto simp: sessions_inv_def after_request_def conn_inv_new intro: conn_inv_request)

lemma sessions_inv_reach: "session_reach eng c0 s \<Longrightarrow> sessions_inv s"
  by (induction rule: session_reach.induct) (simp add: sessions_inv_def, blast intro: sessions_inv_step)

text \<open>As long as nobody has presented the password the server was started with, it is in force and
  nobody is in.\<close>

definition locked :: "Config \<Rightarrow> server_state \<Rightarrow> bool" where
  "locked c0 s \<longleftrightarrow> shared_cfg s = c0 \<and> (\<forall>i c. conns s i = Some c \<longrightarrow> \<not> conn_auth c)"

lemma asked_grows: "session_step eng s t \<Longrightarrow> set (asked s) \<subseteq> set (asked t)"
  by (elim session_stepE) (auto simp: after_request_def)

lemma locked_step:
  assumes "session_step eng s t" and "locked c0 s" and "RequirePass c0 \<noteq> []"
    and "\<forall>args \<in> set (asked t). \<not> presents (RequirePass c0) args"
  shows "locked c0 t"
  using assms(1)
proof (cases rule: session_step.cases)
  case (request i c env args e ords a h)
  have c: "\<not> conn_auth c" and now: "shared_cfg s = c0"
    using assms(2) request(2) by (auto simp: locked_def)
  have no: "\<not> presents (RequirePass c0) args" using assms(4) by (simp add: request(1) after_request_def)
  have run: "run_state (serve_request env eng False args) (handler_for s c e ords) = (Ok a, h)"
    using request(3) c by simp
  have "\<not> a" using serve_request_flag [OF run] no now by (simp add: handler_for_def)
  moreover have "cfg h = c0"
    using serve_request_unauthenticated [OF run] now by (simp add: handler_for_def)
  ultimately show ?thesis using assms(2) by (auto simp: request(1) locked_def after_request_def)
qed (use assms(2,3) in \<open>auto simp: locked_def new_conn_def\<close>)

lemma locked_reach:
  assumes "session_reach eng c0 s" and "RequirePass c0 \<noteq> []"
    and "\<forall>args \<in> set (asked s). \<not> presents (RequirePass c0) args"
  shows "locked c0 s"
  using assms(1,3)
proof (induction rule: session_reach.induct)
  case start
  show ?case by (simp add: locked_def)
next
  case (step s t)
  then have "locked c0 s" using asked_grows [OF step.hyps(2)] by blast
  then show ?case using locked_step [OF step.hyps(2) _ assms(2) step.prems] by blast
qed

subsection \<open>Properties\<close>

text \<open>C7: Authentication under concurrency. However the requests of any number of connections
  interleave, configuration changes included: a connection is authenticated exactly if no password was
  set when it was opened or it has itself sent AUTH with the password in force at that moment, and it
  has been written one reply for each of its requests. As long as no command name it sent has a line
  end in it, a client that reads replies off what was written reads exactly these.\<close>

theorem authenticated_by_password:
  assumes "session_reach eng c0 s" and "conns s i = Some c"
  shows "(conn_auth c \<longleftrightarrow>
       opened_under c = [] \<or> (\<exists>(args, pass) \<in> set (history c). presents pass args)) \<and>
    (\<exists>rs. length rs = length (history c) \<and> written c = concat (map render rs) \<and>
       ((\<forall>(args, pass) \<in> set (history c). plain_name args) \<longrightarrow> read_replies (written c) = Some rs))"
  using sessions_inv_reach [OF assms(1)] assms(2) read_replies_render
  unfolding sessions_inv_def conn_inv_def by metis

text \<open>C8: The password guards the server. As long as none of the requests of all its connections has
  presented the password a server was started with, no connection is authenticated and the
  configuration, the password among it, is the one it was started with.\<close>

theorem password_guards_server:
  assumes "session_reach eng c0 s" and "RequirePass c0 \<noteq> []"
    and "\<forall>args \<in> set (asked s). \<not> presents (RequirePass c0) args"
  shows "shared_cfg s = c0 \<and> (\<forall>i c. conns s i = Some c \<longrightarrow> \<not> conn_auth c)"
  using locked_reach [OF assms] by (simp add: locked_def)

text \<open>A new connection and its first request, for examples.\<close>

lemma first_request:
  fixes e :: 's and eng :: "'s StorageEngine"
  assumes "serve_request env eng (RequirePass c0 = []) args = m"
    and "\<And>h. cfg h = c0 \<Longrightarrow> runs m h = Ok a"
  shows "\<exists>s c. session_reach eng c0 s \<and> asked s = [args] \<and> conns s 0 = Some c \<and>
    history c = [(args, RequirePass c0)] \<and> opened_under c = RequirePass c0"
proof -
  let ?s = "\<lparr>shared_cfg = c0, shared_stats = add_ActiveConnections 1 (add_TotalConnections 1 New),
    conns = [0 \<mapsto> new_conn c0], asked = []\<rparr>"
  let ?h = "handler_for ?s (new_conn c0) e []"
  have s: "session_reach eng c0 ?s"
    using session_reach.step [OF session_reach.start session_step.connect [of _ 0]] by simp
  have "conn_auth (new_conn c0) = (RequirePass c0 = [])" by (simp add: new_conn_def)
  moreover have "run_state m ?h = (Ok a, after m ?h)"
    using assms(2) [of ?h] by (simp add: handler_for_def prod_eq_iff)
  ultimately have "session_step eng ?s (after_request ?s 0 (new_conn c0) args a (after m ?h))"
    using assms(1) by (intro session_step.request [where env = env and e = e and ords = "[]"]) simp_all
  from session_reach.step [OF s this] show ?thesis
    by (auto simp: after_request_def new_conn_def)
qed

lemma ToUpper_AUTH: "ToUpper ''AUTH'' = ''AUTH''"
  by code_simp

theorem authenticated_by_password_witness:
  "\<exists>s c. session_reach (MemoryEngine_methods :: unit mem_state StorageEngine) (Default\<lparr>RequirePass := ''pw''\<rparr>) s \<and>
     conns s 0 = Some c \<and> history c = [([''AUTH'', ''pw''], ''pw'')] \<and> conn_auth c"
proof -
  let ?m = "serve_request undefined (MemoryEngine_methods :: unit mem_state StorageEngine) (RequirePass (Default\<lparr>RequirePass := ''pw''\<rparr>) = []) [''AUTH'', ''pw'']"
  have "runs ?m h = Ok True" if "cfg h = Default\<lparr>RequirePass := ''pw''\<rparr>" for h :: "unit mem_state Handler"
    using that by (simp add: serve_request_def ToUpper_AUTH del: ToUpper.simps)
  from first_request [OF refl this] obtain s c where
    "session_reach (MemoryEngine_methods :: unit mem_state StorageEngine) (Default\<lparr>RequirePass := ''pw''\<rparr>) s" "conns s 0 = Some c"
    "history c = [([''AUTH'', ''pw''], ''pw'')]" by auto
  moreover from this authenticated_by_password [OF this(1,2)] have "conn_auth c"
    by (simp add: presents_def ToUpper_AUTH del: ToUpper.simps)
  ultimately show ?thesis by blast
qed

theorem password_guards_server_witness:
  "\<exists>s c. session_reach (MemoryEngine_methods :: unit mem_state StorageEngine) (Default\<lparr>RequirePass := ''pw''\<rparr>) s \<and>
     asked s = [[''AUTH'', ''x'']] \<and> conns s 0 = Some c \<and> \<not> conn_auth c"
proof -
  let ?m = "serve_request undefined (MemoryEngine_methods :: unit mem_state StorageEngine) (RequirePass (Default\<lparr>RequirePass := ''pw''\<rparr>) = []) [''AUTH'', ''x'']"
  have "runs ?m h = Ok False" if "cfg h = Default\<lparr>RequirePass := ''pw''\<rparr>" for h :: "unit mem_state Handler"
    using that by (simp add: serve_request_def ToUpper_AUTH del: ToUpper.simps)
  from first_request [OF refl this] obtain s c where
    s: "session_reach (MemoryEngine_methods :: unit mem_state StorageEngine) (Default\<lparr>RequirePass := ''pw''\<rparr>) s" "asked s = [[''AUTH'', ''x'']]"
    "conns s 0 = Some c" by auto
  with password_guards_server [OF s(1)] show ?thesis by (auto simp: presents_def)
qed

end
