(* ===== verification/Commands_Machine.thy ===== *)
theory Commands_Machine
  imports Commands_Spec "HOL-Library.Sublist"
begin

section \<open>The commands as operations on the database\<close>

text \<open>
  An abstract machine for the whole command set: a table says how many arguments a command
  takes and which operation on the database it stands for, and every operation is a relation
  between the instant, the database, the reply and the database afterwards. An engine is
  \<open>lossy\<close> if it may refuse a write, as the logging engine does when the disk fails; the
  machine then says what may be missing afterwards.
\<close>

subsection \<open>Reading a request\<close>

datatype command =
    Do_PING "string option"
  | Do_COMMAND
  | Do_CALL engine_call
  | Do_SET string string
  | Do_DEL "string list"
  | Do_COUNT string int nat
  | Do_RENAME string string
  | Do_TYPE string
  | Do_APPEND string string
  | Do_STRLEN string
  | Do_MSET "(string \<times> string) list"
  | Do_MGET "string list"
  | Do_RANDOMKEY
  | Do_HSET string "(string \<times> string) list"
  | Do_HMSET string "(string \<times> string) list"

datatype arity = Exactly nat | AtLeast nat | OddFrom nat | EvenFrom nat

fun fits :: "arity \<Rightarrow> nat \<Rightarrow> bool" where
  "fits (Exactly n) m \<longleftrightarrow> m = n"
| "fits (AtLeast n) m \<longleftrightarrow> n \<le> m"
| "fits (OddFrom n) m \<longleftrightarrow> n \<le> m \<and> odd m"
| "fits (EvenFrom n) m \<longleftrightarrow> n \<le> m \<and> even m"

fun pairs :: "'a list \<Rightarrow> ('a \<times> 'a) list" where
  "pairs (x # y # rest) = (x, y) # pairs rest"
| "pairs _ = []"

definition number :: "string \<Rightarrow> string \<Rightarrow> (int \<Rightarrow> string + command) \<Rightarrow> string + command" where
  "number msg s f = (case Atoi s of None \<Rightarrow> Inl msg | Some n \<Rightarrow> f n)"

abbreviation out_of_range :: string where
  "out_of_range \<equiv> ''ERR value is not an integer or out of range''"

abbreviation not_an_integer :: string where
  "not_an_integer \<equiv> ''ERR value is not an integer''"

definition command_table :: "(string \<times> arity \<times> (string list \<Rightarrow> string + command)) list" where
  "command_table =
    [(''PING'', AtLeast 0, \<lambda>a. Inr (Do_PING (if length a = 1 then None else Some (a ! 1)))),
     (''SET'', AtLeast 3, \<lambda>a. Inr (Do_SET (a ! 1) (a ! 2))),
     (''GET'', Exactly 2, \<lambda>a. Inr (Do_CALL (CGet (a ! 1)))),
     (''DEL'', AtLeast 2, \<lambda>a. Inr (Do_DEL (tl a))),
     (''EXISTS'', Exactly 2, \<lambda>a. Inr (Do_CALL (CExists (a ! 1)))),
     (''INCR'', Exactly 2, \<lambda>a. Inr (Do_COUNT (a ! 1) 1 1)),
     (''DECR'', Exactly 2, \<lambda>a. Inr (Do_COUNT (a ! 1) (-1) 1)),
     (''INCRBY'', Exactly 3, \<lambda>a. number out_of_range (a ! 2) (\<lambda>n. Inr (Do_COUNT (a ! 1) 1 (nat n)))),
     (''DECRBY'', Exactly 3, \<lambda>a. number out_of_range (a ! 2) (\<lambda>n. Inr (Do_COUNT (a ! 1) (-1) (nat n)))),
     (''EXPIRE'', Exactly 3, \<lambda>a. number out_of_range (a ! 2)
        (\<lambda>n. if n < 0 then Inl out_of_range
             else Inr (Do_CALL (CExpire (a ! 1) (wrap64 (n * 1000000000)))))),
     (''TTL'', Exactly 2, \<lambda>a. Inr (Do_CALL (CTTL (a ! 1)))),
     (''PERSIST'', Exactly 2, \<lambda>a. Inr (Do_CALL (CPersist (a ! 1)))),
     (''KEYS'', Exactly 2, \<lambda>a. Inr (Do_CALL (CKeys (a ! 1)))),
     (''FLUSHALL'', AtLeast 0, \<lambda>a. Inr (Do_CALL CFlushAll)),
     (''DBSIZE'', AtLeast 0, \<lambda>a. Inr (Do_CALL CSize)),
     (''COMMAND'', AtLeast 0, \<lambda>a. Inr Do_COMMAND),
     (''RENAME'', Exactly 3, \<lambda>a. Inr (Do_RENAME (a ! 1) (a ! 2))),
     (''TYPE'', Exactly 2, \<lambda>a. Inr (Do_TYPE (a ! 1))),
     (''APPEND'', Exactly 3, \<lambda>a. Inr (Do_APPEND (a ! 1) (a ! 2))),
     (''STRLEN'', Exactly 2, \<lambda>a. Inr (Do_STRLEN (a ! 1))),
     (''MSET'', OddFrom 3, \<lambda>a. Inr (Do_MSET (pairs (tl a)))),
     (''MGET'', AtLeast 2, \<lambda>a. Inr (Do_MGET (tl a))),
     (''RANDOMKEY'', AtLeast 0, \<lambda>a. Inr Do_RANDOMKEY),
     (''LPUSH'', AtLeast 3, \<lambda>a. Inr (Do_CALL (CLPush (a ! 1) (drop 2 a)))),
     (''RPUSH'', AtLeast 3, \<lambda>a. Inr (Do_CALL (CRPush (a ! 1) (drop 2 a)))),
     (''LPOP'', AtLeast 2, \<lambda>a. Inr (Do_CALL (CLPop (a ! 1)))),
     (''RPOP'', AtLeast 2, \<lambda>a. Inr (Do_CALL (CRPop (a ! 1)))),
     (''LLEN'', Exactly 2, \<lambda>a. Inr (Do_CALL (CLLen (a ! 1)))),
     (''LRANGE'', Exactly 4, \<lambda>a. number not_an_integer (a ! 2) (\<lambda>i. number not_an_integer (a ! 3)
        (\<lambda>j. Inr (Do_CALL (CLRange (a ! 1) i j))))),
     (''LINDEX'', Exactly 3, \<lambda>a. number not_an_integer (a ! 2) (\<lambda>i. Inr (Do_CALL (CLIndex (a ! 1) i)))),
     (''SADD'', AtLeast 3, \<lambda>a. Inr (Do_CALL (CSAdd (a ! 1) (drop 2 a)))),
     (''SREM'', AtLeast 3, \<lambda>a. Inr (Do_CALL (CSRem (a ! 1) (drop 2 a)))),
     (''SMEMBERS'', Exactly 2, \<lambda>a. Inr (Do_CALL (CSMembers (a ! 1)))),
     (''SISMEMBER'', Exactly 3, \<lambda>a. Inr (Do_CALL (CSIsMember (a ! 1) (a ! 2)))),
     (''SCARD'', Exactly 2, \<lambda>a. Inr (Do_CALL (CSCard (a ! 1)))),
     (''SPOP'', Exactly 2, \<lambda>a. Inr (Do_CALL (CSPop (a ! 1)))),
     (''SRANDMEMBER'', Exactly 2, \<lambda>a. Inr (Do_CALL (CSRandMember (a ! 1)))),
     (''HSET'', EvenFrom 4, \<lambda>a. Inr (Do_HSET (a ! 1) (pairs (drop 2 a)))),
     (''HGET'', Exactly 3, \<lambda>a. Inr (Do_CALL (CHGet (a ! 1) (a ! 2)))),
     (''HDEL'', AtLeast 3, \<lambda>a. Inr (Do_CALL (CHDel (a ! 1) (drop 2 a)))),
     (''HGETALL'', Exactly 2, \<lambda>a. Inr (Do_CALL (CHGetAll (a ! 1)))),
     (''HKEYS'', Exactly 2, \<lambda>a. Inr (Do_CALL (CHKeys (a ! 1)))),
     (''HVALS'', Exactly 2, \<lambda>a. Inr (Do_CALL (CHVals (a ! 1)))),
     (''HEXISTS'', Exactly 3, \<lambda>a. Inr (Do_CALL (CHExists (a ! 1) (a ! 2)))),
     (''HLEN'', Exactly 2, \<lambda>a. Inr (Do_CALL (CHLen (a ! 1)))),
     (''HMSET'', EvenFrom 4, \<lambda>a. Inr (Do_HMSET (a ! 1) (pairs (drop 2 a)))),
     (''HMGET'', AtLeast 3, \<lambda>a. Inr (Do_CALL (CHMGet (a ! 1) (drop 2 a))))]"

definition read_command :: "string \<Rightarrow> string list \<Rightarrow> string + command" where
  "read_command cmd args =
     (case map_of command_table cmd of
        None \<Rightarrow> Inl (''ERR unknown command '' @ [CHR 39] @ args ! 0 @ [CHR 39])
      | Some (n, f) \<Rightarrow>
          if fits n (length args) then f args
          else Inl (''ERR wrong number of arguments for '' @ cmd))"

subsection \<open>What an operation does\<close>

text \<open>Most commands are one call of the engine, whose result is answered by its type.\<close>

fun reply_of :: "engine_result \<Rightarrow> resp" where
  "reply_of (RVal (Inl err)) = Null"
| "reply_of (RVal (Inr v)) = Bulk v"
| "reply_of (RErr err) = Integer (if err = None then 1 else 0)"
| "reply_of (RBool b) = Integer (if b then 1 else 0)"
| "reply_of (RInt (Inl err)) = Error out_of_range"
| "reply_of (RInt (Inr n)) = Integer n"
| "reply_of (RTime r) = Integer (if r \<in> {-2, -1} then r else int (float_int (Duration_Seconds (nat r))))"
| "reply_of (RList xs) = Array xs"
| "reply_of (RNat n) = Integer (int n)"
| "reply_of RUnit = Simple ''OK''"

definition set_all :: "(string \<times> string) list \<Rightarrow> db \<Rightarrow> db" where
  "set_all kvs = fold (\<lambda>(k, v) d. d(k := set_entry v (d k))) kvs"

definition put_all :: "(string \<times> string) list \<Rightarrow> (string, string) fmap \<Rightarrow> (string, string) fmap" where
  "put_all fvs = fold (\<lambda>(f, v) m. fmupd f v m) fvs"

definition put_entry :: "(string \<times> string) list \<Rightarrow> entry \<Rightarrow> entry" where
  "put_entry fvs e = e\<lparr>flds := Some (put_all fvs (the_flds e))\<rparr>"

definition value_or_empty :: "go_error + string \<Rightarrow> string" where
  "value_or_empty r = (case r of Inl err \<Rightarrow> [] | Inr v \<Rightarrow> v)"

text \<open>\<open>n\<close> steps of a counter. A refused step ends the loop and leaves the ones before it.\<close>

definition spec_count :: "bool \<Rightarrow> string \<Rightarrow> int \<Rightarrow> nat \<Rightarrow> resp spec" where
  "spec_count lossy k i n t d r d' \<longleftrightarrow>
     (if n = 0 then r = Integer 0 \<and> d' = d
      else case counter_value (d k) of
             None \<Rightarrow> r = Error out_of_range \<and> d' = d
           | Some v \<Rightarrow>
               r = Integer (wrap64 (v + int n * i)) \<and> d' = d(k := bumped (v + int n * i) (d k)) \<or>
               lossy \<and> r = Error out_of_range \<and>
                 (\<exists>j < n. d' = (if j = 0 then d else d(k := bumped (v + int j * i) (d k)))))"

text \<open>Reading several keys: each at an instant of its own, and a string found expired is dropped.\<close>

definition spec_mget :: "string list \<Rightarrow> string list spec" where
  "spec_mget ks t d vs d' \<longleftrightarrow>
     (\<exists>ts at. length ts = length ks \<and> sorted (t # ts) \<and>
        vs = map (\<lambda>(k, x). value_or_empty (get_result x (d k))) (zip ks ts) \<and>
        (\<forall>k \<in> set ks. at k \<in> set ts) \<and>
        d' = (\<lambda>k. if k \<in> set ks then get_entry (at k) (d k) else d k))"

fun command_spec :: "bool \<Rightarrow> command \<Rightarrow> resp spec" where
  "command_spec lossy (Do_PING m) t d r d' \<longleftrightarrow>
     r = (case m of None \<Rightarrow> Simple ''PONG'' | Some s \<Rightarrow> Bulk s) \<and> d' = d"
| "command_spec lossy Do_COMMAND t d r d' \<longleftrightarrow> r = Simple ''OK'' \<and> d' = d"
| "command_spec lossy (Do_CALL c) t d r d' \<longleftrightarrow> (\<exists>x. call_spec c t d x d' \<and> r = reply_of x)"
| "command_spec lossy (Do_SET k v) t d r d' \<longleftrightarrow>
     r = Simple ''OK'' \<and> (d' = d(k := set_entry v (d k)) \<or> lossy \<and> d' = d)"
| "command_spec lossy (Do_DEL ks) t d r d' \<longleftrightarrow>
     (\<exists>D \<subseteq> {k \<in> set ks. present (d k)}. (\<not> lossy \<longrightarrow> D = {k \<in> set ks. present (d k)}) \<and>
        r = Integer (int (card D)) \<and> d' = (\<lambda>k. if k \<in> D then no_entry else d k))"
| "command_spec lossy (Do_COUNT k i n) t d r d' \<longleftrightarrow> spec_count lossy k i n t d r d'"
| "command_spec lossy (Do_RENAME a b) t d r d' \<longleftrightarrow>
     (case get_result t (d a) of
        Inl err \<Rightarrow> r = Error ''ERR no such key'' \<and> d' = d(a := get_entry t (d a))
      | Inr v \<Rightarrow> r = Simple ''OK'' \<and>
          (let d1 = d(b := set_entry v (d b))
           in d' = d1(a := no_entry) \<or> lossy \<and> d' \<in> {d, d1, d(a := no_entry)}))"
| "command_spec lossy (Do_TYPE k) t d r d' \<longleftrightarrow>
     (\<exists>t1 \<ge> t. let e = get_entry t (d k)
        in if \<not> isl (get_result t (d k)) then r = Simple ''string'' \<and> d' = d
           else if the_list e \<noteq> [] \<or> live t1 e then r = Simple ''list'' \<and> d' = d(k := e)
           else r = Simple ''none'' \<and> d' = d(k := if present e then no_entry else e))"
| "command_spec lossy (Do_APPEND k s) t d r d' \<longleftrightarrow>
     (let v = value_or_empty (get_result t (d k)) @ s
      in r = Integer (int (length v)) \<and>
         (d' = d(k := set_entry v (d k)) \<or> lossy \<and> d' = d(k := get_entry t (d k))))"
| "command_spec lossy (Do_STRLEN k) t d r d' \<longleftrightarrow>
     r = Integer (int (length (value_or_empty (get_result t (d k))))) \<and> d' = d(k := get_entry t (d k))"
| "command_spec lossy (Do_MSET kvs) t d r d' \<longleftrightarrow>
     r = Simple ''OK'' \<and>
     (\<exists>kept. subseq kept kvs \<and> (\<not> lossy \<longrightarrow> kept = kvs) \<and> d' = set_all kept d)"
| "command_spec lossy (Do_MGET ks) t d r d' \<longleftrightarrow> (\<exists>vs. r = Array vs \<and> spec_mget ks t d vs d')"
| "command_spec lossy Do_RANDOMKEY t d r d' \<longleftrightarrow>
     d' = d \<and> ((\<exists>k. r = Bulk k \<and> live t (d k)) \<or> r = Null \<and> (\<forall>k. \<not> live t (d k)))"
| "command_spec lossy (Do_HSET k fvs) t d r d' \<longleftrightarrow>
     r = Integer (int (card (fst ` set fvs - fmdom' (the_flds (d k))))) \<and>
     d' = d(k := put_entry fvs (d k))"
| "command_spec lossy (Do_HMSET k fvs) t d r d' \<longleftrightarrow>
     r = Simple ''OK'' \<and> d' = d(k := put_entry fvs (d k))"

definition outcome_spec :: "bool \<Rightarrow> string + command \<Rightarrow> resp spec" where
  "outcome_spec lossy q t d r d' \<longleftrightarrow>
     (case q of Inl msg \<Rightarrow> r = Error msg \<and> d' = d | Inr c \<Rightarrow> command_spec lossy c t d r d')"

end
