(* ===== verification/Commands_Refine.thy ===== *)
theory Commands_Refine
  imports Commands_Machine
begin

section \<open>The handler refines the abstract machine\<close>

text \<open>
  Every command of the handler, on every engine that keeps the contract of the storage engine,
  writes the reply and changes the database as the abstract machine of commands says. The
  locale \<open>command_engine\<close> adds to the contract whether the engine may refuse a write; the
  memory engine and the logging engine are its two interpretations.
\<close>

subsection \<open>Handlers against the abstract machine\<close>

text \<open>
  \<open>steps\<close> is the contract of a part of a handler that replies nothing, \<open>answers\<close> that of a part
  that writes the one reply. Neither touches the configuration or the statistics.
\<close>

definition same_frame :: "'s Handler \<Rightarrow> 's Handler \<Rightarrow> bool" where
  "same_frame h h' \<longleftrightarrow> cfg h' = cfg h \<and> stats h' = stats h"

definition steps ::
    "('s \<Rightarrow> bool) \<Rightarrow> ('s \<Rightarrow> db) \<Rightarrow> ('s \<Rightarrow> int) \<Rightarrow> ('s Handler, 'r) state \<Rightarrow> 'r spec \<Rightarrow> bool" where
  "steps ok db clk m P \<longleftrightarrow>
     does (\<lambda>h. ok (engine h)) (\<lambda>h. db (engine h)) (\<lambda>h. clk (engine h)) m P \<and>
     (\<forall>h. out (after m h) = out h \<and> same_frame h (after m h))"

definition answers ::
    "('s \<Rightarrow> bool) \<Rightarrow> ('s \<Rightarrow> db) \<Rightarrow> ('s \<Rightarrow> int) \<Rightarrow> ('s Handler, unit) state \<Rightarrow> resp spec \<Rightarrow> bool" where
  "answers ok db clk m P \<longleftrightarrow>
     (\<forall>h. ok (engine h) \<longrightarrow>
        (let h' = after m h
         in ok (engine h') \<and> clk (engine h) \<le> clk (engine h') \<and> same_frame h h' \<and>
            (\<exists>r. out h' = out h @ render r \<and> P (clk (engine h)) (db (engine h)) r (db (engine h')))))"

lemma steps_weaken:
  "steps ok db clk m P \<Longrightarrow> (\<And>t d r d'. P t d r d' \<Longrightarrow> Q t d r d') \<Longrightarrow> steps ok db clk m Q"
  unfolding steps_def by (blast intro: does_weaken)

lemma stepsD:
  assumes "steps ok db clk m P" and "ok (engine h)"
  shows "ok (engine (after m h))" "clk (engine h) \<le> clk (engine (after m h))"
    "P (clk (engine h)) (db (engine h)) (runs m h) (db (engine (after m h)))"
    "out (after m h) = out h" "same_frame h (after m h)"
  using assms by (simp_all add: steps_def does_def)

lemma steps_ret: "steps ok db clk (ret x) (\<lambda>t d r d'. r = x \<and> d' = d)"
  by (simp add: steps_def does_def same_frame_def)

lemma steps_call: "does ok db clk m P \<Longrightarrow> steps ok db clk (call_engine m) P"
  by (auto simp: steps_def does_def same_frame_def case_prod_unfold)

lemma steps_bind:
  assumes "steps ok db clk m P" and "\<And>x. steps ok db clk (f x) (Q x)"
  shows "steps ok db clk (m \<bind> f) (\<lambda>t d r d'. \<exists>x d1 t1. t \<le> t1 \<and> P t d x d1 \<and> Q x t1 d1 r d')"
  using assms does_bind unfolding steps_def same_frame_def
  by (intro conjI) (blast, simp add: case_prod_unfold)

lemma answers_weaken:
  "answers ok db clk m P \<Longrightarrow> (\<And>t d r d'. P t d r d' \<Longrightarrow> Q t d r d') \<Longrightarrow> answers ok db clk m Q"
  unfolding answers_def Let_def by blast

lemma answers_reply: "answers ok db clk (reply (render r)) (\<lambda>t d r' d'. r' = r \<and> d' = d)"
  by (auto simp: answers_def same_frame_def)

lemma answers_bind:
  assumes "steps ok db clk m P" and "\<And>x. answers ok db clk (f x) (Q x)"
  shows "answers ok db clk (m \<bind> f) (\<lambda>t d r d'. \<exists>x d1 t1. t \<le> t1 \<and> P t d x d1 \<and> Q x t1 d1 r d')"
  unfolding answers_def Let_def
proof (intro allI impI)
  fix h :: "'a Handler"
  assume h: "ok (engine h)"
  obtain x h1 where m: "run_state m h = (x, h1)" by (metis prod.exhaust)
  have 1: "ok (engine h1)" "clk (engine h) \<le> clk (engine h1)"
    "P (clk (engine h)) (db (engine h)) x (db (engine h1))" "out h1 = out h" "same_frame h h1"
    using stepsD [OF assms(1) h] m by simp_all
  obtain r where 2: "ok (engine (after (f x) h1))" "clk (engine h1) \<le> clk (engine (after (f x) h1))"
    "same_frame h1 (after (f x) h1)" "out (after (f x) h1) = out h1 @ render r"
    "Q x (clk (engine h1)) (db (engine h1)) r (db (engine (after (f x) h1)))"
    using assms(2) [of x] 1(1) unfolding answers_def Let_def by blast
  have run: "after (m \<bind> f) h = after (f x) h1" using m by simp
  show "ok (engine (after (m \<bind> f) h)) \<and> clk (engine h) \<le> clk (engine (after (m \<bind> f) h)) \<and>
      same_frame h (after (m \<bind> f) h) \<and>
      (\<exists>r. out (after (m \<bind> f) h) = out h @ render r \<and>
         (\<exists>x d1 t1. clk (engine h) \<le> t1 \<and> P (clk (engine h)) (db (engine h)) x d1 \<and>
            Q x t1 d1 r (db (engine (after (m \<bind> f) h)))))"
    unfolding run using 1 2 by (auto simp: same_frame_def intro: order_trans)
qed

text \<open>The last step of a handler: the reply is a function of what was computed.\<close>

lemma answers_last:
  assumes "steps ok db clk m P" and "\<And>x. f x = reply (render (g x))"
  shows "answers ok db clk (m \<bind> f) (\<lambda>t d r d'. \<exists>x. P t d x d' \<and> r = g x)"
proof -
  have "answers ok db clk (m \<bind> (\<lambda>x. reply (render (g x))))
      (\<lambda>t d r d'. \<exists>x d1 t1. t \<le> t1 \<and> P t d x d1 \<and> (r = g x \<and> d' = d1))"
    by (rule answers_bind [OF assms(1) answers_reply])
  then have "answers ok db clk (m \<bind> (\<lambda>x. reply (render (g x)))) (\<lambda>t d r d'. \<exists>x. P t d x d' \<and> r = g x)"
    by (rule answers_weaken) auto
  then show ?thesis unfolding assms(2) .
qed

lemma call_engine_as_result:
  "call_engine (as_result f m) \<bind> k = call_engine m \<bind> (\<lambda>x. k (f x))"
  by (rule state.expand) (simp add: fun_eq_iff case_prod_unfold)

subsection \<open>Engines that refuse writes, and engines that do not\<close>

lemma does_also:
  "does ok db clk m P \<Longrightarrow> (\<And>s. ok s \<Longrightarrow> Q (db s) (runs m s)) \<Longrightarrow>
    does ok db clk m (\<lambda>t d r d'. P t d r d' \<and> Q d r)"
  by (simp add: does_def)

text \<open>One step of a counter.\<close>

definition counts :: "bool \<Rightarrow> string \<Rightarrow> int \<Rightarrow> (go_error + int) spec" where
  "counts lossy k i t d r d' \<longleftrightarrow>
     (case r of
        Inl err \<Rightarrow> d' = d \<and> (lossy \<or> counter_value (d k) = None)
      | Inr x \<Rightarrow> \<exists>v. counter_value (d k) = Some v \<and> x = wrap64 (v + i) \<and> d' = d(k := bumped (v + i) (d k)))"

locale command_engine = storage_engine eng ok db clk
  for eng :: "'s StorageEngine" and ok db clk +
  fixes lossy :: bool
  assumes Set_kept: "\<not> lossy \<Longrightarrow> ok s \<Longrightarrow> runs (eSet eng k v) s = None"
    and Del_kept: "\<not> lossy \<Longrightarrow> ok s \<Longrightarrow> present (db s k) \<Longrightarrow> runs (eDel eng k) s = None"
    and Incr_kept: "\<not> lossy \<Longrightarrow> ok s \<Longrightarrow> isl (runs (eIncr eng k) s) \<Longrightarrow> counter_value (db s k) = None"
    and Decr_kept: "\<not> lossy \<Longrightarrow> ok s \<Longrightarrow> isl (runs (eDecr eng k) s) \<Longrightarrow> counter_value (db s k) = None"
begin

lemma Set_lossy:
  "does ok db clk (eSet eng k v) (\<lambda>t d r d'. d' = d(k := set_entry v (d k)) \<or> lossy \<and> d' = d)"
proof -
  have "does ok db clk (eSet eng k v) (\<lambda>t d r d'. spec_Set k v t d r d' \<and> (lossy \<or> r = None))"
    by (rule does_also [OF Set]) (use Set_kept in metis)
  then show ?thesis by (rule does_weaken) (auto simp: spec_Set_def split: if_splits)
qed

lemma Del_lossy:
  "does ok db clk (eDel eng k) (\<lambda>t d r d'.
     (if r = None then present (d k) \<and> d' = d(k := no_entry)
      else (lossy \<or> \<not> present (d k)) \<and> d' = d))"
proof -
  have "does ok db clk (eDel eng k)
      (\<lambda>t d r d'. spec_Del k t d r d' \<and> (lossy \<or> \<not> present (d k) \<or> r = None))"
    by (rule does_also [OF Del]) (use Del_kept in metis)
  then show ?thesis by (rule does_weaken) (auto simp: spec_Del_def)
qed

lemma bump_counts:
  assumes "spec_bump i k t d r d'" and "lossy \<or> \<not> isl r \<or> counter_value (d k) = None"
  shows "counts lossy k i t d r d'"
  using assms by (auto simp: counts_def spec_bump_def bump_result_def bump_def bumped_def split: sum.splits option.splits)

lemma Incr_counts: "does ok db clk (eIncr eng k) (counts lossy k 1)"
proof -
  have "does ok db clk (eIncr eng k)
      (\<lambda>t d r d'. spec_bump 1 k t d r d' \<and> (lossy \<or> \<not> isl r \<or> counter_value (d k) = None))"
    by (rule does_also [OF Incr]) (use Incr_kept in metis)
  then show ?thesis by (rule does_weaken) (use bump_counts in blast)
qed

lemma Decr_counts: "does ok db clk (eDecr eng k) (counts lossy k (-1))"
proof -
  have "does ok db clk (eDecr eng k)
      (\<lambda>t d r d'. spec_bump (-1) k t d r d' \<and> (lossy \<or> \<not> isl r \<or> counter_value (d k) = None))"
    by (rule does_also [OF Decr]) (use Decr_kept in metis)
  then show ?thesis by (rule does_weaken) (use bump_counts in blast)
qed

end

subsection \<open>The loops\<close>

lemma steps_del_loop_step:
  assumes "if r = None then present (d k) \<and> d1 = d(k := no_entry) else (lossy \<or> \<not> present (d k)) \<and> d1 = d"
    and "D \<subseteq> {j \<in> set ks. present (d1 j)}" and "\<not> lossy \<longrightarrow> D = {j \<in> set ks. present (d1 j)}"
    and "d' = (\<lambda>j. if j \<in> D then no_entry else d1 j)"
  defines "E \<equiv> if r = None then insert k D else D"
  shows "E \<subseteq> {j \<in> set (k # ks). present (d j)}" "\<not> lossy \<longrightarrow> E = {j \<in> set (k # ks). present (d j)}"
    "(if r = None then n + 1 else n) + card D = n + card E"
    "d' = (\<lambda>j. if j \<in> E then no_entry else d j)"
proof -
  have fin: "finite D" using assms(2) finite_subset by fastforce
  have none: "\<not> present no_entry" by (simp add: present_def no_entry_def)
  have new: "k \<notin> D" if "r = None" using assms(1,2) that none by auto
  show "E \<subseteq> {j \<in> set (k # ks). present (d j)}"
    using assms(1,2) none by (auto simp: E_def split: if_splits)
  show "\<not> lossy \<longrightarrow> E = {j \<in> set (k # ks). present (d j)}"
    using assms(1,3) none by (auto simp: E_def split: if_splits)
  show "(if r = None then n + 1 else n) + card D = n + card E"
    using new fin by (simp add: E_def)
  show "d' = (\<lambda>j. if j \<in> E then no_entry else d j)"
    using assms(1,4) by (auto simp: E_def fun_eq_iff split: if_splits)
qed

text \<open>The value of a counter after several steps, and what a loop of \<open>n\<close> steps returns.\<close>

definition counted :: "bool \<Rightarrow> string \<Rightarrow> int \<Rightarrow> nat \<Rightarrow> int \<Rightarrow> (go_error + int) spec" where
  "counted lossy k i n r0 t d r d' \<longleftrightarrow>
     (if n = 0 then r = Inr r0 \<and> d' = d
      else case counter_value (d k) of
             None \<Rightarrow> isl r \<and> d' = d
           | Some v \<Rightarrow>
               r = Inr (wrap64 (v + int n * i)) \<and> d' = d(k := bumped (v + int n * i) (d k)) \<or>
               lossy \<and> isl r \<and>
                 (\<exists>j < n. d' = (if j = 0 then d else d(k := bumped (v + int j * i) (d k)))))"

lemma counter_value_bumped [simp]: "counter_value (bumped n e) = Some (wrap64 n)"
  using Atoi_Itoa [of "wrap64 n"] by (simp add: bumped_def counter_value_def)

lemma bumped_bumped [simp]: "bumped n (bumped m e) = bumped n e"
  by (simp add: bumped_def)

lemma bumped_wrap64 [simp]: "bumped (wrap64 m + n) e = bumped (m + n) e"
  by (simp add: bumped_def wrap64_add_wrap64)

lemma counted_Suc:
  assumes "counts lossy k i t d x d1"
    and "case x of Inl err \<Rightarrow> r = Inl err \<and> d' = d1 | Inr res \<Rightarrow> counted lossy k i n res t1 d1 r d'"
  shows "counted lossy k i (Suc n) r0 t d r d'"
proof (cases x)
  case (Inl err)
  then show ?thesis
    using assms by (auto simp: counts_def counted_def split: option.splits intro: exI [of _ 0])
next
  case (Inr res)
  then obtain v where v: "counter_value (d k) = Some v" "res = wrap64 (v + i)"
    "d1 = d(k := bumped (v + i) (d k))"
    using assms(1) by (auto simp: counts_def)
  have sum: "v + int (Suc m) * i = (v + i) + int m * i" for m by (simp add: algebra_simps)
  have c: "counted lossy k i n res t1 d1 r d'" using assms(2) Inr by simp
  show ?thesis
  proof (cases "n = 0")
    case True
    then show ?thesis using c v by (simp add: counted_def)
  next
    case False
    from c False v consider
        "r = Inr (wrap64 (v + int (Suc n) * i))" "d' = d(k := bumped (v + int (Suc n) * i) (d k))"
      | j where "lossy" "isl r" "j < n" "d' = (if j = 0 then d1 else d1(k := bumped (v + int (Suc j) * i) (d k)))"
      by (auto simp: counted_def wrap64_add_wrap64 sum simp del: of_nat_Suc)
    then show ?thesis
    proof cases
      case 1
      then show ?thesis using v(1) by (simp add: counted_def)
    next
      case (2 j)
      then have "d' = d(k := bumped (v + int (Suc j) * i) (d k))" using v(3) by (auto split: if_splits)
      then show ?thesis using 2 v(1) by (auto simp: counted_def intro!: exI [of _ "Suc j"])
    qed
  qed
qed

lemma steps_step_loop:
  assumes "does ok db clk m (counts lossy k i)"
  shows "steps ok db clk (step_loop m n r0) (counted lossy k i n r0)"
proof (induction n arbitrary: r0)
  case 0
  show ?case unfolding step_loop.simps by (rule steps_weaken [OF steps_ret]) (simp add: counted_def)
next
  case (Suc n)
  have rest: "steps ok db clk (case x of Inl err \<Rightarrow> ret (Inl err) | Inr res \<Rightarrow> step_loop m n res)
      (\<lambda>t d r d'. case x of Inl err \<Rightarrow> r = Inl err \<and> d' = d | Inr res \<Rightarrow> counted lossy k i n res t d r d')" for x
    by (cases x) (simp_all add: steps_ret Suc.IH)
  show ?case
    unfolding step_loop.simps
    by (rule steps_weaken [OF steps_bind [OF steps_call [OF assms] rest]]) (blast intro: counted_Suc)
qed

text \<open>Fields put one by one: the count is the number of different new fields.\<close>

definition put_loop :: "string \<Rightarrow> (string \<times> string) list \<Rightarrow> nat \<Rightarrow> nat spec" where
  "put_loop k fvs n t d r d' \<longleftrightarrow>
     r = n + card (fst ` set fvs - fmdom' (the_flds (d k))) \<and>
     d' = (if fvs = [] then d else d(k := put_entry fvs (d k)))"

lemma put_loop_Cons:
  assumes "spec_HSet k f v t d x d1" and "put_loop k fvs (n + x) t1 d1 r d'"
  shows "put_loop k ((f, v) # fvs) n t d r d'"
proof -
  have d1: "the_flds (d1 k) = fmupd f v (the_flds (d k))" and x: "x = (if f \<in> fmdom' (the_flds (d k)) then 0 else 1)"
    using assms(1) by (auto simp: spec_HSet_def the_flds_def fmlookup_dom'_iff)
  have "fst ` set ((f, v) # fvs) - fmdom' (the_flds (d k)) =
      (if f \<in> fmdom' (the_flds (d k)) then {} else {f}) \<union> (fst ` set fvs - fmdom' (the_flds (d1 k)))"
    unfolding d1 by auto
  then have "x + card (fst ` set fvs - fmdom' (the_flds (d1 k))) =
      card (fst ` set ((f, v) # fvs) - fmdom' (the_flds (d k)))"
    unfolding x d1 by simp
  moreover have "d1 = d(k := put_entry [(f, v)] (d k))"
    using assms(1) by (simp add: spec_HSet_def put_entry_def put_all_def)
  then have "d' = d(k := put_entry ((f, v) # fvs) (d k))"
    using assms(2) by (auto simp: put_loop_def put_entry_def put_all_def the_flds_def split: if_splits)
  ultimately show ?thesis using assms(2) by (simp add: put_loop_def)
qed

lemma hmset_fields_put_all: "hmset_fields kvs m = put_all (pairs kvs) m"
  by (induction kvs m rule: hmset_fields.induct) (simp_all add: put_all_def)

lemma put_all_fmadd: "m ++\<^sub>f put_all fvs n = put_all fvs (m ++\<^sub>f n)"
  by (induction fvs arbitrary: n) (auto simp: put_all_def)

text \<open>Reading keys one by one. A key that was dropped as expired reads as absent ever after.\<close>

lemma get_entry_later:
  "x \<le> y \<Longrightarrow> get_entry y (get_entry x e) = get_entry y e"
  "x \<le> y \<Longrightarrow> value_or_empty (get_result y (get_entry x e)) = value_or_empty (get_result y e)"
  using expired_mono [of x y e]
  by (auto simp: get_entry_def get_result_def value_or_empty_def split: option.splits)

lemma spec_mget_Cons:
  assumes "spec_Get k t d x d1" and "t \<le> t1" and "spec_mget ks t1 d1 vs d'"
  shows "spec_mget (k # ks) t d (value_or_empty x # vs) d'"
proof -
  have x: "x = get_result t (d k)" and d1: "d1 = d(k := get_entry t (d k))"
    using assms(1) by (simp_all add: spec_Get_def)
  obtain ts at where ts: "length ts = length ks" "sorted (t1 # ts)"
    "vs = map (\<lambda>(k, x). value_or_empty (get_result x (d1 k))) (zip ks ts)"
    "\<forall>k \<in> set ks. at k \<in> set ts" "d' = (\<lambda>k. if k \<in> set ks then get_entry (at k) (d1 k) else d1 k)"
    using assms(3) unfolding spec_mget_def by blast
  have late: "t \<le> y" if "y \<in> set ts" for y using ts(2) assms(2) that by auto
  have same: "value_or_empty (get_result y (d1 j)) = value_or_empty (get_result y (d j))"
    if "y \<in> set ts" for y j
    using get_entry_later(2) [OF late [OF that]] by (simp add: d1)
  let ?at = "\<lambda>j. if j \<in> set ks then at j else t"
  have "vs = map (\<lambda>(k, x). value_or_empty (get_result x (d k))) (zip ks ts)"
    unfolding ts(3) using same by (auto dest: set_zip_rightD)
  moreover have "d' = (\<lambda>j. if j \<in> set (k # ks) then get_entry (?at j) (d j) else d j)"
    using ts(4) late get_entry_later(1) by (auto simp: ts(5) d1 fun_eq_iff)
  moreover have "sorted (t # t # ts)" using ts(2) assms(2) late by auto
  ultimately show ?thesis
    unfolding spec_mget_def using ts(1,4)
    by (intro exI [of _ "t # ts"] exI [of _ ?at]) (auto simp: x)
qed

context command_engine
begin

lemma steps_del_loop:
  "steps ok db clk (del_loop eng ks n) (\<lambda>t d r d'.
     \<exists>D \<subseteq> {k \<in> set ks. present (d k)}. (\<not> lossy \<longrightarrow> D = {k \<in> set ks. present (d k)}) \<and>
       r = n + card D \<and> d' = (\<lambda>k. if k \<in> D then no_entry else d k))"
proof (induction ks arbitrary: n)
  case Nil
  show ?case unfolding del_loop.simps by (rule steps_weaken [OF steps_ret]) auto
next
  case (Cons k ks)
  show ?case
    unfolding del_loop.simps
  proof (rule steps_weaken [OF steps_bind [OF steps_call [OF Del_lossy] Cons.IH]], elim exE conjE)
    fix t d r d' x d1 t1 D
    assume "if x = None then present (d k) \<and> d1 = d(k := no_entry) else (lossy \<or> \<not> present (d k)) \<and> d1 = d"
      and "D \<subseteq> {j \<in> set ks. present (d1 j)}" and "\<not> lossy \<longrightarrow> D = {j \<in> set ks. present (d1 j)}"
      and r: "r = (if x = None then n + 1 else n) + card D"
      and "d' = (\<lambda>j. if j \<in> D then no_entry else d1 j)"
    note s = steps_del_loop_step [OF this(1-3,5)]
    show "\<exists>D \<subseteq> {j \<in> set (k # ks). present (d j)}. (\<not> lossy \<longrightarrow> D = {j \<in> set (k # ks). present (d j)}) \<and>
        r = n + card D \<and> d' = (\<lambda>j. if j \<in> D then no_entry else d j)"
      using s unfolding r s(3) by blast
  qed
qed

lemma steps_mset_loop:
  "steps ok db clk (mset_loop eng kvs) (\<lambda>t d r d'.
     \<exists>kept. subseq kept (pairs kvs) \<and> (\<not> lossy \<longrightarrow> kept = pairs kvs) \<and> d' = set_all kept d)"
proof (induction kvs rule: induct_list012)
  case (3 k v rest)
  show ?case
    unfolding mset_loop.simps
  proof (rule steps_weaken [OF steps_bind [OF steps_call [OF Set_lossy] "3.IH"(1)]], elim exE conjE)
    fix t d r d' x d1 t1 kept
    assume d1: "d1 = d(k := set_entry v (d k)) \<or> lossy \<and> d1 = d"
      and kept: "subseq kept (pairs rest)" "\<not> lossy \<longrightarrow> kept = pairs rest" "d' = set_all kept d1"
    from d1 show "\<exists>kept. subseq kept (pairs (k # v # rest)) \<and> (\<not> lossy \<longrightarrow> kept = pairs (k # v # rest)) \<and>
        d' = set_all kept d"
    proof
      assume "d1 = d(k := set_entry v (d k))"
      then show ?thesis using kept by (intro exI [of _ "(k, v) # kept"]) (simp add: set_all_def)
    next
      assume "lossy \<and> d1 = d"
      then show ?thesis using kept by (intro exI [of _ kept]) auto
    qed
  qed
qed (auto intro!: steps_weaken [OF steps_ret] simp: set_all_def)

lemma steps_mget_loop:
  "steps ok db clk (mget_loop eng ks acc) (\<lambda>t d r d'. \<exists>vs. r = acc @ vs \<and> spec_mget ks t d vs d')"
proof (induction ks arbitrary: acc)
  case Nil
  show ?case unfolding mget_loop.simps by (rule steps_weaken [OF steps_ret]) (simp add: spec_mget_def)
next
  case (Cons k ks)
  show ?case
    unfolding mget_loop.simps value_or_empty_def [symmetric]
  proof (rule steps_weaken [OF steps_bind [OF steps_call [OF Get] Cons.IH]], elim exE conjE)
    fix t d r d' x d1 t1 vs
    assume "t \<le> t1" "spec_Get k t d x d1" "r = (acc @ [value_or_empty x]) @ vs" "spec_mget ks t1 d1 vs d'"
    then show "\<exists>vs. r = acc @ vs \<and> spec_mget (k # ks) t d vs d'"
      using spec_mget_Cons by (intro exI [of _ "value_or_empty x # vs"]) simp
  qed
qed

lemma steps_hset_loop: "steps ok db clk (hset_loop eng k fvs n) (put_loop k (pairs fvs) n)"
proof (induction fvs arbitrary: n rule: induct_list012)
  case (3 f v rest)
  show ?case
    unfolding hset_loop.simps pairs.simps
    by (rule steps_weaken [OF steps_bind [OF steps_call [OF HSet] "3.IH"(1)]]) (blast intro: put_loop_Cons)
qed (auto intro!: steps_weaken [OF steps_ret] simp: put_loop_def)

end

subsection \<open>Every command\<close>

lemma command_spec_abs:
  "command_spec lossy (Do_CALL c) = (\<lambda>t d r d'. \<exists>x. call_spec c t d x d' \<and> r = reply_of x)"
  by (simp add: fun_eq_iff)

lemma answers_error: "answers ok db clk (reply (WriteError msg)) (outcome_spec lossy (Inl msg))"
  by (rule answers_weaken [OF answers_reply [of _ _ _ "Error msg", unfolded render.simps]])
    (simp add: outcome_spec_def)

lemma answers_Inr:
  "answers ok db clk m (command_spec lossy c) \<Longrightarrow> answers ok db clk m (outcome_spec lossy (Inr c))"
  by (erule answers_weaken) (simp add: outcome_spec_def)

lemma answers_arity:
  assumes "b \<Longrightarrow> answers ok db clk m (outcome_spec lossy p)" "\<not> b \<Longrightarrow> answers ok db clk n (outcome_spec lossy q)"
  shows "answers ok db clk (if b then m else n) (outcome_spec lossy (if b then p else q))"
    "answers ok db clk (if \<not> b then n else m) (outcome_spec lossy (if b then p else q))"
  using assms by simp_all

lemma answers_number:
  assumes "\<And>n. answers ok db clk (f n) (outcome_spec lossy (g n))"
  shows "answers ok db clk (case Atoi s of None \<Rightarrow> reply (WriteError msg) | Some n \<Rightarrow> f n)
    (outcome_spec lossy (number msg s g))"
  using assms by (cases "Atoi s") (simp_all add: number_def answers_error del: Atoi.simps)

context command_engine
begin

lemma answers_CALL:
  assumes "perform eng c = as_result f m" and "\<And>x. k x = reply (render (reply_of (f x)))"
  shows "answers ok db clk (call_engine m \<bind> k) (outcome_spec lossy (Inr (Do_CALL c)))"
proof (rule answers_Inr)
  have "answers ok db clk (call_engine (perform eng c) \<bind> (\<lambda>x. reply (render (reply_of x))))
      (command_spec lossy (Do_CALL c))"
    unfolding command_spec_abs by (rule answers_last [OF steps_call [OF perform_refines]]) simp
  then show "answers ok db clk (call_engine m \<bind> k) (command_spec lossy (Do_CALL c))"
    unfolding assms call_engine_as_result .
qed

lemma refine_calls:
  "answers ok db clk (handle_GET eng args) (outcome_spec lossy (read_command ''GET'' args))"
  "answers ok db clk (handle_EXISTS eng args) (outcome_spec lossy (read_command ''EXISTS'' args))"
  "answers ok db clk (handle_EXPIRE eng args) (outcome_spec lossy (read_command ''EXPIRE'' args))"
  "answers ok db clk (handle_TTL eng args) (outcome_spec lossy (read_command ''TTL'' args))"
  "answers ok db clk (handle_PERSIST eng args) (outcome_spec lossy (read_command ''PERSIST'' args))"
  "answers ok db clk (handle_KEYS eng args) (outcome_spec lossy (read_command ''KEYS'' args))"
  "answers ok db clk (handle_FLUSHALL eng args) (outcome_spec lossy (read_command ''FLUSHALL'' args))"
  "answers ok db clk (handle_DBSIZE eng args) (outcome_spec lossy (read_command ''DBSIZE'' args))"
  "answers ok db clk (handle_LPUSH eng args) (outcome_spec lossy (read_command ''LPUSH'' args))"
  "answers ok db clk (handle_RPUSH eng args) (outcome_spec lossy (read_command ''RPUSH'' args))"
  "answers ok db clk (handle_LPOP eng args) (outcome_spec lossy (read_command ''LPOP'' args))"
  "answers ok db clk (handle_RPOP eng args) (outcome_spec lossy (read_command ''RPOP'' args))"
  "answers ok db clk (handle_LLEN eng args) (outcome_spec lossy (read_command ''LLEN'' args))"
  "answers ok db clk (handle_LRANGE eng args) (outcome_spec lossy (read_command ''LRANGE'' args))"
  "answers ok db clk (handle_LINDEX eng args) (outcome_spec lossy (read_command ''LINDEX'' args))"
  "answers ok db clk (handle_SADD eng args) (outcome_spec lossy (read_command ''SADD'' args))"
  "answers ok db clk (handle_SREM eng args) (outcome_spec lossy (read_command ''SREM'' args))"
  "answers ok db clk (handle_SMEMBERS eng args) (outcome_spec lossy (read_command ''SMEMBERS'' args))"
  "answers ok db clk (handle_SISMEMBER eng args) (outcome_spec lossy (read_command ''SISMEMBER'' args))"
  "answers ok db clk (handle_SCARD eng args) (outcome_spec lossy (read_command ''SCARD'' args))"
  "answers ok db clk (handle_SPOP eng args) (outcome_spec lossy (read_command ''SPOP'' args))"
  "answers ok db clk (handle_SRANDMEMBER eng args) (outcome_spec lossy (read_command ''SRANDMEMBER'' args))"
  "answers ok db clk (handle_HGET eng args) (outcome_spec lossy (read_command ''HGET'' args))"
  "answers ok db clk (handle_HDEL eng args) (outcome_spec lossy (read_command ''HDEL'' args))"
  "answers ok db clk (handle_HGETALL eng args) (outcome_spec lossy (read_command ''HGETALL'' args))"
  "answers ok db clk (handle_HKEYS eng args) (outcome_spec lossy (read_command ''HKEYS'' args))"
  "answers ok db clk (handle_HVALS eng args) (outcome_spec lossy (read_command ''HVALS'' args))"
  "answers ok db clk (handle_HEXISTS eng args) (outcome_spec lossy (read_command ''HEXISTS'' args))"
  "answers ok db clk (handle_HLEN eng args) (outcome_spec lossy (read_command ''HLEN'' args))"
  "answers ok db clk (handle_HMGET eng args) (outcome_spec lossy (read_command ''HMGET'' args))"
  unfolding handle_defs read_command_def command_table_def
  by (simp_all add: not_less del: Atoi.simps One_nat_def)
    ((intro conjI impI answers_arity answers_number answers_error
      | rule answers_CALL, rule perform.simps, simp split: sum.split)+)

end

lemma matchPattern_star: "matchPattern ''*'' k"
  by (auto simp: matchPattern_def globMatch_star)

lemma set_entry_get_entry [simp]: "set_entry v (get_entry t e) = set_entry v e"
  by (simp add: set_entry_def get_entry_def)

lemma counted_spec_count:
  "counted lossy k i n 0 t d x d' \<Longrightarrow> spec_count lossy k i n t d (reply_of (RInt x)) d'"
  by (cases x; cases "n = 0"; cases "counter_value (d k)"; simp add: counted_def spec_count_def)

lemma some_live_key:
  assumes "spec_Keys ''*'' t d ks d'"
  shows "command_spec lossy Do_RANDOMKEY t d (case ks of [] \<Rightarrow> Null | k # _ \<Rightarrow> Bulk k) d'"
  using assms by (cases ks) (auto simp: spec_Keys_def matchPattern_star)

lemmas table_facts = read_command_def command_table_def

context command_engine
begin

lemma answers_COUNT:
  assumes "does ok db clk m (counts lossy k i)"
  shows "answers ok db clk
    (do { r \<leftarrow> step_loop m n 0;
          (case r of Inl err \<Rightarrow> reply (WriteError out_of_range) | Inr res \<Rightarrow> reply (WriteInteger res)) })
    (outcome_spec lossy (Inr (Do_COUNT k i n)))"
proof (rule answers_Inr, rule answers_weaken)
  show "answers ok db clk
    (do { r \<leftarrow> step_loop m n 0;
          (case r of Inl err \<Rightarrow> reply (WriteError out_of_range) | Inr res \<Rightarrow> reply (WriteInteger res)) })
    (\<lambda>t d r d'. \<exists>x. counted lossy k i n 0 t d x d' \<and> r = reply_of (RInt x))"
    by (rule answers_last [OF steps_step_loop [OF assms]]) (simp split: sum.split)
qed (auto intro: counted_spec_count)

lemma answers_INCR:
  assumes "does ok db clk m (counts lossy k i)"
  shows "answers ok db clk
    (do { r \<leftarrow> call_engine m;
          (case r of Inl err \<Rightarrow> reply (WriteError out_of_range) | Inr res \<Rightarrow> reply (WriteInteger res)) })
    (outcome_spec lossy (Inr (Do_COUNT k i 1)))"
proof -
  have "step_loop m 1 0 = call_engine m"
    by (rule state.expand) (simp add: fun_eq_iff case_prod_unfold split: sum.split)
  then show ?thesis using answers_COUNT [OF assms, of 1] by simp
qed

lemma refine_counters:
  "answers ok db clk (handle_INCR eng args) (outcome_spec lossy (read_command ''INCR'' args))"
  "answers ok db clk (handle_DECR eng args) (outcome_spec lossy (read_command ''DECR'' args))"
  "answers ok db clk (handle_INCRBY eng args) (outcome_spec lossy (read_command ''INCRBY'' args))"
  "answers ok db clk (handle_DECRBY eng args) (outcome_spec lossy (read_command ''DECRBY'' args))"
  unfolding handle_defs table_facts
  by (simp_all del: Atoi.simps One_nat_def)
    ((intro conjI impI answers_arity answers_number answers_error
       answers_INCR answers_COUNT Incr_counts Decr_counts)+)

lemma answers_SET:
  "answers ok db clk (do { call_engine (eSet eng k v); reply (WriteSimpleString ''OK'') })
    (outcome_spec lossy (Inr (Do_SET k v)))"
  by (rule answers_Inr, rule answers_weaken [OF answers_last [OF steps_call [OF Set_lossy]]])
    (auto intro: sym [OF render.simps(1)])

lemma answers_DEL:
  "answers ok db clk (do { n \<leftarrow> del_loop eng ks 0; reply (WriteInteger (int n)) })
    (outcome_spec lossy (Inr (Do_DEL ks)))"
  by (rule answers_Inr, rule answers_weaken [OF answers_last [OF steps_del_loop, where g = "\<lambda>n. Integer (int n)"]])
    auto

lemma answers_MSET:
  "answers ok db clk (do { mset_loop eng kvs; reply (WriteSimpleString ''OK'') })
    (outcome_spec lossy (Inr (Do_MSET (pairs kvs))))"
  by (rule answers_Inr, rule answers_weaken [OF answers_last [OF steps_mset_loop, where g = "\<lambda>_. Simple ''OK''"]])
    auto

lemma answers_MGET:
  "answers ok db clk (do { vs \<leftarrow> mget_loop eng ks []; reply (WriteArray vs) })
    (outcome_spec lossy (Inr (Do_MGET ks)))"
  by (rule answers_Inr, rule answers_weaken [OF answers_last [OF steps_mget_loop, where g = Array]])
    auto

lemma answers_HSET:
  assumes "pairs fvs \<noteq> []"
  shows "answers ok db clk (do { n \<leftarrow> hset_loop eng k fvs 0; reply (WriteInteger (int n)) })
    (outcome_spec lossy (Inr (Do_HSET k (pairs fvs))))"
  by (rule answers_Inr, rule answers_weaken [OF answers_last [OF steps_hset_loop, where g = "\<lambda>n. Integer (int n)"]])
    (auto simp: put_loop_def assms)

lemma answers_HMSET:
  "answers ok db clk (do { call_engine (eHMSet eng k (hmset_fields fvs fmempty)); reply (WriteSimpleString ''OK'') })
    (outcome_spec lossy (Inr (Do_HMSET k (pairs fvs))))"
  by (rule answers_Inr, rule answers_weaken [OF answers_last [OF steps_call [OF HMSet], where g = "\<lambda>_. Simple ''OK''"]])
    (auto simp: spec_HMSet_def put_entry_def hmset_fields_put_all put_all_fmadd)

lemma answers_STRLEN:
  "answers ok db clk
    (do { r \<leftarrow> call_engine (eGet eng k);
          (case r of Inl err \<Rightarrow> reply (WriteInteger 0) | Inr val \<Rightarrow> reply (WriteInteger (int (length val)))) })
    (outcome_spec lossy (Inr (Do_STRLEN k)))"
  by (rule answers_Inr, rule answers_weaken
      [OF answers_last [OF steps_call [OF Get], where g = "\<lambda>r. Integer (int (length (value_or_empty r)))"]])
    (auto simp: spec_Get_def value_or_empty_def split: sum.splits)

lemma answers_RANDOMKEY:
  "answers ok db clk
    (do { keys \<leftarrow> call_engine (eKeys eng ''*'');
          (case keys of [] \<Rightarrow> reply WriteNull | k # ks \<Rightarrow> reply (WriteBulkString k)) })
    (outcome_spec lossy (Inr Do_RANDOMKEY))"
  by (rule answers_Inr, rule answers_weaken
      [OF answers_last [OF steps_call [OF Keys], where g = "\<lambda>ks. case ks of [] \<Rightarrow> Null | k # _ \<Rightarrow> Bulk k"]])
    (auto simp del: command_spec.simps intro: some_live_key split: list.split)

end

lemma live_get_entry: "get_result t e = Inr v \<Longrightarrow> get_entry t e = e"
  by (auto simp: get_result_def get_entry_def split: option.splits if_splits)

lemma not_live_absent: "\<not> present e \<Longrightarrow> \<not> live t e \<and> the_list e = [] \<and> fcard (the_mems e) = 0 \<and> map_len (the_flds e) = 0"
  by (simp add: present_def live_def the_list_def the_mems_def the_flds_def)

lemma not_present_no_entry [simp]: "\<not> present no_entry"
  by (simp add: present_def no_entry_def)

text \<open>TYPE: after the string, every test first asks for a length and then whether the key exists; a
  key that does not is gone before the later tests.\<close>

definition exists_step :: "nat \<Rightarrow> string \<Rightarrow> bool spec" where
  "exists_step n k t d r d' \<longleftrightarrow> (\<exists>t1 \<ge> t. r = (0 < n \<or> live t1 (d k)) \<and>
     d' = (if r \<or> \<not> present (d k) then d else d(k := no_entry)))"

definition none_if_absent :: "string \<Rightarrow> resp spec" where
  "none_if_absent k t d r d' \<longleftrightarrow> (\<not> present (d k) \<longrightarrow> r = Simple ''none'' \<and> d' = d)"

definition list_or_none :: "string \<Rightarrow> resp spec" where
  "list_or_none k t d r d' \<longleftrightarrow>
     (\<exists>t1 \<ge> t. if the_list (d k) \<noteq> [] \<or> live t1 (d k) then r = Simple ''list'' \<and> d' = d
        else r = Simple ''none'' \<and> d' = d(k := if present (d k) then no_entry else d k))"

lemma list_or_none_step:
  assumes "exists_step (length (the_list (d k))) k t d b d1"
    and "if b then r = Simple ''list'' \<and> d' = d1 else none_if_absent k t1 d1 r d'"
  shows "list_or_none k t d r d'"
proof -
  obtain t2 where t2: "t \<le> t2" "b = (the_list (d k) \<noteq> [] \<or> live t2 (d k))"
    "d1 = (if b \<or> \<not> present (d k) then d else d(k := no_entry))"
    using assms(1) unfolding exists_step_def length_greater_0_conv by blast
  show ?thesis
    unfolding list_or_none_def
  proof (intro exI [of _ t2] conjI t2(1))
    show "if the_list (d k) \<noteq> [] \<or> live t2 (d k) then r = Simple ''list'' \<and> d' = d
        else r = Simple ''none'' \<and> d' = d(k := if present (d k) then no_entry else d k)"
      using assms(2) t2(3) unfolding t2(2) [symmetric]
      by (cases b; cases "present (d k)") (simp_all add: none_if_absent_def)
  qed
qed

lemma exists_step_absent:
  "exists_step n k t d r d' \<Longrightarrow> \<not> present (d k) \<Longrightarrow> n = 0 \<Longrightarrow> \<not> r \<and> d' = d"
  by (auto simp: exists_step_def not_live_absent)

context command_engine
begin

lemma answers_APPEND:
  "answers ok db clk
    (do { r \<leftarrow> call_engine (eGet eng k);
          (case r of
             Inl err \<Rightarrow> do { call_engine (eSet eng k s); reply (WriteInteger (int (length s))) }
           | Inr old \<Rightarrow> do { call_engine (eSet eng k (old @ s)); reply (WriteInteger (int (length (old @ s)))) }) })
    (outcome_spec lossy (Inr (Do_APPEND k s)))"
proof (rule answers_Inr, rule answers_weaken)
  show "answers ok db clk
      (do { r \<leftarrow> call_engine (eGet eng k);
            (case r of
               Inl err \<Rightarrow> do { call_engine (eSet eng k s); reply (WriteInteger (int (length s))) }
             | Inr old \<Rightarrow> do { call_engine (eSet eng k (old @ s)); reply (WriteInteger (int (length (old @ s)))) }) })
      (\<lambda>t d r d'. \<exists>x d1 t1. t \<le> t1 \<and> spec_Get k t d x d1 \<and>
         (let v = value_or_empty x @ s
          in \<exists>u :: go_error option. (d' = d1(k := set_entry v (d1 k)) \<or> lossy \<and> d' = d1) \<and> r = Integer (int (length v))))"
  proof (rule answers_bind [OF steps_call [OF Get]], unfold Let_def)
    fix x :: "go_error + string"
    let ?v = "value_or_empty x @ s"
    have "answers ok db clk (do { call_engine (eSet eng k ?v); reply (WriteInteger (int (length ?v))) })
        (\<lambda>t d r d'. \<exists>u :: go_error option. (d' = d(k := set_entry ?v (d k)) \<or> lossy \<and> d' = d) \<and> r = Integer (int (length ?v)))"
      by (rule answers_last [OF steps_call [OF Set_lossy]]) simp
    then show "answers ok db clk
        (case x of
           Inl err \<Rightarrow> do { call_engine (eSet eng k s); reply (WriteInteger (int (length s))) }
         | Inr old \<Rightarrow> do { call_engine (eSet eng k (old @ s)); reply (WriteInteger (int (length (old @ s)))) })
        (\<lambda>t d r d'. \<exists>u :: go_error option. (d' = d(k := set_entry ?v (d k)) \<or> lossy \<and> d' = d) \<and> r = Integer (int (length ?v)))"
      by (cases x) (simp_all add: value_or_empty_def)
  qed
qed (auto simp: spec_Get_def Let_def)

lemma Del_removes:
  "does ok db clk (eDel eng k) (\<lambda>t d r d'. d' = d(k := if present (d k) then no_entry else d k) \<or> lossy \<and> d' = d)"
  by (rule does_weaken [OF Del_lossy]) (auto split: if_splits)

lemma answers_RENAME:
  "answers ok db clk
    (do { r \<leftarrow> call_engine (eGet eng a);
          (case r of
             Inl err \<Rightarrow> reply (WriteError ''ERR no such key'')
           | Inr v \<Rightarrow> do {
               call_engine (eSet eng b v); call_engine (eDel eng a); reply (WriteSimpleString ''OK'') }) })
    (outcome_spec lossy (Inr (Do_RENAME a b)))"
proof -
  let ?Q = "\<lambda>x t d r d'. case x of
      Inl err \<Rightarrow> r = Error ''ERR no such key'' \<and> d' = d
    | Inr v \<Rightarrow> r = Simple ''OK'' \<and> (\<exists>d1. (d1 = d(b := set_entry v (d b)) \<or> lossy \<and> d1 = d) \<and>
        (d' = d1(a := if present (d1 a) then no_entry else d1 a) \<or> lossy \<and> d' = d1))"
  have rest: "answers ok db clk
      (case x of
         Inl err \<Rightarrow> reply (WriteError ''ERR no such key'')
       | Inr v \<Rightarrow> do {
           call_engine (eSet eng b v); call_engine (eDel eng a); reply (WriteSimpleString ''OK'') }) (?Q x)"
    for x :: "go_error + string"
  proof (cases x)
    case (Inl err)
    then show ?thesis using answers_reply [of ok db clk "Error ''ERR no such key''"] by simp
  next
    case (Inr v)
    have "answers ok db clk (do { call_engine (eSet eng b v); call_engine (eDel eng a); reply (render (Simple ''OK'')) })
        (?Q (Inr v))"
      by (rule answers_weaken [OF answers_bind [OF steps_call [OF Set_lossy]
              answers_last [OF steps_call [OF Del_removes] refl]]]) (unfold sum.case, blast)
    then show ?thesis using Inr by simp
  qed
  show ?thesis
  proof (rule answers_Inr, rule answers_weaken [OF answers_bind [OF steps_call [OF Get] rest]], elim exE conjE)
    fix t d r d' x d1 t1
    assume g: "spec_Get a t d x d1" and q: "?Q x t1 d1 r d'"
    show "command_spec lossy (Do_RENAME a b) t d r d'"
    proof (cases x)
      case (Inl err)
      then have "get_result t (d a) = Inl err" using g by (simp add: spec_Get_def)
      then show ?thesis using g q Inl by (simp add: spec_Get_def)
    next
      case (Inr v)
      then have v: "get_result t (d a) = Inr v" using g by (simp add: spec_Get_def)
      then have d1: "d1 = d" using g live_get_entry [OF v] by (simp add: spec_Get_def)
      have "present (d a)" using v by (auto simp: get_result_def present_def split: option.splits)
      moreover have "present (set_entry v e)" for e by (simp add: present_def set_entry_def)
      ultimately show ?thesis using q Inr v d1 by (auto simp: Let_def)
    qed
  qed
qed

lemma steps_or_exists:
  assumes "does ok db clk m (\<lambda>t d r d'. r = f (d k) \<and> d' = d)"
  shows "steps ok db clk (or_exists eng m k) (\<lambda>t d. exists_step (f (d k)) k t d)"
proof -
  have rest: "steps ok db clk (if 0 < n then ret True else call_engine (eExists eng k))
      (\<lambda>t d r d'. if 0 < n then r \<and> d' = d else spec_Exists k t d r d')" for n :: nat
    using steps_ret [of ok db clk True] steps_call [OF Exists] by simp
  show ?thesis
    unfolding or_exists_def
    by (rule steps_weaken [OF steps_bind [OF steps_call [OF assms] rest]])
      (auto simp: exists_step_def spec_Exists_def live_def split: if_splits)
qed

lemma TYPE_lengths:
  "does ok db clk (eLLen eng k) (\<lambda>t d r d'. r = length (the_list (d k)) \<and> d' = d)"
  "does ok db clk (eSCard eng k) (\<lambda>t d r d'. r = fcard (the_mems (d k)) \<and> d' = d)"
  "does ok db clk (eHLen eng k) (\<lambda>t d r d'. r = map_len (the_flds (d k)) \<and> d' = d)"
  using LLen SCard HLen by (simp_all add: spec_LLen_def [abs_def] spec_SCard_def [abs_def] spec_HLen_def [abs_def])

lemma absent_test:
  assumes "does ok db clk m (\<lambda>t d r d'. r = f (d k) \<and> d' = d)" and "\<And>e. \<not> present e \<Longrightarrow> f e = 0"
    and "answers ok db clk n (none_if_absent k)"
  shows "answers ok db clk (do { b \<leftarrow> or_exists eng m k; (if b then reply (WriteSimpleString s) else n) })
    (none_if_absent k)"
proof -
  have rest: "answers ok db clk (if b then reply (WriteSimpleString s) else n)
      (\<lambda>t d r d'. if b then r = Simple s \<and> d' = d else none_if_absent k t d r d')" for b
    using assms(3) answers_reply [of ok db clk "Simple s"] by simp
  show ?thesis
    by (rule answers_weaken [OF answers_bind [OF steps_or_exists [OF assms(1)] rest]])
      (use exists_step_absent assms(2) in \<open>fastforce simp: none_if_absent_def\<close>)
qed

lemma answers_list_test:
  "answers ok db clk
    (do { l \<leftarrow> or_exists eng (eLLen eng k) k;
          (if l then reply (WriteSimpleString ''list'')
           else do {
             s \<leftarrow> or_exists eng (eSCard eng k) k;
             (if s then reply (WriteSimpleString ''set'')
              else do {
                h \<leftarrow> or_exists eng (eHLen eng k) k;
                (if h then reply (WriteSimpleString ''hash'') else reply (WriteSimpleString ''none'')) }) }) })
    (list_or_none k)" (is "answers _ _ _ (_ \<bind> (\<lambda>l. if l then _ else ?set)) _")
proof -
  have none: "answers ok db clk (reply (WriteSimpleString ''none'')) (none_if_absent k)"
    by (rule answers_weaken [OF answers_reply [of _ _ _ "Simple ''none''", unfolded render.simps]])
      (simp add: none_if_absent_def)
  have set: "answers ok db clk ?set (none_if_absent k)"
    by (intro absent_test [OF TYPE_lengths(2)] absent_test [OF TYPE_lengths(3)] none) (simp_all add: not_live_absent)
  have l: "answers ok db clk (if b then reply (WriteSimpleString ''list'') else ?set)
      (\<lambda>t d r d'. if b then r = Simple ''list'' \<and> d' = d else none_if_absent k t d r d')" for b
    using set answers_reply [of ok db clk "Simple ''list''"] by simp
  show ?thesis
    by (rule answers_weaken [OF answers_bind [OF steps_or_exists [OF TYPE_lengths(1)] l]])
      (blast intro: list_or_none_step)
qed

lemma answers_TYPE:
  assumes "length args = 2"
  shows "answers ok db clk (handle_TYPE eng args) (outcome_spec lossy (Inr (Do_TYPE (args ! 1))))"
proof (rule answers_Inr, rule answers_weaken)
  let ?k = "args ! 1"
  have arity: "\<not> length args \<noteq> 2" using assms by simp
  have first: "answers ok db clk (if \<not> isl x then reply (WriteSimpleString ''string'') else m)
      (\<lambda>t d r d'. if \<not> isl x then r = Simple ''string'' \<and> d' = d else list_or_none ?k t d r d')"
    if "answers ok db clk m (list_or_none ?k)" for x :: "go_error + string" and m
    using that answers_reply [of ok db clk "Simple ''string''"] by simp
  show "answers ok db clk (handle_TYPE eng args) (\<lambda>t d r d'. \<exists>x d1 t1. t \<le> t1 \<and> spec_Get ?k t d x d1 \<and>
      (if \<not> isl x then r = Simple ''string'' \<and> d' = d1 else list_or_none ?k t1 d1 r d'))"
    unfolding handle_TYPE_def if_not_P [OF arity]
    by (rule answers_bind [OF steps_call [OF Get]], rule first, rule answers_list_test)
  fix t d r d'
  assume "\<exists>x d1 t1. t \<le> t1 \<and> spec_Get ?k t d x d1 \<and>
      (if \<not> isl x then r = Simple ''string'' \<and> d' = d1 else list_or_none ?k t1 d1 r d')"
  then obtain x d1 t1 where g: "t \<le> t1" "x = get_result t (d ?k)" "d1 = d(?k := get_entry t (d ?k))"
    and q: "if \<not> isl x then r = Simple ''string'' \<and> d' = d1 else list_or_none ?k t1 d1 r d'"
    unfolding spec_Get_def by blast
  show "command_spec lossy (Do_TYPE ?k) t d r d'"
  proof (cases "isl x")
    case True
    then obtain t2 where t2: "t1 \<le> t2"
      "if the_list (d1 ?k) \<noteq> [] \<or> live t2 (d1 ?k) then r = Simple ''list'' \<and> d' = d1
        else r = Simple ''none'' \<and> d' = d1(?k := if present (d1 ?k) then no_entry else d1 ?k)"
      using q unfolding list_or_none_def by auto
    have "t \<le> t2" using g(1) t2(1) by simp
    moreover have "isl (get_result t (d ?k))" using True g(2) by simp
    ultimately show ?thesis
      using t2(2) unfolding command_spec.simps Let_def g(3) by (intro exI [of _ t2]) (simp split: if_splits)
  next
    case False
    then obtain v where "get_result t (d ?k) = Inr v" using g(2) by (metis isl_def sum.exhaust)
    then have "get_entry t (d ?k) = d ?k" by (rule live_get_entry)
    then show ?thesis using False g q by auto
  qed
qed

end

lemma pairs_nonempty: "2 \<le> length xs \<Longrightarrow> pairs xs \<noteq> []"
  by (induction xs rule: pairs.induct) auto

lemma answers_plain:
  "answers ok db clk (reply (WriteSimpleString ''OK'')) (outcome_spec lossy (Inr Do_COMMAND))"
  "answers ok db clk (reply (WriteSimpleString ''PONG'')) (outcome_spec lossy (Inr (Do_PING None)))"
  "answers ok db clk (reply (WriteBulkString s)) (outcome_spec lossy (Inr (Do_PING (Some s))))"
  by (rule answers_Inr, rule answers_weaken
      [OF answers_reply [of _ _ _ "Simple ''OK''", unfolded render.simps]], simp)
    (rule answers_Inr, rule answers_weaken
      [OF answers_reply [of _ _ _ "Simple ''PONG''", unfolded render.simps]], simp,
     rule answers_Inr, rule answers_weaken
      [OF answers_reply [of _ _ _ "Bulk s", unfolded render.simps]], simp)

lemma even_minus_two: "(n - 2) mod 2 = 0 \<longleftrightarrow> even n" if "4 \<le> n" for n :: nat
  using that by presburger

context command_engine
begin

lemma refine_keys:
  "answers ok db clk (handle_PING eng args) (outcome_spec lossy (read_command ''PING'' args))"
  "answers ok db clk (handle_COMMAND eng args) (outcome_spec lossy (read_command ''COMMAND'' args))"
  "answers ok db clk (handle_SET eng args) (outcome_spec lossy (read_command ''SET'' args))"
  "answers ok db clk (handle_DEL eng args) (outcome_spec lossy (read_command ''DEL'' args))"
  "answers ok db clk (handle_RENAME eng args) (outcome_spec lossy (read_command ''RENAME'' args))"
  "answers ok db clk (handle_APPEND eng args) (outcome_spec lossy (read_command ''APPEND'' args))"
  "answers ok db clk (handle_STRLEN eng args) (outcome_spec lossy (read_command ''STRLEN'' args))"
  "answers ok db clk (handle_MGET eng args) (outcome_spec lossy (read_command ''MGET'' args))"
  "answers ok db clk (handle_RANDOMKEY eng args) (outcome_spec lossy (read_command ''RANDOMKEY'' args))"
  unfolding handle_defs table_facts
  by (simp_all add: not_less Suc_le_eq del: Atoi.simps One_nat_def length_append)
    ((intro conjI impI answers_plain answers_error answers_SET answers_DEL answers_RENAME
       answers_APPEND answers_STRLEN answers_MGET answers_RANDOMKEY)+)

lemma refine_pairs:
  "answers ok db clk (handle_MSET eng args) (outcome_spec lossy (read_command ''MSET'' args))"
  "answers ok db clk (handle_HSET eng args) (outcome_spec lossy (read_command ''HSET'' args))"
  "answers ok db clk (handle_HMSET eng args) (outcome_spec lossy (read_command ''HMSET'' args))"
  "answers ok db clk (handle_TYPE eng args) (outcome_spec lossy (read_command ''TYPE'' args))"
proof -
  show "answers ok db clk (handle_MSET eng args) (outcome_spec lossy (read_command ''MSET'' args))"
    using answers_MSET [of "tl args"]
    by (auto simp: handle_MSET_def table_facts answers_error odd_iff_mod_2_eq_one)
  show "answers ok db clk (handle_HSET eng args) (outcome_spec lossy (read_command ''HSET'' args))"
    using answers_HSET [of "drop 2 args" "args ! 1"] pairs_nonempty [of "drop 2 args"] even_minus_two [of "length args"]
    by (auto simp: handle_HSET_def table_facts answers_error not_less)
  show "answers ok db clk (handle_HMSET eng args) (outcome_spec lossy (read_command ''HMSET'' args))"
    using answers_HMSET [of "args ! 1" "drop 2 args"] even_minus_two [of "length args"]
    by (auto simp: handle_HMSET_def table_facts answers_error not_less)
  show "answers ok db clk (handle_TYPE eng args) (outcome_spec lossy (read_command ''TYPE'' args))"
  proof (cases "length args = 2")
    case True
    then show ?thesis using answers_TYPE [OF True] by (simp add: table_facts)
  next
    case False
    then show ?thesis by (simp add: handle_TYPE_def table_facts answers_error)
  qed
qed

lemma refine_default:
  "cmd \<notin> fst ` set command_table \<Longrightarrow>
    answers ok db clk (handle_default args) (outcome_spec lossy (read_command cmd args))"
  by (simp add: handle_default_def read_command_def answers_error flip: map_of_eq_None_iff)

lemma answers_if:
  "(b \<Longrightarrow> answers ok db clk m P) \<Longrightarrow> (\<not> b \<Longrightarrow> answers ok db clk n P) \<Longrightarrow>
    answers ok db clk (if b then m else n) P"
  by simp

lemma dispatch_refines:
  assumes "cmd \<noteq> ''CONFIG''"
  shows "answers ok db clk (dispatch eng cmd args) (outcome_spec lossy (read_command cmd args))"
  unfolding dispatch_def
  by (intro answers_if)
    (simp_all only: refine_calls refine_counters refine_keys refine_pairs assms simp_thms,
     rule refine_default, simp add: command_table_def)

lemma Handle_refines:
  fixes env :: runtime_env
  assumes "ok (engine h)" and "args \<noteq> []" and "ToUpper (args ! 0) \<notin> {''INFO'', ''CONFIG''}"
  defines "h' \<equiv> after (Handle env eng args) h"
  shows "ok (engine h') \<and> clk (engine h) \<le> clk (engine h') \<and>
    cfg h' = cfg h \<and> stats h' = add_TotalCommands 1 (stats h) \<and>
    (\<exists>r. out h' = out h @ render r \<and>
       outcome_spec lossy (read_command (ToUpper (args ! 0)) args)
         (clk (engine h)) (db (engine h)) r (db (engine h')))"
proof -
  let ?cmd = "ToUpper (args ! 0)" and ?h = "h\<lparr>stats := add_TotalCommands 1 (stats h)\<rparr>"
  have "answers ok db clk (dispatch eng ?cmd args) (outcome_spec lossy (read_command ?cmd args))"
    using assms(3) by (intro dispatch_refines) blast
  moreover have "h' = after (dispatch eng ?cmd args) ?h"
    using assms(2,3) by (simp add: h'_def Handle_def Let_def case_prod_unfold)
  ultimately show ?thesis
    using assms(1) unfolding answers_def Let_def same_frame_def by (elim allE [of _ ?h]) simp
qed

end

interpretation memc: command_engine MemoryEngine_methods mem_ok mem_db mem_clk False
proof unfold_locales
  fix s :: "'a mem_state" and k v
  assume s: "mem_ok s"
  show "runs (eSet MemoryEngine_methods k v) s = None" by (rule memr.Set_ok [OF s])
  show "present (mem_db s k) \<Longrightarrow> runs (eDel MemoryEngine_methods k) s = None"
    using memr.Del_ok [OF s] by simp
  show "isl (runs (eIncr MemoryEngine_methods k) s) \<Longrightarrow> counter_value (mem_db s k) = None"
    using memr.Incr_ok [OF s] by simp
  show "isl (runs (eDecr MemoryEngine_methods k) s) \<Longrightarrow> counter_value (mem_db s k) = None"
    by (cases s) (simp add: MemoryEngine_methods_def MemoryEngine_Decr_def call_def mem_db_def
        Store_Decr_result bump_result_def case_prod_unfold split: option.splits)
qed

interpretation walc: command_engine WALEngine_methods wal_ok wal_db wal_clk True
  by unfold_locales simp_all

subsection \<open>Properties\<close>

text \<open>C4: Refinement of the command set on the logging engine. Whatever the request, apart from INFO
  and CONFIG, and whatever the disk does: the handler writes one reply, the database and the reply are
  related to the database before as the abstract machine says, counting one command and leaving the
  configuration alone. A wrong number of arguments, a bad number or an unknown name is answered with
  its error and changes nothing.\<close>

theorem commands_refine_wal:
  fixes env :: runtime_env
  assumes "wal_ok (engine h)" and "args \<noteq> []" and "ToUpper (args ! 0) \<notin> {''INFO'', ''CONFIG''}"
  defines "h' \<equiv> after (Handle env WALEngine_methods args) h"
  shows "wal_ok (engine h') \<and> wal_clk (engine h) \<le> wal_clk (engine h') \<and>
    cfg h' = cfg h \<and> stats h' = add_TotalCommands 1 (stats h) \<and>
    (\<exists>r. out h' = out h @ render r \<and>
       outcome_spec True (read_command (ToUpper (args ! 0)) args)
         (wal_clk (engine h)) (wal_db (engine h)) r (wal_db (engine h')))"
  unfolding h'_def using assms(1-3) by (rule walc.Handle_refines)

theorem commands_refine_wal_witness:
  "\<forall>env. out (after (Handle env WALEngine_methods [''scard'', ''k'']) example_wal_handler) =
     out example_wal_handler @ WriteInteger 1"
proof
  fix env
  have cmd: "ToUpper ''scard'' = ''SCARD''" by code_simp
  have "read_command ''SCARD'' [''scard'', ''k''] = Inr (Do_CALL (CSCard ''k''))" by (simp add: table_facts)
  with commands_refine_wal [OF example_wal_handler_ok, of "[''scard'', ''k'']" env] cmd
  show "out (after (Handle env WALEngine_methods [''scard'', ''k'']) example_wal_handler) =
      out example_wal_handler @ WriteInteger 1"
    by (auto simp: outcome_spec_def spec_SCard_def example_wal_handler_db the_mems_def fcard.rep_eq)
qed

text \<open>C12: Refinement of the command set on the memory engine, which loses no write: the abstract
  machine with its exact effects.\<close>

theorem commands_refine_memory:
  fixes env :: runtime_env
  assumes "mem_ok (engine h)" and "args \<noteq> []" and "ToUpper (args ! 0) \<notin> {''INFO'', ''CONFIG''}"
  defines "h' \<equiv> after (Handle env MemoryEngine_methods args) h"
  shows "mem_ok (engine h') \<and> mem_clk (engine h) \<le> mem_clk (engine h') \<and>
    cfg h' = cfg h \<and> stats h' = add_TotalCommands 1 (stats h) \<and>
    (\<exists>r. out h' = out h @ render r \<and>
       outcome_spec False (read_command (ToUpper (args ! 0)) args)
         (mem_clk (engine h)) (mem_db (engine h)) r (mem_db (engine h')))"
  unfolding h'_def using assms(1-3) by (rule memc.Handle_refines)

theorem commands_refine_memory_witness:
  "\<forall>env. out (after (Handle env MemoryEngine_methods [''del'', ''x'', ''k'']) example_handler) =
     out example_handler @ WriteInteger 1"
proof
  fix env
  have cmd: "ToUpper ''del'' = ''DEL''" by code_simp
  have read: "read_command ''DEL'' [''del'', ''x'', ''k''] = Inr (Do_DEL [''x'', ''k''])" by (simp add: table_facts)
  have "{k \<in> set [''x'', ''k'']. present (mem_db (engine example_handler) k)} = {''k''}"
    by (auto simp: example_handler present_def no_entry_def)
  with commands_refine_memory [OF example_handler_ok, of "[''del'', ''x'', ''k'']" env] cmd read
  show "out (after (Handle env MemoryEngine_methods [''del'', ''x'', ''k'']) example_handler) =
      out example_handler @ WriteInteger 1"
    by (auto simp: outcome_spec_def)
qed

end
