(* ===== verification/Durability.thy ===== *)
theory Durability
  imports Recovery Server Commands_Refine
begin

section \<open>What a client wrote survives a crash\<close>

text \<open>
  Crash recovery is proved for calls of the engine. Here it is carried to what a client sends:
  every command issues a list of calls of the engine; if the command is one the log can
  reproduce, all of them are. So the store of a server that is stopped at any point between
  two requests of a connection is rebuilt by the next start.
\<close>

subsection \<open>The calls a handler issues\<close>

definition run_calls :: "'s StorageEngine \<Rightarrow> engine_call list \<Rightarrow> ('s, unit) state" where
  "run_calls eng cs = for_each cs (run_call eng)"

definition cost :: "engine_call list \<Rightarrow> nat" where
  "cost cs = sum_list (map call_cost cs)"

definition issues ::
    "'s StorageEngine \<Rightarrow> (engine_call \<Rightarrow> bool) \<Rightarrow> nat \<Rightarrow> ('s Handler, 'r) state \<Rightarrow> bool" where
  "issues eng Q n m \<longleftrightarrow>
     (\<forall>h. \<exists>cs. list_all Q cs \<and> cost cs \<le> n \<and> engine (after m h) = after (run_calls eng cs) (engine h))"

lemma after_run_calls [simp]:
  "after (run_calls eng []) s = s"
  "after (run_calls eng (c # cs)) s = after (run_calls eng cs) (after (perform eng c) s)"
  "after (run_calls eng (cs @ ds)) s = after (run_calls eng ds) (after (run_calls eng cs) s)"
  by (simp_all add: run_calls_def run_call_def discard_def case_prod_unfold after_for_each_append)

lemma cost_simps [simp]: "cost [] = 0" "cost (c # cs) = call_cost c + cost cs" "cost (cs @ ds) = cost cs + cost ds"
  by (simp_all add: cost_def)

lemma issues_none: "(\<And>h. engine (after m h) = engine h) \<Longrightarrow> issues eng Q n m"
  unfolding issues_def by (intro allI exI [of _ "[]"]) simp

lemma issues_reply: "issues eng Q n (reply t)" "issues eng Q n (ret x)"
  by (rule issues_none, simp)+

lemma issues_call:
  assumes "perform eng c = as_result f m" and "Q c" and "call_cost c \<le> n"
  shows "issues eng Q n (call_engine m)"
  unfolding issues_def
proof
  fix h
  have "after (perform eng c) s = after m s" for s by (simp add: assms(1))
  then show "\<exists>cs. list_all Q cs \<and> cost cs \<le> n \<and> engine (after (call_engine m) h) = after (run_calls eng cs) (engine h)"
    using assms(2,3) by (intro exI [of _ "[c]"]) (simp add: case_prod_unfold)
qed

lemma issues_bind:
  assumes "issues eng Q i m" and "\<And>x. issues eng Q j (f x)" and "i + j \<le> n"
  shows "issues eng Q n (m \<bind> f)"
  unfolding issues_def
proof
  fix h
  obtain x h1 where m: "run_state m h = (x, h1)" by (metis prod.exhaust)
  obtain cs where cs: "list_all Q cs" "cost cs \<le> i" "engine h1 = after (run_calls eng cs) (engine h)"
    using assms(1) m unfolding issues_def by (metis snd_conv)
  obtain ds where ds: "list_all Q ds" "cost ds \<le> j"
    "engine (after (f x) h1) = after (run_calls eng ds) (engine h1)"
    using assms(2) [of x] unfolding issues_def by blast
  show "\<exists>cs. list_all Q cs \<and> cost cs \<le> n \<and> engine (after (m \<bind> f) h) = after (run_calls eng cs) (engine h)"
    using cs ds assms(3) m by (intro exI [of _ "cs @ ds"]) simp
qed

lemma issues_then_reply:
  assumes "issues eng Q n m" and "\<And>x h. engine (after (f x) h) = engine h"
  shows "issues eng Q n (m \<bind> f)"
  by (rule issues_bind [OF assms(1) issues_none [OF assms(2)], where j = 0]) simp

subsection \<open>The commands the log can reproduce\<close>

text \<open>
  Left out are the ones the calls leave out (EXPIRE, SPOP, LPUSH of several values, long keys),
  and APPEND and RENAME, whose values come from the store and not from the request.
\<close>

fun safe_command :: "command \<Rightarrow> bool" where
  "safe_command (Do_CALL c) = safe_call c"
| "safe_command (Do_SET k v) = safe_call (CSet k v)"
| "safe_command (Do_DEL ks) = list_all short_key ks"
| "safe_command (Do_COUNT k i n) = short_key k"
| "safe_command (Do_RENAME a b) = False"
| "safe_command (Do_APPEND k s) = False"
| "safe_command (Do_MSET kvs) = list_all (\<lambda>(k, v). short_key k \<and> short_value v) kvs"
| "safe_command (Do_HSET k fvs) = (short_key k \<and> list_all (\<lambda>(f, v). safe_field f v) fvs)"
| "safe_command (Do_HMSET k fvs) = safe_call (CHMSet k (put_all fvs fmempty))"
| "safe_command c = True"

text \<open>How many records a command may write; a read counts as one.\<close>

fun command_cost :: "command \<Rightarrow> nat" where
  "command_cost (Do_CALL c) = call_cost c"
| "command_cost (Do_DEL ks) = length ks"
| "command_cost (Do_COUNT k i n) = n"
| "command_cost (Do_TYPE k) = 7"
| "command_cost (Do_MSET kvs) = length kvs"
| "command_cost (Do_MGET ks) = length ks"
| "command_cost (Do_HSET k fvs) = length fvs"
| "command_cost (Do_HMSET k fvs) = call_cost (CHMSet k (put_all fvs fmempty))"
| "command_cost c = 1"

definition safe_request :: "string list \<Rightarrow> bool" where
  "safe_request args \<longleftrightarrow>
     (case read_command (ToUpper (args ! 0)) args of Inl msg \<Rightarrow> True | Inr c \<Rightarrow> safe_command c)"

definition request_cost :: "string list \<Rightarrow> nat" where
  "request_cost args =
     (case read_command (ToUpper (args ! 0)) args of Inl msg \<Rightarrow> 1 | Inr c \<Rightarrow> command_cost c)"

subsection \<open>The loops\<close>

abbreviation safely :: "'s StorageEngine \<Rightarrow> nat \<Rightarrow> ('s Handler, 'r) state \<Rightarrow> bool" where
  "safely eng \<equiv> issues eng safe_call"

lemma safely_del_loop: "list_all short_key ks \<Longrightarrow> safely eng (length ks) (del_loop eng ks n)"
proof (induction ks arbitrary: n)
  case (Cons k ks)
  then show ?case
    by (auto intro!: issues_bind [where i = 1 and j = "length ks"] issues_call [OF perform.simps(3)])
qed (simp add: issues_reply)

lemma safely_step_loop: "safely eng 1 (call_engine m) \<Longrightarrow> safely eng n (step_loop m n r)"
proof (induction n arbitrary: r)
  case (Suc n)
  then show ?case
    by (auto intro!: issues_bind [where i = 1 and j = n] simp: issues_reply split: sum.split)
qed (simp add: issues_reply)

lemma safely_mset_loop:
  "list_all (\<lambda>(k, v). short_key k \<and> short_value v) (pairs kvs) \<Longrightarrow> safely eng (length (pairs kvs)) (mset_loop eng kvs)"
proof (induction kvs rule: induct_list012)
  case (3 k v rest)
  then show ?case
    by (auto intro!: issues_bind [where i = 1 and j = "length (pairs rest)"] issues_call [OF perform.simps(2)])
qed (simp_all add: issues_reply)

lemma safely_mget_loop: "safely eng (length ks) (mget_loop eng ks rs)"
proof (induction ks arbitrary: rs)
  case (Cons k ks)
  then show ?case
    by (auto intro!: issues_bind [where i = 1 and j = "length ks"] issues_call [OF perform.simps(1)])
qed (simp add: issues_reply)

lemma safely_hset_loop:
  "short_key k \<Longrightarrow> list_all (\<lambda>(f, v). safe_field f v) (pairs fvs) \<Longrightarrow>
    safely eng (length (pairs fvs)) (hset_loop eng k fvs n)"
proof (induction fvs arbitrary: n rule: induct_list012)
  case (3 f v rest)
  then show ?case
    by (auto intro!: issues_bind [where i = 1 and j = "length (pairs rest)"] issues_call [OF perform.simps(27)])
qed (simp_all add: issues_reply)

lemma safely_or_exists:
  "safely eng 1 (call_engine m) \<Longrightarrow> safely eng 2 (or_exists eng m k)"
  unfolding or_exists_def
  by (auto intro!: issues_bind [where i = 1 and j = 1] issues_call [OF perform.simps(4)] simp: issues_reply)

subsection \<open>Every command\<close>

definition reproducible :: "'s StorageEngine \<Rightarrow> string + command \<Rightarrow> ('s Handler, unit) state \<Rightarrow> bool" where
  "reproducible eng q m \<longleftrightarrow>
     (case q of Inl msg \<Rightarrow> safely eng 0 m | Inr c \<Rightarrow> safe_command c \<longrightarrow> safely eng (command_cost c) m)"

lemma reproducible_error: "reproducible eng (Inl msg) (reply t)"
  by (simp add: reproducible_def issues_reply)

lemma reproducible_arity:
  "(b \<Longrightarrow> reproducible eng p m) \<Longrightarrow> (\<not> b \<Longrightarrow> reproducible eng q n) \<Longrightarrow>
    reproducible eng (if b then p else q) (if b then m else n)"
  by simp

lemma reproducible_number:
  "(\<And>n. reproducible eng (g n) (f n)) \<Longrightarrow>
    reproducible eng (number msg s g) (case Atoi s of None \<Rightarrow> reply t | Some n \<Rightarrow> f n)"
  by (cases "Atoi s") (simp_all add: number_def reproducible_error del: Atoi.simps)

lemma reproducible_CALL:
  assumes "perform eng c = as_result f m" and "\<And>x h. engine (after (k x) h) = engine h"
  shows "reproducible eng (Inr (Do_CALL c)) (call_engine m \<bind> k)"
  using issues_then_reply [OF issues_call [OF assms(1)] assms(2), of safe_call "call_cost c"]
  by (simp add: reproducible_def)

lemma reproducible_calls:
  "reproducible eng (read_command ''GET'' args) (handle_GET eng args)"
  "reproducible eng (read_command ''EXISTS'' args) (handle_EXISTS eng args)"
  "reproducible eng (read_command ''EXPIRE'' args) (handle_EXPIRE eng args)"
  "reproducible eng (read_command ''TTL'' args) (handle_TTL eng args)"
  "reproducible eng (read_command ''PERSIST'' args) (handle_PERSIST eng args)"
  "reproducible eng (read_command ''KEYS'' args) (handle_KEYS eng args)"
  "reproducible eng (read_command ''FLUSHALL'' args) (handle_FLUSHALL eng args)"
  "reproducible eng (read_command ''DBSIZE'' args) (handle_DBSIZE eng args)"
  "reproducible eng (read_command ''LPUSH'' args) (handle_LPUSH eng args)"
  "reproducible eng (read_command ''RPUSH'' args) (handle_RPUSH eng args)"
  "reproducible eng (read_command ''LPOP'' args) (handle_LPOP eng args)"
  "reproducible eng (read_command ''RPOP'' args) (handle_RPOP eng args)"
  "reproducible eng (read_command ''LLEN'' args) (handle_LLEN eng args)"
  "reproducible eng (read_command ''LRANGE'' args) (handle_LRANGE eng args)"
  "reproducible eng (read_command ''LINDEX'' args) (handle_LINDEX eng args)"
  "reproducible eng (read_command ''SADD'' args) (handle_SADD eng args)"
  "reproducible eng (read_command ''SREM'' args) (handle_SREM eng args)"
  "reproducible eng (read_command ''SMEMBERS'' args) (handle_SMEMBERS eng args)"
  "reproducible eng (read_command ''SISMEMBER'' args) (handle_SISMEMBER eng args)"
  "reproducible eng (read_command ''SCARD'' args) (handle_SCARD eng args)"
  "reproducible eng (read_command ''SPOP'' args) (handle_SPOP eng args)"
  "reproducible eng (read_command ''SRANDMEMBER'' args) (handle_SRANDMEMBER eng args)"
  "reproducible eng (read_command ''HGET'' args) (handle_HGET eng args)"
  "reproducible eng (read_command ''HDEL'' args) (handle_HDEL eng args)"
  "reproducible eng (read_command ''HGETALL'' args) (handle_HGETALL eng args)"
  "reproducible eng (read_command ''HKEYS'' args) (handle_HKEYS eng args)"
  "reproducible eng (read_command ''HVALS'' args) (handle_HVALS eng args)"
  "reproducible eng (read_command ''HEXISTS'' args) (handle_HEXISTS eng args)"
  "reproducible eng (read_command ''HLEN'' args) (handle_HLEN eng args)"
  "reproducible eng (read_command ''HMGET'' args) (handle_HMGET eng args)"
  unfolding handle_defs table_facts
  by (simp_all add: not_less del: Atoi.simps One_nat_def)
    ((intro conjI impI reproducible_arity reproducible_number reproducible_error
      | rule reproducible_CALL, rule perform.simps, simp split: sum.split)+)

lemma reproducible_COUNT:
  assumes "short_key k \<Longrightarrow> safely eng 1 (call_engine m)" and "\<And>x h. engine (after (f x) h) = engine h"
  shows "reproducible eng (Inr (Do_COUNT k i n)) (step_loop m n 0 \<bind> f)"
    "reproducible eng (Inr (Do_COUNT k i 1)) (call_engine m \<bind> f)"
  using assms(1)
  by (auto simp: reproducible_def assms(2) intro!: issues_then_reply safely_step_loop)

lemma safely_counters:
  "short_key k \<Longrightarrow> safely eng 1 (call_engine (eIncr eng k))"
  "short_key k \<Longrightarrow> safely eng 1 (call_engine (eDecr eng k))"
  by (auto intro: issues_call [OF perform.simps(5)] issues_call [OF perform.simps(6)])

lemma reproducible_counters:
  "reproducible eng (read_command ''INCR'' args) (handle_INCR eng args)"
  "reproducible eng (read_command ''DECR'' args) (handle_DECR eng args)"
  "reproducible eng (read_command ''INCRBY'' args) (handle_INCRBY eng args)"
  "reproducible eng (read_command ''DECRBY'' args) (handle_DECRBY eng args)"
  unfolding handle_defs table_facts
  by (simp_all del: Atoi.simps One_nat_def)
    ((intro conjI impI reproducible_number reproducible_error
      | rule reproducible_COUNT, erule safely_counters, simp split: sum.split)+)

lemma reproducible_loops:
  "reproducible eng (Inr (Do_DEL ks)) (do { n \<leftarrow> del_loop eng ks 0; reply (t n) })"
  "reproducible eng (Inr (Do_MGET ks)) (do { vs \<leftarrow> mget_loop eng ks []; reply (u vs) })"
  "reproducible eng (Inr (Do_MSET (pairs kvs))) (do { mset_loop eng kvs; reply v })"
  "reproducible eng (Inr (Do_HSET k (pairs kvs))) (do { n \<leftarrow> hset_loop eng k kvs 0; reply (t n) })"
  by (auto simp: reproducible_def intro!: issues_then_reply safely_del_loop safely_mget_loop
      safely_mset_loop safely_hset_loop)

lemma reproducible_single:
  "reproducible eng (Inr (Do_SET k v)) (do { call_engine (eSet eng k v); reply t })"
  "(\<And>x h. engine (after (f x) h) = engine h) \<Longrightarrow>
    reproducible eng (Inr (Do_STRLEN k)) (call_engine (eGet eng k) \<bind> f)"
  "(\<And>x h. engine (after (g x) h) = engine h) \<Longrightarrow>
    reproducible eng (Inr Do_RANDOMKEY) (call_engine (eKeys eng p) \<bind> g)"
  "reproducible eng (Inr (Do_HMSET k fvs)) (do { call_engine (eHMSet eng k (put_all fvs fmempty)); reply t })"
  by (auto simp: reproducible_def intro!: issues_then_reply issues_call [OF perform.simps(1)]
      issues_call [OF perform.simps(2)] issues_call [OF perform.simps(10)] issues_call [OF perform.simps(35)])

lemma reproducible_plain:
  "reproducible eng (Inr Do_COMMAND) (reply t)" "reproducible eng (Inr (Do_PING m)) (reply t)"
  "reproducible eng (Inr (Do_RENAME a b)) n" "reproducible eng (Inr (Do_APPEND a b)) n"
  by (simp_all add: reproducible_def issues_reply)

lemma issues_mono: "issues eng Q i m \<Longrightarrow> i \<le> n \<Longrightarrow> issues eng Q n m"
  unfolding issues_def by (meson order_trans)

lemma reproducible_TYPE: "reproducible eng (read_command ''TYPE'' args) (handle_TYPE eng args)"
proof (cases "length args = 2")
  case False
  then show ?thesis by (simp add: handle_TYPE_def table_facts reproducible_error)
next
  case True
  have len: "safely eng 2 (or_exists eng (eLLen eng k) k)" "safely eng 2 (or_exists eng (eSCard eng k) k)"
    "safely eng 2 (or_exists eng (eHLen eng k) k)" for k
    by (auto intro!: safely_or_exists issues_call [OF perform.simps(17)] issues_call [OF perform.simps(24)]
        issues_call [OF perform.simps(34)])
  have "safely eng 7 (handle_TYPE eng args)"
    using True unfolding handle_TYPE_def
    by (auto intro!: issues_bind [where i = 1 and j = 6] issues_bind [OF len(1), where j = 4]
        issues_bind [OF len(2), where j = 2] issues_bind [OF len(3), where j = 0]
        issues_call [OF perform.simps(1)] simp: issues_reply)
  then show ?thesis using True by (simp add: table_facts reproducible_def)
qed

lemma reproducible_keys:
  "reproducible eng (read_command ''PING'' args) (handle_PING eng args)"
  "reproducible eng (read_command ''COMMAND'' args) (handle_COMMAND eng args)"
  "reproducible eng (read_command ''SET'' args) (handle_SET eng args)"
  "reproducible eng (read_command ''DEL'' args) (handle_DEL eng args)"
  "reproducible eng (read_command ''RENAME'' args) (handle_RENAME eng args)"
  "reproducible eng (read_command ''APPEND'' args) (handle_APPEND eng args)"
  "reproducible eng (read_command ''STRLEN'' args) (handle_STRLEN eng args)"
  "reproducible eng (read_command ''MGET'' args) (handle_MGET eng args)"
  "reproducible eng (read_command ''RANDOMKEY'' args) (handle_RANDOMKEY eng args)"
  unfolding handle_defs table_facts
  by (simp_all add: not_less del: Atoi.simps One_nat_def)
    ((intro conjI impI reproducible_plain reproducible_error reproducible_loops reproducible_single
      | simp split: sum.split list.split)+)

lemma reproducible_pairs:
  "reproducible eng (read_command ''MSET'' args) (handle_MSET eng args)"
  "reproducible eng (read_command ''HSET'' args) (handle_HSET eng args)"
  "reproducible eng (read_command ''HMSET'' args) (handle_HMSET eng args)"
  using even_minus_two [of "length args"]
  by (auto simp: handle_MSET_def handle_HSET_def handle_HMSET_def table_facts reproducible_error
      odd_iff_mod_2_eq_one not_less hmset_fields_put_all intro: reproducible_loops reproducible_single(4))

lemma reproducible_default:
  "cmd \<notin> fst ` set command_table \<Longrightarrow> reproducible eng (read_command cmd args) (handle_default args)"
  by (simp add: handle_default_def read_command_def reproducible_error flip: map_of_eq_None_iff)

lemma reproducible_if:
  "(b \<Longrightarrow> reproducible eng q m) \<Longrightarrow> (\<not> b \<Longrightarrow> reproducible eng q n) \<Longrightarrow> reproducible eng q (if b then m else n)"
  by simp

lemma reproducible_dispatch:
  assumes "cmd \<noteq> ''CONFIG''"
  shows "reproducible eng (read_command cmd args) (dispatch eng cmd args)"
  unfolding dispatch_def
  by (intro reproducible_if)
    (simp_all only: reproducible_calls reproducible_counters reproducible_keys reproducible_pairs
       reproducible_TYPE assms simp_thms,
     rule reproducible_default, simp add: command_table_def)

lemma CONFIG_keeps_engine: "engine (after (handle_CONFIG eng args) h) = engine h"
proof -
  have get: "engine (after (configGet_loop ps rs) h) = engine h" for ps rs and h :: "'a Handler"
    by (induction ps arbitrary: rs h) (simp_all add: Let_def)
  have set: "engine (after (configSet k v) h) = engine h" for k v and h :: "'a Handler"
    by (simp add: configSet_def set_cfg_def Let_def split: option.split del: Atoi.simps)
  show ?thesis by (simp add: handle_CONFIG_def configGet_def get set case_prod_unfold)
qed

lemma Handle_issues:
  assumes "args \<noteq> []" and "safe_request args"
  shows "safely eng (request_cost args) (Handle env eng args)"
proof -
  let ?cmd = "ToUpper (args ! 0)"
  have one: "request_cost args = 1" if "?cmd = ''INFO'' \<or> ?cmd = ''CONFIG''"
  proof -
    have "isl (read_command ''INFO'' args)" "isl (read_command ''CONFIG'' args)" by (simp_all add: table_facts)
    then have "isl (read_command ?cmd args)" using that by (elim disjE) (simp_all only:)
    then obtain msg where "read_command ?cmd args = Inl msg" unfolding isl_def ..
    then show ?thesis by (simp add: request_cost_def)
  qed
  have info: "safely eng 1 (handle_INFO env eng)"
    unfolding handle_INFO_def
    by (auto intro!: issues_then_reply issues_call [OF perform.simps(12)] simp: case_prod_unfold split: option.split)
  have config: "safely eng 1 (dispatch eng ''CONFIG'' args)"
    by (rule issues_none) (simp add: dispatch_def CONFIG_keeps_engine)
  have other: "safely eng (request_cost args) (dispatch eng ?cmd args)" if "?cmd \<noteq> ''CONFIG''"
    using reproducible_dispatch [OF that, of eng args] assms(2)
    by (auto simp: reproducible_def request_cost_def safe_request_def split: sum.splits intro: issues_mono)
  have all: "safely eng (request_cost args)
      (if ?cmd = ''INFO'' then handle_INFO env eng else do { dispatch eng ?cmd args; ret (Ok ()) })"
  proof (cases "?cmd = ''INFO''")
    case True
    then show ?thesis using info one by simp
  next
    case False
    have "safely eng (request_cost args) (dispatch eng ?cmd args)"
      using config other one by (cases "?cmd = ''CONFIG''") simp_all
    then show ?thesis using False by (simp add: issues_then_reply)
  qed
  have "Handle env eng args = do {
      modify (\<lambda>h. h\<lparr>stats := add_TotalCommands 1 (stats h)\<rparr>);
      (if ?cmd = ''INFO'' then handle_INFO env eng else do { dispatch eng ?cmd args; ret (Ok ()) }) }"
    using assms(1) by (simp add: Handle_def Let_def)
  then show ?thesis
    by (simp only:) (rule issues_bind [OF issues_none all, where i = 0], simp_all)
qed

subsection \<open>Requests and connections\<close>

lemma lives_calls:
  assumes "lives n s" and "list_all safe_call cs" and "n + cost cs < 2 ^ 62"
  shows "lives (n + cost cs) (after (run_calls WALEngine_methods cs) s)"
  using assms
proof (induction cs arbitrary: n s)
  case (Cons c cs)
  have "lives (n + call_cost c) (after (perform WALEngine_methods c) s)"
    using lives.invoke [OF Cons.prems(1), of c] Cons.prems(2,3) by (simp add: run_call_def)
  then show ?case using Cons.IH [of "n + call_cost c"] Cons.prems(2,3) by (simp add: add.assoc)
qed simp

lemma lives_issues:
  assumes "safely WALEngine_methods k m" and "lives n (engine h)" and "n + k < 2 ^ 62"
  shows "\<exists>n' \<le> n + k. lives n' (engine (after m h))"
proof -
  obtain cs where cs: "list_all safe_call cs" "cost cs \<le> k"
    "engine (after m h) = after (run_calls WALEngine_methods cs) (engine h)"
    using assms(1) unfolding issues_def by blast
  then show ?thesis
    using lives_calls [OF assms(2) cs(1)] assms(3) by (intro exI [of _ "n + cost cs"]) simp
qed

lemma serve_request_issues:
  assumes "args = [] \<or> safe_request args"
  shows "safely eng (if args = [] then 0 else request_cost args) (serve_request env eng b args)"
proof (cases "args = []")
  case True
  then show ?thesis
    by (auto intro!: issues_none simp: serve_request_def Handle_def isUnauthenticatedCommand_def)
next
  case False
  have handled: "safely eng (request_cost args) (do { r \<leftarrow> Handle env eng args;
      ret (case r of Ok _ \<Rightarrow> Ok b | Err e \<Rightarrow> Err e | Panic \<Rightarrow> Panic) })"
    using Handle_issues [OF False, of eng env] assms False by (auto intro: issues_then_reply)
  have got: "safely eng 0 State_Monad.get" by (rule issues_none) simp
  have said: "safely eng (request_cost args) (do { reply t; ret (Ok c :: bool outcome) })" for t c
    by (rule issues_none) simp
  show ?thesis
    unfolding serve_request_def
    by (rule issues_bind [OF got, where j = "request_cost args"]) (use False handled said in auto)
qed

definition input_cost :: "string \<Rightarrow> nat" where
  "input_cost input = sum_list (map (\<lambda>args. if args = [] then 0 else request_cost args) (requests input))"

lemma lives_client_loop:
  assumes "lives n (engine h)" and "n + input_cost input < 2 ^ 62"
    and "\<forall>args \<in> set (requests input). args = [] \<or> safe_request args"
  shows "\<exists>n' \<le> n + input_cost input. lives n' (engine (after (client_loop env WALEngine_methods i b input) h))"
  using assms
proof (induction input arbitrary: n h i b rule: requests.induct)
  case (1 input)
  obtain p rest where p: "Parse input = (p, rest)" by (metis prod.exhaust)
  show ?case
  proof (cases p)
    case (Ok args)
    let ?k = "if args = [] then 0 else request_cost args"
    have cost: "input_cost input = ?k + input_cost rest"
      and safe: "args = [] \<or> safe_request args" "\<forall>args \<in> set (requests rest). args = [] \<or> safe_request args"
      using "1.prems"(3) p Ok by (auto simp: input_cost_def requests.simps [of input])
    obtain r h1 where run: "run_state (serve_request (env i) WALEngine_methods b args) h = (r, h1)"
      by (metis prod.exhaust)
    obtain n1 where n1: "n1 \<le> n + ?k" "lives n1 (engine h1)"
      using lives_issues [OF serve_request_issues [OF safe(1)] "1.prems"(1), of "env i" b] "1.prems"(2) cost run
      by auto
    have room: "n1 + input_cost rest \<le> n + input_cost input" using n1(1) cost by simp
    have rest: "\<exists>n' \<le> n + input_cost input. lives n' (engine (after (client_loop env WALEngine_methods (Suc i) b' rest) h1))" for b'
      using "1.IH" [OF p [symmetric] Ok n1(2) le_less_trans [OF room "1.prems"(2)] safe(2), of "Suc i" b'] room
      by (meson order_trans)
    have stay: "\<exists>n' \<le> n + input_cost input. lives n' (engine h1)" using n1 cost by (intro exI [of _ n1]) simp
    show ?thesis
      using rest stay p Ok run by (cases r) (simp_all add: client_loop.simps [of _ _ _ _ input])
  next
    case (Err e)
    then show ?thesis using "1.prems"(1) p by (intro exI [of _ n]) (simp add: client_loop.simps [of _ _ _ _ input])
  next
    case Panic
    then show ?thesis using "1.prems"(1) p by (intro exI [of _ n]) (simp add: client_loop.simps [of _ _ _ _ input])
  qed
qed

subsection \<open>Properties\<close>

text \<open>C1: What a client wrote survives a crash. A server whose engine was started on an empty
  directory and has lived without disk faults serves a connection; all its requests are commands the
  log can reproduce. Then, whatever bytes the client sent, whether the loop ended with the input or
  with a panic of the parser, the next start on the directory succeeds and rebuilds exactly the store
  the connection left in memory.\<close>

theorem client_data_survives_crash:
  fixes env :: "nat \<Rightarrow> runtime_env"
  assumes "lives n (engine h)" and "n + input_cost input < 2 ^ 62"
    and "\<forall>args \<in> set (requests input). args = [] \<or> safe_request args"
    and "engine (after (handleClient env WALEngine_methods input) h) = (e, w)"
  shows "\<exists>e'. run_state (NewWALEngine mb) w = (Ok e', w) \<and> store (mem e') = store (mem e)"
proof -
  let ?h = "h\<lparr>stats := add_ActiveConnections 1 (add_TotalConnections 1 (stats h))\<rparr>"
  let ?loop = "client_loop env WALEngine_methods 0 (RequirePass (cfg h) = []) input"
  have "engine (after (handleClient env WALEngine_methods input) h) = engine (after ?loop ?h)"
    by (simp add: handleClient_def case_prod_unfold split: outcome.split)
  then obtain n' where "lives n' (e, w)"
    using lives_client_loop [of n ?h input env 0 "RequirePass (cfg h) = []"] assms by auto
  then show ?thesis by (rule lives_recovers)
qed

theorem client_data_survives_crash_witness:
  "\<forall>env. \<exists>h e w e'. engine (after (handleClient env WALEngine_methods (WriteArray [''SET'', ''k'', ''v''])) h) = (e, w) \<and>
     run_state (NewWALEngine 64) w = (Ok e', w) \<and> str (view (store (mem e')) ''k'') = Some ''v''"
proof
  fix env :: "nat \<Rightarrow> runtime_env"
  let ?args = "[''SET'', ''k'', ''v'']"
  obtain e0 w0 where live: "lives 0 (e0, w0)" using lives_boot by blast
  let ?h = "NewHandler (e0, w0) Default New []"
  let ?g = "?h\<lparr>stats := add_ActiveConnections 1 (add_TotalConnections 1 (stats ?h))\<rparr>"
  have parse: "Parse (WriteArray ?args @ []) = (Ok ?args, [])"
    by (rule Parse_WriteArray) (simp_all add: make_ok_def maxAlloc_def)
  note req = one_request [OF parse]
  have upper: "ToUpper ''SET'' = ''SET''" by code_simp
  have read: "read_command ''SET'' ?args = Inr (Do_SET ''k'' ''v'')" by (simp add: table_facts)
  have safe: "safe_request ?args" "request_cost ?args = 1"
    using upper read by (simp_all add: safe_request_def request_cost_def short_key_def short_value_def del: ToUpper.simps)
  obtain e w where ew: "after (WALEngine_Set ''k'' ''v'') (e0, w0) = (e, w)" "str (view (store (mem e)) ''k'') = Some ''v''"
    using lives_Set [OF live, of "''k''" "''v''"] by (auto simp: short_key_def short_value_def)
  have "engine (after (handleClient env WALEngine_methods (WriteArray ?args)) ?h) = (e, w)"
    using ew(1) parse upper
    by (simp add: handleClient_def client_loop.simps [of _ _ _ _ "WriteArray ?args"] client_loop.simps [of _ _ _ _ "[]"]
        serve_request_def Handle_def dispatch_def handle_SET_def WALEngine_methods_def NewHandler_def Default_def
        Parse_def [of "[]"] ReadString_def [of "[]"] case_prod_unfold del: ToUpper.simps)
  moreover from client_data_survives_crash [OF _ _ _ this, of 0 64] obtain e' where
    "run_state (NewWALEngine 64) w = (Ok e', w)" "store (mem e') = store (mem e)"
    using live req safe by (auto simp: NewHandler_def input_cost_def)
  ultimately show "\<exists>h e w e'. engine (after (handleClient env WALEngine_methods (WriteArray ?args)) h) = (e, w) \<and>
      run_state (NewWALEngine 64) w = (Ok e', w) \<and> str (view (store (mem e')) ''k'') = Some ''v''"
    using ew(2) by metis
qed

end
