(* ===== verification/Spec2Isabelle.thy ===== *)
theory Spec2Isabelle
  imports Writers Compaction Sessions Durability
begin

text \<open>
  \<^bold>\<open>WarpDB: a verification development.\<close>

  WarpDB is a key-value server that speaks the Redis protocol. A connection (cmd/server) reads
  requests with the parser of core/protocol and hands them to the command handler of
  core/commands, which calls a storage engine. The server uses the logging engine
  (engine/wal\_engine.go): it writes each change to a write-ahead log (wal) and applies it to a
  memory engine (engine/memory.go), a thin layer over a store of 256 locked shards
  (core/store). At the start the log is replayed into memory. internal/config gives the
  settings, internal/stats the counters and the INFO text.

  \<^bold>\<open>Theories and what they model.\<close>
  \<^item> \<open>Prelude\<close>: errors and outcomes (\<open>Ok\<close>, \<open>Err\<close>, \<open>Panic\<close>), 64-bit arithmetic with wrap-around, runs
    of state-monad programs, iteration orders of maps; the collections of facts the proofs use.
    \<open>Go_Strings\<close>, \<open>Go_Float\<close>, \<open>Crc32\<close>: the parts of Go's library the program calls (strconv,
    strings, fmt, float64 rounding, hash/crc32). \<open>Go_World\<close>: clock, iteration orders and random
    numbers as a state the program reads; every run of the program is a run from some world.
  \<^item> \<open>Glob\<close>: matchPattern and globMatch of core/store/store.go, and the language of a pattern.
  \<^item> \<open>Store\<close>: the record of shards and every method of core/store/store.go, in the order of the
    file. \<open>Store_Spec\<close>: the representation invariant, kept by every method; the abstraction to a
    function from keys to entries; the effect of every method on it.
  \<^item> \<open>Format\<close>: wal/format.go, with the panics of its slice expressions. \<open>Wal\<close>: wal/wal.go over a
    directory of segments and a manifest. Each system call that can fail draws its result from a
    schedule of faults. \<open>flush_batch\<close> is the body of the loop of runFlusher. \<open>Wal_Spec\<close>: what the
    directory holds after flushes and rotations, durability under faults, and replay as a fold,
    inside the locale \<open>replay_target\<close> of the engines that can be replayed into.
  \<^item> \<open>Engine\<close>: Go's StorageEngine interface as a record of methods, the memory engine, the logging
    engine and its start. \<open>Engine_Spec\<close>: a specification of each method on the abstract database
    and the locales \<open>keyspace_engine\<close> and \<open>storage_engine\<close> that assume them; both engines are
    interpretations, the logging engine under every schedule of faults.
  \<^item> \<open>Recovery\<close>: runs of the logging engine with restarts (\<open>lives\<close>) and what a restart rebuilds.
    \<open>Writers\<close>: goroutines that call the engine, and the flusher, as a step relation
    (\<open>writers_step\<close>); each method is a program over log writes and memory calls (\<open>prog_of\<close>), proved
    equal to the method of \<open>Engine\<close>, and the invariant keeps account of the records each goroutine
    has logged and applied. \<open>Restart\<close>: logs that cannot be replayed, stray bytes in a segment
    (\<open>dir_holds\<close>) and starts on a failing disk. \<open>Compaction\<close>: what Compact keeps.
  \<^item> \<open>Protocol\<close>, \<open>Config\<close>, \<open>Stats\<close>: core/protocol/protocol.go, internal/config/config.go with
    cmd/main.go, internal/stats/stats.go.
  \<^item> \<open>Commands\<close>: one definition for each case of Handle in core/commands/commands.go, over any
    engine, and the dispatch. \<open>Commands_Spec\<close>: one reply per request for every engine, and the reader of
    replies on the client's side (\<open>read_replies\<close>) they are measured by; the effects of commands proved once inside the locales of the engines (\<open>reliable_engine\<close> adds that writes
    succeed), and read off for each engine through its interpretation. \<open>Commands_Machine\<close>: an
    abstract machine for the command set: a table of commands with their arities, and the relation
    each stands for on the abstract database, replies included. \<open>Commands_Refine\<close>: the handler
    refines it, in the locale \<open>command_engine\<close>; its parameter \<open>lossy\<close> says whether the engine may
    refuse writes, which the memory engine does not and the logging engine may.
  \<^item> \<open>Server\<close>: cmd/server/server.go: the start, one request (\<open>serve_request\<close>), the loop of a
    connection over the bytes the client sends, and the accept loop with its semaphore and the
    shutdown as a step relation. \<open>Sessions\<close>: any number of connections that share the
    configuration, as a step relation. \<open>Durability\<close>: the calls of the engine every command issues,
    and crash recovery for what a client sends.
  \<^item> This theory: the properties that span components.

  \<^bold>\<open>What is shown.\<close> Durability of acknowledged writes under every schedule of faults; exact recovery
  after any number of restarts for the calls recovery can handle (\<open>safe_call\<close> lists the
  restrictions: keys of at most eight bytes, LPUSH of one value, no SPOP, no EXPIRE, fields
  without NUL), and from there for the input of a connection, whatever ends it (\<open>safe_command\<close>
  adds no APPEND and no RENAME, whose values come from the store); a start that succeeds has
  rebuilt the whole log, whatever the disk does; under concurrent calls, that memory and log hold the
  same records up to their order; that every key is in its home shard; refinement of the abstract database by the logging engine and of the abstract machine
  of commands by the handler on both engines; exact behaviour of ranges and the sweep; round trips
  of records and requests; detection of corrupted entries; authentication under every interleaving
  of connections and the isolation of clients without password; that a connection ends, with its
  work bounded by its input; as many replies as requests; the limits of the accept loop; precedence of all settings. Where the code does
  not do what it means to, the theorem states what it does: keys of more than eight bytes, cut
  logs, writes that failed part way, racing writes, LPUSH order, lost deadlines, compaction, TYPE,
  RENAME, INCRBY and EXPIRE at their limits, forged replies and requests with a negative count.

  \<^bold>\<open>Bounds.\<close> No fuel is used: every loop is a structural recursion or has a termination proof. Segment
  numbers and lengths are 64-bit integers; \<open>lives\<close> bounds the number of records of a run by
  \<open>2 ^ 62\<close>, so that segment numbers do not wrap around, and LRANGE is exact for lists shorter than
  \<open>2 ^ 63\<close>.

  \<^bold>\<open>Not modelled.\<close> Socket I/O and the text logged; the deadline of a connection, which the code sets
  to the zero time and so never; what encoding/json
  and flag make of malformed input beyond their result. A critical section of a shard is atomic;
  methods with two of them (Get, Exists) have both as separate functions, and properties about
  what happens in between. Calls of different goroutines interleave in \<open>writers_step\<close>, at the log writes and
  the calls of the memory engine, without disk faults; FLUSHALL, which the code does shard by shard, is
  one step there. The requests of connections interleave in \<open>session_step\<close>, where a request may find the engine in any state; the effects of a
  command on the database are proved for one connection at a time. The directory the model opens
  is the one the start was given: a change of the path in the configuration has no effect.
\<close>

section \<open>Properties across components\<close>

text \<open>C17: SET and GET through the handler of the server. SET is answered with OK in every case. If the
  log took the write, a GET of the key is answered with the value; if the log refused it, the OK is
  there all the same and the database is unchanged.\<close>

theorem set_then_get:
  fixes h :: "wal_engine_state Handler" and k v :: string and env env' :: runtime_env
  assumes "wal_ok (engine h)"
  defines "h' \<equiv> after (Handle env WALEngine_methods [''SET'', k, v]) h"
  shows "out h' = out h @ WriteSimpleString ''OK'' \<and>
    (if runs (WALEngine_Set k v) (engine h) = None
     then out (after (Handle env' WALEngine_methods [''get'', k]) h') = out h' @ WriteBulkString v
     else wal_db (engine h') = wal_db (engine h))"
proof -
  let ?g = "h\<lparr>stats := add_TotalCommands 1 (stats h)\<rparr>"
  have upper: "ToUpper ''SET'' = ''SET''" "ToUpper ''get'' = ''GET''"
    by code_simp+
  have h': "h' = after (handle_SET WALEngine_methods [''SET'', k, v]) ?g"
    by (simp add: h'_def Handle_def upper dispatch_def Let_def case_prod_unfold del: ToUpper.simps)
  have set: "eSet WALEngine_methods k v = WALEngine_Set k v" by (simp add: WALEngine_methods_def)
  have ok: "wal_ok (engine ?g)" using assms(1) by simp
  note S = wal.SET_effect [of ?g "[''SET'', k, v]", OF ok, folded h']
  have "out (after (Handle env' WALEngine_methods [''get'', k]) h') = out h' @ WriteBulkString v"
    if "runs (WALEngine_Set k v) (engine h) = None"
  proof -
    let ?h = "h'\<lparr>stats := add_TotalCommands 1 (stats h')\<rparr>"
    have "wal_db (engine ?h) k = set_entry v (wal_db (engine h) k)" using S(4) that set by simp
    then have "get_result t (wal_db (engine ?h) k) = Inr v" for t
      by (simp add: get_result_def set_entry_def expired_def)
    then have "out (after (handle_GET WALEngine_methods [''get'', k]) ?h) = out h' @ WriteBulkString v"
      using wal.GET_effect(2) [of ?h "[''get'', k]"] S(1) by simp
    then show ?thesis
      by (simp add: Handle_def upper dispatch_def Let_def case_prod_unfold del: ToUpper.simps)
  qed
  then show ?thesis using S(3,4) set by simp
qed

theorem set_then_get_witness:
  "\<exists>h. wal_ok (engine h) \<and> runs (WALEngine_Set ''k'' ''v'') (engine h) = None \<and>
     (\<forall>env. out (after (Handle env WALEngine_methods [''get'', ''k''])
       (after (Handle env WALEngine_methods [''SET'', ''k'', ''v'']) h)) =
     out h @ WriteSimpleString ''OK'' @ WriteBulkString ''v'')"
proof -
  obtain e w where l: "lives 0 (e, w)" using lives_boot by blast
  let ?h = "NewHandler (e, w) Default New []"
  have ok: "wal_ok (engine ?h)" "runs (WALEngine_Set ''k'' ''v'') (engine ?h) = None"
    using lives_Set_acknowledged [OF l, of "''k''" "''v''"] by (simp_all add: NewHandler_def)
  have "out (after (Handle env WALEngine_methods [''get'', ''k''])
      (after (Handle env WALEngine_methods [''SET'', ''k'', ''v'']) ?h)) =
      out ?h @ WriteSimpleString ''OK'' @ WriteBulkString ''v''" for env
    using set_then_get [OF ok(1), of env "''k''" "''v''" env] ok(2) by (metis append.assoc)
  with ok show ?thesis by blast
qed

text \<open>C10: One reply per request. Unless a command name has a line end in it (C40 shows what happens then),
  what a connection writes reads as exactly as many replies as it could parse requests, each of them
  complete, with nothing between them or left over; for every engine, and whether or not the client
  is authenticated.\<close>

theorem every_request_answered:
  fixes h :: "'s Handler"
  assumes "\<forall>args \<in> set (requests input). plain_name args"
  shows "\<exists>t rs. out (after (client_loop env eng n authenticated input) h) = out h @ t \<and>
     read_replies t = Some rs \<and> length rs = length (requests input)"
proof -
  obtain rs where "length rs = length (requests input)" "list_all framed rs"
    "out (after (client_loop env eng n authenticated input) h) = out h @ concat (map render rs)"
    using client_loop_replies [OF assms] by blast
  then show ?thesis using read_replies_render by blast
qed

theorem every_request_answered_witness:
  "\<forall>env. \<exists>rs. length rs = 1 \<and>
     read_replies (out (after (client_loop env MemoryEngine_methods 0 True (WriteArray [''DEL'', ''k'']))
       (example_handler\<lparr>out := []\<rparr>))) = Some rs"
proof
  fix env
  have "requests (WriteArray [''DEL'', ''k'']) = [[''DEL'', ''k'']]"
    by (rule one_request, rule Parse_WriteArray) (simp_all add: make_ok_def maxAlloc_def)
  moreover have "plain_name [''DEL'', ''k'']" by (simp add: plain_name_def plain_defs)
  ultimately show "\<exists>rs. length rs = 1 \<and>
      read_replies (out (after (client_loop env MemoryEngine_methods 0 True (WriteArray [''DEL'', ''k'']))
        (example_handler\<lparr>out := []\<rparr>))) = Some rs"
    using every_request_answered [of "WriteArray [''DEL'', ''k'']" env MemoryEngine_methods 0 True "example_handler\<lparr>out := []\<rparr>"]
    by auto
qed

text \<open>C11: A connection ends. Whatever finite input it gets, the loop returns, by the end of the input or
  by a panic of the parser and never with an error of the handler; and the work it hands to the
  handler is bounded by the input: every request takes three bytes of it, and every argument five
  bytes beside its own.\<close>

theorem connection_ends:
  "runs (handleClient env eng input) h \<in> {Ok (), Panic} \<and>
   sum_list (map request_size (requests input)) \<le> length input"
proof
  have loop: "runs (client_loop env eng n b input) h \<in> {Ok (), Panic}" for n b h
  proof (induction input arbitrary: n b h rule: requests.induct)
    case (1 input)
    obtain p rest where p: "Parse input = (p, rest)" by (metis prod.exhaust)
    show ?case
    proof (cases p)
      case (Ok args)
      obtain h' where "run_state (Handle (env n) eng args) h = (Ok (), h')"
        using Handle_Ok [of "env n" eng args h] by (metis prod.collapse)
      from client_loop_request [where env = env and n = n, OF p [unfolded Ok] this] show ?thesis
        using "1.IH" [OF p [symmetric] Ok] by (simp split: if_split)
    qed (simp_all add: client_loop.simps [of _ _ _ _ input] p)
  qed
  show "runs (handleClient env eng input) h \<in> {Ok (), Panic}"
    using loop [of 0 "RequirePass (cfg h) = []" "h\<lparr>stats := add_ActiveConnections 1 (add_TotalConnections 1 (stats h))\<rparr>"]
    by (auto simp: handleClient_def case_prod_unfold split: outcome.split)
  show "sum_list (map request_size (requests input)) \<le> length input"
  proof (induction input rule: requests.induct)
    case (1 input)
    obtain p rest where p: "Parse input = (p, rest)" by (metis prod.exhaust)
    show ?case
      using "1.IH" [OF p [symmetric]] Parse_size [of input] p
      by (cases p) (fastforce simp: requests.simps [of input])+
  qed
qed

text \<open>C32: A crash from outside. Five bytes of a client that has not authenticated, the request
  \<open>*-1\<close>, make the parser allocate a slice of negative size: the goroutine of the connection panics,
  and with it the server.\<close>

theorem negative_count_crashes:
  "runs (handleClient env eng (''*-1'' @ crlf @ rest)) h = Panic"
proof -
  have "ReadString (''*-1'' @ crlf @ rest) = (Inr (''*-1'' @ crlf), rest)"
    using ReadString_line [of "''*-1'' @ [CR]" rest] by (simp add: crlf_def CR_def LF_def)
  moreover have "TrimSpace (''*-1'' @ crlf) = ''*-1''" "Sscanf_d ''-1'' = Some (-1)" by code_simp+
  ultimately have "Parse (''*-1'' @ crlf @ rest) = (Panic, rest)"
    by (simp add: Parse_def make_ok_def)
  then show ?thesis
    by (simp add: handleClient_def client_loop.simps [of _ _ _ _ "''*-1'' @ crlf @ rest", simplified] case_prod_unfold)
qed

text \<open>C9: Clients without the password. A client none of whose requests presents the password changes
  neither the database nor the configuration, and learns nothing of the database: the replies are
  those it would get with any other state of the engine.\<close>

theorem unauthenticated_client_isolated:
  assumes "RequirePass (cfg h) \<noteq> []"
    and "\<forall>args \<in> set (requests input). \<not> presents (RequirePass (cfg h)) args"
  shows "engine (after (handleClient env eng input) h) = engine h \<and>
    cfg (after (handleClient env eng input) h) = cfg h \<and>
    out (after (handleClient env eng input) (h\<lparr>engine := e\<rparr>)) = out (after (handleClient env eng input) h)"
proof -
  let ?st = "add_ActiveConnections 1 (add_TotalConnections 1 (stats h))"
  let ?g = "h\<lparr>stats := ?st\<rparr>" and ?loop = "client_loop env eng 0 False input"
  have commute: "h\<lparr>engine := e, stats := ?st\<rparr> = ?g\<lparr>engine := e\<rparr>" by (cases h) simp
  have no: "\<forall>args \<in> set (requests input). \<not> presents (RequirePass (cfg ?g)) args" using assms(2) by simp
  note same = client_loop_unauthenticated [OF no, of env eng 0]
  note blind = client_loop_blind [OF no, of env eng 0 e]
  show ?thesis
    using assms(1) same blind
    by (simp add: handleClient_def case_prod_unfold commute split: outcome.split)
qed

theorem unauthenticated_client_isolated_witness:
  "\<forall>env. engine (after (handleClient env MemoryEngine_methods (WriteArray [''DEL'', ''k'']))
     (example_handler\<lparr>cfg := Default\<lparr>RequirePass := ''pw''\<rparr>\<rparr>)) = engine example_handler"
proof
  fix env
  let ?h = "example_handler\<lparr>cfg := Default\<lparr>RequirePass := ''pw''\<rparr>\<rparr>"
  have "Parse (WriteArray [''DEL'', ''k''] @ []) = (Ok [''DEL'', ''k''], [])"
    by (rule Parse_WriteArray) (simp_all add: make_ok_def maxAlloc_def)
  then have "requests (WriteArray [''DEL'', ''k'']) = [[''DEL'', ''k'']]" by (rule one_request)
  then show "engine (after (handleClient env MemoryEngine_methods (WriteArray [''DEL'', ''k''])) ?h) = engine example_handler"
    using unauthenticated_client_isolated [of ?h "WriteArray [''DEL'', ''k'']" env MemoryEngine_methods]
    by (simp add: presents_def)
qed

text \<open>C22: The accept loop. Under every interleaving of new connections, their goroutines and a signal,
  the tokens taken are those of the connections started and not yet ended, there are at most as many
  as the limit allows, and the number of active connections the statistics show is the number of
  connections being served.\<close>

theorem connections_limited:
  assumes "accept_reach cap s" and "cap < 2 ^ 63"
  shows "spawned s + serving s + leaving s = sem s \<and> sem s \<le> cap \<and>
    ActiveConnections (conn_stats s) = int (serving s)"
  using accept_reach_inv [OF assms] by (simp add: accept_inv_def)

theorem connections_limited_witness:
  "\<exists>s. accept_reach 1 s \<and> serving s = 1 \<and> sem s = 1 \<and> ActiveConnections (conn_stats s) = 1"
proof -
  let ?a = "accept_start\<lparr>sem := 1, spawned := 1\<rparr>"
  have "accept_reach 1 ?a"
    using accept_reach.step [OF accept_reach.start accept_step.admit [of accept_start 1]]
    by (simp add: accept_start_def)
  then obtain s where s: "accept_reach 1 s" "serving s = 1" "sem s = 1"
    using accept_reach.step [OF _ accept_step.begin_serving [of ?a 1]] by (force simp: accept_start_def)
  with connections_limited [OF s(1)] show ?thesis by auto
qed

end
